(* ===== verification/Prelude.thy ===== *)
theory Prelude
  imports Main "HOL-Library.Word" "HOL-Library.Monad_Syntax"
begin

text \<open>
  Shared vocabulary of the development: the C integer types, the resource types of
  \<^verbatim>\<open>common_types.h\<close>, the result type of operations that can have undefined behaviour, and
  generic lemmas on lists, sums and words that the component theories use.

  Conventions.
  \<^item> \<^verbatim>\<open>unsigned\<close> values that the program computes with are \<open>u32\<close> (32 bit words, arithmetic wraps).
    Counters and array indices are \<open>nat\<close>, with the wrap-around of \<^verbatim>\<open>++\<close>, \<^verbatim>\<open>--\<close> and \<^verbatim>\<open>*= 2\<close> written
    out (\<open>u_inc\<close>, \<open>u_dec\<close>, \<open>u_dbl\<close>).
  \<^item> A function that can run into undefined behaviour (division by zero, a write through a bad
    index, a NULL dereference, a buffer overflow) returns a \<open>result\<close>: \<open>None\<close> is the undefined
    execution, \<open>Some\<close> the defined one.
  \<^item> A pointer that may be NULL is an \<open>option\<close>; a heap object is its value. The copy functions the
    containers are given (\<^verbatim>\<open>copy_active_job\<close> and its kin) return the pointer itself. Destroying an
    object only releases its memory, which has no effect on values.
\<close>

named_theorems c_simps \<open>unfolding rules of the C level helper functions\<close>

type_synonym u32 = "32 word"

type_synonym 'a result = "'a option"

section \<open>Unsigned counters\<close>

abbreviation UINT_MOD :: nat where
  "UINT_MOD \<equiv> 2 ^ 32"

definition u_inc :: "nat \<Rightarrow> nat" where
  "u_inc n = (n + 1) mod UINT_MOD"

definition u_dec :: "nat \<Rightarrow> nat" where
  "u_dec n = (n + (UINT_MOD - 1)) mod UINT_MOD"

definition u_dbl :: "nat \<Rightarrow> nat" where
  "u_dbl n = (n * 2) mod UINT_MOD"

lemma u_inc_small [c_simps]: "n + 1 < UINT_MOD \<Longrightarrow> u_inc n = Suc n"
  by (simp add: u_inc_def)

lemma u_dec_pos [c_simps]: "0 < n \<Longrightarrow> n < UINT_MOD \<Longrightarrow> u_dec n = n - 1"
  by (cases n) (simp_all add: u_dec_def)

lemma u_dbl_small [c_simps]: "2 * n < UINT_MOD \<Longrightarrow> u_dbl n = 2 * n"
  by (simp add: u_dbl_def mult.commute)

text \<open>The conversion of an \<^verbatim>\<open>unsigned\<close> to an \<^verbatim>\<open>int\<close> keeps the bits.\<close>

definition int_of_u32 :: "u32 \<Rightarrow> int" where
  "int_of_u32 w = sint w"

definition u32_of_int :: "int \<Rightarrow> u32" where
  "u32_of_int i = word_of_int i"

lemma u32_of_int_of_u32 [simp]: "u32_of_int (int_of_u32 w) = w"
  by (simp add: u32_of_int_def int_of_u32_def)

lemma int_of_u32_inject [simp]: "int_of_u32 v = int_of_u32 w \<longleftrightarrow> v = w"
  by (metis u32_of_int_of_u32)

lemma int_of_u32_minus_1 [simp]: "int_of_u32 w = - 1 \<longleftrightarrow> w = - 1"
  using int_of_u32_inject [of w "- 1"] by (simp add: int_of_u32_def)

lemma int_of_u32_small: "n < 2 ^ 31 \<Longrightarrow> int_of_u32 (of_nat n) = int n"
  by (simp add: int_of_u32_def signed_of_nat signed_take_bit_int_eq_self)

section \<open>Resource types\<close>

datatype resource_t = CPU | GPU | RAM | INVALID_RES_TYPE

definition RES_NUM :: nat where
  "RES_NUM = 3"

text \<open>The value of the enumerator.\<close>

fun res_index :: "resource_t \<Rightarrow> nat" where
  "res_index CPU = 0"
| "res_index GPU = 1"
| "res_index RAM = 2"
| "res_index INVALID_RES_TYPE = 3"

text \<open>The enumerator of a value; the code only converts values below \<^const>\<open>RES_NUM\<close>.\<close>

definition res_of :: "nat \<Rightarrow> resource_t" where
  "res_of n = (if n = 0 then CPU else if n = 1 then GPU else if n = 2 then RAM
     else INVALID_RES_TYPE)"

text \<open>The values the loops \<^verbatim>\<open>for (type = 0; type < RES_NUM; type++)\<close> run through.\<close>

definition res_types :: "resource_t list" where
  "res_types = map res_of [0..<RES_NUM]"

lemma res_types_eq [simp]: "res_types = [CPU, GPU, RAM]"
  by (simp add: res_types_def RES_NUM_def res_of_def upt_rec)

lemma res_of_index [simp]: "res_of (res_index r) = r"
  by (cases r) (simp_all add: res_of_def)

lemma res_index_less [simp]: "res_index r < RES_NUM \<longleftrightarrow> r \<noteq> INVALID_RES_TYPE"
  by (cases r) (simp_all add: RES_NUM_def)

lemma res_types_iff: "r \<in> set res_types \<longleftrightarrow> r \<noteq> INVALID_RES_TYPE"
  by (cases r) simp_all

lemma res_index_inject [simp]: "res_index r = res_index s \<longleftrightarrow> r = s"
  by (metis res_of_index)

text \<open>The order of the enumerators is the order of their values.\<close>

instantiation resource_t :: linorder
begin

definition less_eq_resource_t :: "resource_t \<Rightarrow> resource_t \<Rightarrow> bool" where
  "less_eq_resource_t r s \<longleftrightarrow> res_index r \<le> res_index s"

definition less_resource_t :: "resource_t \<Rightarrow> resource_t \<Rightarrow> bool" where
  "less_resource_t r s \<longleftrightarrow> res_index r < res_index s"

instance
  by standard (auto simp: less_eq_resource_t_def less_resource_t_def)

end

section \<open>Sums and words\<close>

lemma unat_add_le:
  fixes a b :: u32
  assumes "unat a + unat b \<le> unat (c :: u32)"
  shows "unat (a + b) = unat a + unat b"
proof -
  have "unat c < 2 ^ LENGTH(32)" by (rule unsigned_less)
  with assms have "unat a + unat b < 2 ^ 32" by simp
  then show ?thesis by (simp add: unat_word_ariths)
qed

lemma unat_diff_le:
  fixes a b :: u32
  assumes "b \<le> a"
  shows "unat (a - b) = unat a - unat b"
  using assms by (simp add: unat_sub)

lemma sum_filter_remove:
  fixes f :: "'a \<Rightarrow> nat"
  assumes "finite A" "x \<in> A"
  shows "sum f A = f x + sum f (A - {x})"
  using assms by (rule sum.remove)

section \<open>Options\<close>

lemma bind_Some_iff: "(m \<bind> f) = Some y \<longleftrightarrow> (\<exists>x. m = Some x \<and> f x = Some y)"
  by (cases m) auto

section \<open>Collecting into a bounded array\<close>

text \<open>
  The visitors that gather elements until their array is full: each step appends \<open>f x\<close> when \<open>P x\<close>
  holds and there is room. \<open>I\<close> is what the context keeps (the parameters of the search).
\<close>

lemma fold_collect:
  assumes "I c" and step: "\<And>x c. x \<in> set xs \<Longrightarrow> I c \<Longrightarrow> I (g x c) \<and>
    found (g x c) = (if m \<le> length (found c) then found c else if P x then found c @ [f x] else found c)"
  shows "I (fold g xs c) \<and>
    found (fold g xs c) = found c @ take (m - length (found c)) (map f (filter P xs))"
  using assms
proof (induction xs arbitrary: c)
  case (Cons x xs)
  have s: "I (g x c)"
    "found (g x c) = (if m \<le> length (found c) then found c else if P x then found c @ [f x] else found c)"
    using Cons.prems(2) [of x c] Cons.prems(1) by auto
  have ih: "I (fold g xs (g x c)) \<and> found (fold g xs (g x c)) =
      found (g x c) @ take (m - length (found (g x c))) (map f (filter P xs))"
    using Cons.prems(2) by (intro Cons.IH s(1)) auto
  show ?case
  proof (cases "m - length (found c)")
    case 0
    with ih s(2) show ?thesis by simp
  next
    case (Suc n)
    then have "m - Suc (length (found c)) = n" "\<not> m \<le> length (found c)" by simp_all
    with Suc ih s(2) show ?thesis by simp
  qed
qed simp

end
