(* ===== verification/Queues.thy ===== *)
theory Queues
  imports Prelude
begin

text \<open>
  The singly linked queue of \<^verbatim>\<open>c_agent/src/resources/queues.c\<close>. A \<^verbatim>\<open>queue_t\<close> is a chain of nodes
  ended by NULL; its model is the list of the nodes' data. The recursive C functions are the
  recursive functions below. \<^verbatim>\<open>assert\<close> after \<^verbatim>\<open>malloc\<close> ends the process when memory is exhausted, so
  the model describes the calls that return.

  The interface \<open>fifo\<close> states what a first-in first-out buffer promises to its clients; it is
  interpreted here on the linked queue and in \<open>Thread_Pool\<close> on the ring buffer of the task queue.
\<close>

section \<open>The operations\<close>

type_synonym 'a queue_t = "'a list"

definition queue_create :: "'a queue_t" where
  "queue_create = []"

text \<open>The data handed to \<^verbatim>\<open>destroy\<close>, in the order of the calls.\<close>

fun queue_destroy :: "'a queue_t \<Rightarrow> 'a list" where
  "queue_destroy [] = []"
| "queue_destroy (x # q) = x # queue_destroy q"

definition queue_empty :: "'a queue_t \<Rightarrow> bool" where
  "queue_empty q \<longleftrightarrow> q = []"

fun queue_add :: "'a queue_t \<Rightarrow> 'a \<Rightarrow> ('a \<Rightarrow> 'a) \<Rightarrow> 'a queue_t" where
  "queue_add [] d copy = [copy d]"
| "queue_add (x # q) d copy = x # queue_add q d copy"

definition queue_first :: "'a queue_t \<Rightarrow> ('a \<Rightarrow> 'a) \<Rightarrow> 'a option" where
  "queue_first q copy = (if queue_empty q then None else Some (copy (hd q)))"

fun queue_remove :: "'a queue_t \<Rightarrow> 'a queue_t" where
  "queue_remove [] = []"
| "queue_remove (x # q) = q"

text \<open>\<^verbatim>\<open>compare\<close> returns 0 on a match; the value searched for may have another type.\<close>

fun queue_delete :: "'a queue_t \<Rightarrow> 'b \<Rightarrow> ('a \<Rightarrow> 'b \<Rightarrow> int) \<Rightarrow> 'a queue_t" where
  "queue_delete [] d compare = []"
| "queue_delete (x # q) d compare =
     (if compare x d = 0 then queue_remove (x # q) else x # queue_delete q d compare)"

fun queue_update :: "'a queue_t \<Rightarrow> 'a \<Rightarrow> ('a \<Rightarrow> 'a \<Rightarrow> int) \<Rightarrow> ('a \<Rightarrow> 'a) \<Rightarrow> 'a queue_t" where
  "queue_update [] d compare copy = []"
| "queue_update (x # q) d compare copy =
     (if compare x d = 0 then copy d # q else x # queue_update q d compare copy)"

section \<open>What the operations do\<close>

lemma queue_destroy_eq [simp]: "queue_destroy q = q"
  by (induction q) simp_all

lemma queue_add_eq [simp]: "queue_add q d copy = q @ [copy d]"
  by (induction q) simp_all

lemma queue_delete_none: "(\<forall>x \<in> set q. compare x d \<noteq> 0) \<Longrightarrow> queue_delete q d compare = q"
  by (induction q) simp_all

lemma queue_delete_first:
  "(\<forall>x \<in> set p. compare x d \<noteq> 0) \<Longrightarrow> compare y d = 0 \<Longrightarrow>
     queue_delete (p @ y # s) d compare = p @ s"
  by (induction p) simp_all

lemma queue_delete_length:
  "length (queue_delete q d compare) =
     (if \<exists>x \<in> set q. compare x d = 0 then length q - 1 else length q)"
proof (induction q)
  case (Cons x q)
  then show ?case by (cases q) auto
qed simp

lemma set_queue_delete: "set (queue_delete q d compare) \<subseteq> set q"
  by (induction q) auto

lemma queue_delete_filter_out:
  "(\<And>x. P x \<Longrightarrow> compare x d \<noteq> 0) \<Longrightarrow> filter P (queue_delete q d compare) = filter P q"
  by (induction q) auto

lemma queue_delete_other:
  "x \<in> set q \<Longrightarrow> compare x d \<noteq> 0 \<Longrightarrow> x \<in> set (queue_delete q d compare)"
  by (induction q) auto

lemma queue_update_eq:
  "(\<forall>x \<in> set p. compare x d \<noteq> 0) \<Longrightarrow> compare y d = 0 \<Longrightarrow>
     queue_update (p @ y # s) d compare copy = p @ copy d # s"
  by (induction p) simp_all

lemma queue_delete_shrinks:
  "k < length q \<Longrightarrow> compare (q ! k) d = 0 \<Longrightarrow> length (queue_delete q d compare) < length q"
proof -
  assume "k < length q" "compare (q ! k) d = 0"
  then have "\<exists>x \<in> set q. compare x d = 0" using nth_mem by blast
  then show ?thesis using queue_delete_length [of q d compare] by (cases q) auto
qed

section \<open>First in, first out\<close>

text \<open>
  The interface of a buffer with one end for the producers and one for the consumers. \<open>push\<close> may
  drop an element when the buffer does not accept it; \<open>pop\<close> returns nothing on an empty buffer.
\<close>

datatype 'a fifo_op = Push 'a | Pop

text \<open>Runs operations and returns the buffer, what was accepted and what was delivered.\<close>

fun fifo_run :: "('q \<Rightarrow> bool) \<Rightarrow> ('q \<Rightarrow> 'a \<Rightarrow> 'q) \<Rightarrow> ('q \<Rightarrow> ('a \<times> 'q) option) \<Rightarrow> 'a fifo_op list \<Rightarrow> 'q \<Rightarrow>
    'q \<times> 'a list \<times> 'a list" where
  "fifo_run accepts push pop [] q = (q, [], [])"
| "fifo_run accepts push pop (Push x # ops) q =
     (let (q', ins, outs) = fifo_run accepts push pop ops (push q x)
      in (q', if accepts q then x # ins else ins, outs))"
| "fifo_run accepts push pop (Pop # ops) q =
     (case pop q of
        None \<Rightarrow> fifo_run accepts push pop ops q
      | Some (x, r) \<Rightarrow> (let (q', ins, outs) = fifo_run accepts push pop ops r in (q', ins, x # outs)))"

locale fifo =
  fixes invar :: "'q \<Rightarrow> bool"
    and items :: "'q \<Rightarrow> 'a list"
    and accepts :: "'q \<Rightarrow> bool"
    and push :: "'q \<Rightarrow> 'a \<Rightarrow> 'q"
    and pop :: "'q \<Rightarrow> ('a \<times> 'q) option"
  assumes push_spec: "invar q \<Longrightarrow>
      invar (push q x) \<and> items (push q x) = (if accepts q then items q @ [x] else items q)"
    and pop_empty: "invar q \<Longrightarrow> items q = [] \<Longrightarrow> pop q = None"
    and pop_spec: "invar q \<Longrightarrow> items q = x # xs \<Longrightarrow> \<exists>r. pop q = Some (x, r) \<and> invar r \<and> items r = xs"
begin

lemma pop_None: "invar q \<Longrightarrow> pop q = None \<longleftrightarrow> items q = []"
  using pop_empty [of q] pop_spec [of q] by (cases "items q") auto

lemma pop_Some: "invar q \<Longrightarrow> pop q = Some (x, r) \<Longrightarrow> invar r \<and> items q = x # items r"
  using pop_empty [of q] pop_spec [of q] by (cases "items q") auto

text \<open>What was delivered and what is still stored is what was there and what was accepted, in order.\<close>

lemma run_order:
  "invar q \<Longrightarrow> fifo_run accepts push pop ops q = (q', ins, outs) \<Longrightarrow>
     invar q' \<and> items q @ ins = outs @ items q'"
proof (induction ops arbitrary: q ins outs)
  case (Cons op ops)
  show ?case
  proof (cases op)
    case (Push x)
    with Cons push_spec [OF Cons.prems(1), of x] show ?thesis
      by (auto simp: Let_def split: prod.splits if_splits) fastforce+
  next
    case Pop
    show ?thesis
    proof (cases "pop q")
      case None
      with Pop Cons show ?thesis by simp
    next
      case (Some xr)
      then obtain x r where "pop q = Some (x, r)" by (cases xr) auto
      with Pop Cons pop_Some [OF Cons.prems(1), of x r] show ?thesis
        by (auto split: prod.splits)
    qed
  qed
qed simp

end

definition queue_pop :: "'a queue_t \<Rightarrow> ('a \<times> 'a queue_t) option" where
  "queue_pop q = map_option (\<lambda>x. (x, queue_remove q)) (queue_first q (\<lambda>x. x))"

interpretation lq: fifo "\<lambda>_. True" "\<lambda>q. q" "\<lambda>_. True" "\<lambda>q x. queue_add q x (\<lambda>x. x)" queue_pop
  by unfold_locales (auto simp: queue_pop_def queue_first_def queue_empty_def)

end
