(* ===== verification/Tablahash.thy ===== *)
theory Tablahash
  imports Queues
begin

text \<open>
  The open addressing hash table of \<^verbatim>\<open>c_agent/src/resources/tablahash.c\<close>: linear probing, deleted
  slots marked by \<^verbatim>\<open>fdelete\<close> (tombstones), doubling when the load passes 0.7.

  The record \<open>TablaHash\<close> has the struct's fields; the array is a list of slots. The probing loops
  are recursive functions on the number of probes left. \<open>None\<close> is an execution that is
  undefined: \<^verbatim>\<open>hash % cap\<close> with \<^verbatim>\<open>cap\<close> 0, a write at an index that does not fit an \<^verbatim>\<open>int\<close>, or a
  resize that resizes again more than \<open>TH_DEPTH\<close> deep. The laws below show that none of these
  happens in a table that satisfies the invariant \<open>th_inv\<close>. The field \<^verbatim>\<open>destr\<close> and the calls through it
  are left out: they only free memory, which the model does not have.

  The interface \<open>dictionary\<close> is what the resource manager, the job tracker and the node directory
  rely on; \<open>tablahash\<close> proves it for every comparison and hash function that are determined by a
  key, and the three clients interpret it on their own functions.
\<close>

section \<open>The table\<close>

record 'a CasillaHash =
  dato :: "'a option"
  fdelete :: nat

record 'a TablaHash =
  elems :: "'a CasillaHash list"
  numElems :: nat
  capacidad :: nat
  th_copia :: "'a \<Rightarrow> 'a"
  th_comp :: "'a \<Rightarrow> 'a \<Rightarrow> int"
  th_hash :: "'a \<Rightarrow> u32"

definition casilla_nula :: "'a CasillaHash" where
  "casilla_nula = \<lparr>dato = None, fdelete = 0\<rparr>"

definition tablahash_crear ::
  "nat \<Rightarrow> ('a \<Rightarrow> 'a) \<Rightarrow> ('a \<Rightarrow> 'a \<Rightarrow> int) \<Rightarrow> ('a \<Rightarrow> u32) \<Rightarrow> 'a TablaHash" where
  "tablahash_crear cap copia cmp hash =
     \<lparr>elems = replicate cap casilla_nula, numElems = 0, capacidad = cap,
      th_copia = copia, th_comp = cmp, th_hash = hash\<rparr>"

definition tablahash_nelems :: "'a TablaHash \<Rightarrow> int" where
  "tablahash_nelems t = int_of_u32 (of_nat (numElems t))"

definition tablahash_capacidad :: "'a TablaHash \<Rightarrow> int" where
  "tablahash_capacidad t = int_of_u32 (of_nat (capacidad t))"

text \<open>The data handed to the destructor, in the order of the calls.\<close>

definition tablahash_destruir :: "'a TablaHash \<Rightarrow> 'a list" where
  "tablahash_destruir t = List.map_filter dato (take (capacidad t) (elems t))"

definition noCopy :: "'a \<Rightarrow> 'a" where
  "noCopy d = d"

text \<open>
  The probing loop of \<^verbatim>\<open>th_insertar\<close>: the number of probes left, the slot \<^verbatim>\<open>idx\<close> and \<^verbatim>\<open>idxprev\<close> (where
  \<^verbatim>\<open>-1\<close> is \<open>None\<close>). It returns the array, changed when the element was found, and \<^verbatim>\<open>idxprev\<close>.
\<close>

fun th_sondeo_insertar :: "('a \<Rightarrow> 'a \<Rightarrow> int) \<Rightarrow> ('a \<Rightarrow> 'a) \<Rightarrow> 'a \<Rightarrow> nat \<Rightarrow> nat \<Rightarrow> nat \<Rightarrow> nat option
    \<Rightarrow> 'a CasillaHash list \<Rightarrow> 'a CasillaHash list \<times> nat option" where
  "th_sondeo_insertar cmp copy d cap 0 idx idxprev es = (es, idxprev)"
| "th_sondeo_insertar cmp copy d cap (Suc n) idx idxprev es =
     (let elem = es ! idx in
      if dato elem = None \<and> fdelete elem = 0 then
        (es, if idxprev = None then Some idx else idxprev)
      else if fdelete elem = 0 \<and> cmp (the (dato elem)) d = 0 then
        (es[idx := elem\<lparr>dato := Some (copy d)\<rparr>], None)
      else if fdelete elem = 1 \<and> idxprev = None then
        th_sondeo_insertar cmp copy d cap n ((idx + 1) mod cap) (Some idx) es
      else
        th_sondeo_insertar cmp copy d cap n ((idx + 1) mod cap) idxprev es)"

text \<open>
  \<^verbatim>\<open>numElems * 1.0 / capacidad > 0.7\<close>. Both operands are below \<open>2 ^ 32\<close>, so a quotient that is not
  exactly 0.7 differs from it by more than the rounding of the division, and 7/10 itself rounds to
  the constant: the comparison in \<^verbatim>\<open>double\<close> is the exact one.
\<close>

definition th_sobrecarga :: "'a TablaHash \<Rightarrow> bool" where
  "th_sobrecarga t \<longleftrightarrow> 7 * capacidad t < 10 * numElems t"

text \<open>\<^verbatim>\<open>th_redimensionar\<close> and \<^verbatim>\<open>th_insertar\<close> call each other; here the insertion is an argument.\<close>

fun th_reinsertar :: "('t \<Rightarrow> 'a \<Rightarrow> 't result) \<Rightarrow> 'a CasillaHash list \<Rightarrow> 't \<Rightarrow> 't result" where
  "th_reinsertar ins [] t = Some t"
| "th_reinsertar ins (c # arr) t =
     (case dato c of
        None \<Rightarrow> th_reinsertar ins arr t
      | Some d \<Rightarrow> (case ins t d of None \<Rightarrow> None | Some t' \<Rightarrow> th_reinsertar ins arr t'))"

definition th_redimensionar ::
  "('a TablaHash \<Rightarrow> 'a \<Rightarrow> 'a TablaHash result) \<Rightarrow> 'a TablaHash \<Rightarrow> 'a TablaHash result" where
  "th_redimensionar ins t =
     (let cap = capacidad t; arr = elems t; cap' = u_dbl cap
      in th_reinsertar ins (take cap arr)
           (t\<lparr>capacidad := cap', elems := replicate cap' casilla_nula, numElems := 0\<rparr>))"

text \<open>The first argument bounds the depth of nested resizes.\<close>

primrec th_insertar ::
  "nat \<Rightarrow> 'a TablaHash \<Rightarrow> 'a \<Rightarrow> ('a \<Rightarrow> 'a \<Rightarrow> int) \<Rightarrow> ('a \<Rightarrow> 'a) \<Rightarrow> 'a TablaHash result" where
  "th_insertar 0 t d cmp copy = None"
| "th_insertar (Suc depth) t d cmp copy =
     (let cap = capacidad t in
      if cap = 0 then None
      else
        let (es, idxprev) =
              th_sondeo_insertar cmp copy d cap cap (unat (th_hash t d) mod cap) None (elems t)
        in case idxprev of
             None \<Rightarrow> Some (t\<lparr>elems := es\<rparr>)
           | Some p \<Rightarrow>
               if 2 ^ 31 \<le> p then None
               else
                 let t' = t\<lparr>elems := es[p := \<lparr>dato = Some (copy d), fdelete = 0\<rparr>],
                            numElems := u_inc (numElems t)\<rparr>
                 in if th_sobrecarga t'
                    then th_redimensionar (\<lambda>u x. th_insertar depth u x (th_comp u) noCopy) t'
                    else Some t')"

definition TH_DEPTH :: nat where
  "TH_DEPTH = 2"

definition tablahash_insertar :: "'a TablaHash \<Rightarrow> 'a \<Rightarrow> 'a TablaHash result" where
  "tablahash_insertar t d = th_insertar TH_DEPTH t d (th_comp t) (th_copia t)"

text \<open>The probing loop of \<^verbatim>\<open>tablahash_buscar\<close> and \<^verbatim>\<open>th_eliminar\<close>: the matching slot, if any.\<close>

fun th_sondeo :: "('a \<Rightarrow> 'a \<Rightarrow> int) \<Rightarrow> 'a \<Rightarrow> nat \<Rightarrow> nat \<Rightarrow> nat \<Rightarrow> 'a CasillaHash list \<Rightarrow> nat option" where
  "th_sondeo cmp d cap 0 idx es = None"
| "th_sondeo cmp d cap (Suc n) idx es =
     (let elem = es ! idx in
      if dato elem = None \<and> fdelete elem = 0 then None
      else if fdelete elem = 0 \<and> cmp (the (dato elem)) d = 0 then Some idx
      else th_sondeo cmp d cap n ((idx + 1) mod cap) es)"

definition th_posicion :: "'a TablaHash \<Rightarrow> 'a \<Rightarrow> nat option result" where
  "th_posicion t d =
     (let cap = capacidad t in
      if cap = 0 then None
      else Some (th_sondeo (th_comp t) d cap cap (unat (th_hash t d) mod cap) (elems t)))"

definition tablahash_buscar :: "'a TablaHash \<Rightarrow> 'a \<Rightarrow> 'a option result" where
  "tablahash_buscar t d =
     (case th_posicion t d of
        None \<Rightarrow> None
      | Some None \<Rightarrow> Some None
      | Some (Some i) \<Rightarrow> Some (dato (elems t ! i)))"

text \<open>An assignment through the pointer that \<^verbatim>\<open>tablahash_buscar\<close> returned.\<close>

definition th_asignar :: "'a TablaHash \<Rightarrow> 'a \<Rightarrow> 'a \<Rightarrow> 'a TablaHash result" where
  "th_asignar t d x =
     (case th_posicion t d of
        None \<Rightarrow> None
      | Some None \<Rightarrow> None
      | Some (Some i) \<Rightarrow> Some (t\<lparr>elems := (elems t)[i := (elems t ! i)\<lparr>dato := Some x\<rparr>]\<rparr>))"

definition th_eliminar :: "'a TablaHash \<Rightarrow> 'a \<Rightarrow> 'a TablaHash result" where
  "th_eliminar t d =
     (case th_posicion t d of
        None \<Rightarrow> None
      | Some None \<Rightarrow> Some t
      | Some (Some i) \<Rightarrow>
          Some (t\<lparr>elems := (elems t)[i := \<lparr>dato = None, fdelete = 1\<rparr>],
                  numElems := u_dec (numElems t)\<rparr>))"

definition tablahash_eliminar :: "'a TablaHash \<Rightarrow> 'a \<Rightarrow> 'a TablaHash result" where
  "tablahash_eliminar t d = th_eliminar t d"

text \<open>The visitor changes a state of its own (for \<^verbatim>\<open>tablahash_visitar\<close>, the program's).\<close>

definition tablahash_visitar_extra ::
  "'a TablaHash \<Rightarrow> ('a \<Rightarrow> 'x \<Rightarrow> 'x) \<Rightarrow> 'x \<Rightarrow> 'x" where
  "tablahash_visitar_extra t show extra =
     fold (\<lambda>c x. case dato c of None \<Rightarrow> x | Some d \<Rightarrow> show d x) (take (capacidad t) (elems t)) extra"

definition tablahash_visitar :: "'a TablaHash \<Rightarrow> ('a \<Rightarrow> 'x \<Rightarrow> 'x) \<Rightarrow> 'x \<Rightarrow> 'x" where
  "tablahash_visitar t show world =
     fold (\<lambda>c x. case dato c of None \<Rightarrow> x | Some d \<Rightarrow> show d x) (take (capacidad t) (elems t)) world"

section \<open>The probing loops\<close>

definition libre :: "'a CasillaHash \<Rightarrow> bool" where
  "libre c \<longleftrightarrow> dato c = None \<and> fdelete c = 0"

definition coincide :: "('a \<Rightarrow> 'a \<Rightarrow> int) \<Rightarrow> 'a \<Rightarrow> 'a CasillaHash \<Rightarrow> bool" where
  "coincide cmp d c \<longleftrightarrow> fdelete c = 0 \<and> (\<exists>x. dato c = Some x \<and> cmp x d = 0)"

definition casilla_ok :: "'a CasillaHash \<Rightarrow> bool" where
  "casilla_ok c \<longleftrightarrow> fdelete c \<le> 1 \<and> (dato c \<noteq> None \<longrightarrow> fdelete c = 0)"

text \<open>The first slot without an element on the probe path.\<close>

fun th_hueco :: "nat \<Rightarrow> nat \<Rightarrow> nat \<Rightarrow> 'a CasillaHash list \<Rightarrow> nat option" where
  "th_hueco cap 0 idx es = None"
| "th_hueco cap (Suc n) idx es =
     (if dato (es ! idx) = None then Some idx else th_hueco cap n ((idx + 1) mod cap) es)"

lemma sondeo_idx: "(Suc idx mod cap + m) mod cap = (idx + Suc m) mod cap"
  by (simp add: mod_add_left_eq)

lemma th_sondeo_Some:
  assumes "th_sondeo cmp d cap n idx es = Some j" "idx < cap"
  shows "j < cap \<and> coincide cmp d (es ! j)"
  using assms
proof (induction n arbitrary: idx)
  case (Suc n)
  then show ?case
    by (auto simp: Let_def coincide_def split: if_splits)
qed simp

lemma th_sondeo_found:
  assumes "m < n" "idx < cap" "coincide cmp d (es ! ((idx + m) mod cap))"
    and "\<And>m'. m' < m \<Longrightarrow> \<not> libre (es ! ((idx + m') mod cap))"
  shows "\<exists>j. th_sondeo cmp d cap n idx es = Some j"
  using assms
proof (induction n arbitrary: idx m)
  case (Suc n)
  show ?case
  proof (cases m)
    case 0
    with Suc.prems show ?thesis by (auto simp: Let_def coincide_def)
  next
    case (Suc k)
    have "\<not> libre (es ! idx)"
      using Suc.prems(2) Suc.prems(4) [of 0] Suc by simp
    moreover have "\<exists>j. th_sondeo cmp d cap n (Suc idx mod cap) es = Some j"
    proof (rule Suc.IH)
      show "\<not> libre (es ! ((Suc idx mod cap + m') mod cap))" if "m' < k" for m'
        using Suc.prems(4) [of "Suc m'"] that Suc by (simp add: sondeo_idx)
    qed (use Suc.prems Suc in \<open>simp_all add: sondeo_idx\<close>)
    ultimately show ?thesis by (simp add: Let_def libre_def)
  qed
qed simp

lemma th_sondeo_insertar_found:
  assumes "th_sondeo cmp d cap n idx es = Some j"
  shows "th_sondeo_insertar cmp copy d cap n idx prev es =
    (es[j := (es ! j)\<lparr>dato := Some (copy d)\<rparr>], None)"
  using assms
  by (induction n arbitrary: idx prev) (auto simp: Let_def split: if_splits)

lemma th_sondeo_insertar_absent:
  assumes "th_sondeo cmp d cap n idx es = None" "idx < cap"
    and "\<And>i. i < cap \<Longrightarrow> casilla_ok (es ! i)"
  shows "th_sondeo_insertar cmp copy d cap n idx prev es =
    (es, if prev = None then th_hueco cap n idx es else prev)"
  using assms(1,2)
proof (induction n arbitrary: idx prev)
  case (Suc n)
  have ok: "casilla_ok (es ! idx)" using Suc.prems(2) by (rule assms(3))
  have "Suc idx mod cap < cap" using Suc.prems(2) by simp
  with Suc.prems(1) ok show ?case
    by (auto simp: Let_def casilla_ok_def Suc.IH split: if_splits)
qed simp

lemma th_hueco_Some:
  assumes "th_hueco cap n idx es = Some p" "idx < cap"
  shows "\<exists>m < n. p = (idx + m) mod cap \<and> dato (es ! p) = None \<and>
    (\<forall>m' < m. dato (es ! ((idx + m') mod cap)) \<noteq> None)"
  using assms
proof (induction n arbitrary: idx)
  case (Suc n)
  show ?case
  proof (cases "dato (es ! idx) = None")
    case True
    with Suc.prems show ?thesis by auto
  next
    case False
    with Suc.prems have "th_hueco cap n (Suc idx mod cap) es = Some p" and "Suc idx mod cap < cap"
      by simp_all
    from Suc.IH [OF this] obtain m where m: "m < n" "p = (Suc idx mod cap + m) mod cap"
      "dato (es ! p) = None" "\<forall>m' < m. dato (es ! ((Suc idx mod cap + m') mod cap)) \<noteq> None"
      by blast
    have "dato (es ! ((idx + m') mod cap)) \<noteq> None" if "m' < Suc m" for m'
      using that m(4) False Suc.prems(2) by (cases m') (auto simp: sondeo_idx)
    with m show ?thesis by (intro exI [of _ "Suc m"]) (auto simp: sondeo_idx)
  qed
qed simp

lemma th_hueco_exists:
  assumes "m < n" "idx < cap" "dato (es ! ((idx + m) mod cap)) = None"
  shows "th_hueco cap n idx es \<noteq> None"
  using assms
proof (induction n arbitrary: idx m)
  case (Suc n)
  then show ?case
    by (cases m) (auto simp: sondeo_idx)
qed simp

text \<open>Every slot is on the path that starts anywhere.\<close>

lemma sondeo_covers:
  assumes "idx < cap" "j < (cap :: nat)"
  shows "\<exists>m < cap. (idx + m) mod cap = j"
proof (cases "idx \<le> j")
  case True
  with assms show ?thesis by (intro exI [of _ "j - idx"]) auto
next
  case False
  with assms have "(idx + (cap - idx + j)) mod cap = j" by simp
  with False assms show ?thesis by (intro exI [of _ "cap - idx + j"]) auto
qed

section \<open>Contents and invariant\<close>

text \<open>The elements in the order of their slots, and as a set.\<close>

definition th_list :: "'a TablaHash \<Rightarrow> 'a list" where
  "th_list t = List.map_filter dato (elems t)"

definition th_set :: "'a TablaHash \<Rightarrow> 'a set" where
  "th_set t = set (th_list t)"

text \<open>The contents as a map, for elements identified by \<open>key\<close>.\<close>

definition th_map :: "('a \<Rightarrow> 'k) \<Rightarrow> 'a TablaHash \<Rightarrow> 'k \<rightharpoonup> 'a" where
  "th_map key t = map_of (map (\<lambda>x. (key x, x)) (th_list t))"

text \<open>Sequences of operations, on the table and on a map.\<close>

datatype 'a th_op = Insertar 'a | Eliminar 'a

fun th_run :: "'a th_op list \<Rightarrow> 'a TablaHash \<Rightarrow> 'a TablaHash result" where
  "th_run [] t = Some t"
| "th_run (Insertar d # ops) t = (case tablahash_insertar t d of None \<Rightarrow> None | Some u \<Rightarrow> th_run ops u)"
| "th_run (Eliminar d # ops) t = (case tablahash_eliminar t d of None \<Rightarrow> None | Some u \<Rightarrow> th_run ops u)"

fun dict_run :: "('a \<Rightarrow> 'k) \<Rightarrow> 'a th_op list \<Rightarrow> ('k \<rightharpoonup> 'a) \<Rightarrow> ('k \<rightharpoonup> 'a)" where
  "dict_run key [] m = m"
| "dict_run key (Insertar d # ops) m = dict_run key ops (m(key d \<mapsto> d))"
| "dict_run key (Eliminar d # ops) m = dict_run key ops (m(key d := None))"

text \<open>
  The structural invariant, for a comparison and a hash function determined by \<open>key\<close>: the array
  has the recorded length, an occupied slot is not marked deleted, keys are unique, the counter is
  the number of elements, and no slot on the probe path of an element before its slot is free.
\<close>

definition th_wf ::
  "('a \<Rightarrow> 'k) \<Rightarrow> ('a \<Rightarrow> u32) \<Rightarrow> ('a \<Rightarrow> 'a \<Rightarrow> int) \<Rightarrow> 'a TablaHash \<Rightarrow> bool" where
  "th_wf key hs cmp t \<longleftrightarrow>
     th_hash t = hs \<and> th_comp t = cmp \<and> th_copia t = (\<lambda>x. x) \<and>
     length (elems t) = capacidad t \<and> 0 < capacidad t \<and> capacidad t < UINT_MOD \<and>
     (\<forall>c \<in> set (elems t). casilla_ok c) \<and>
     numElems t = length (th_list t) \<and>
     (\<forall>i < capacidad t. \<forall>j < capacidad t. \<forall>x y.
        dato (elems t ! i) = Some x \<longrightarrow> dato (elems t ! j) = Some y \<longrightarrow> key x = key y \<longrightarrow> i = j) \<and>
     (\<forall>j < capacidad t. \<forall>x. dato (elems t ! j) = Some x \<longrightarrow>
        (\<exists>m < capacidad t. j = (unat (hs x) mod capacidad t + m) mod capacidad t \<and>
           (\<forall>m' < m. \<not> libre (elems t ! ((unat (hs x) mod capacidad t + m') mod capacidad t)))))"

text \<open>Between calls the load is at most 0.7 as well.\<close>

definition th_inv ::
  "('a \<Rightarrow> 'k) \<Rightarrow> ('a \<Rightarrow> u32) \<Rightarrow> ('a \<Rightarrow> 'a \<Rightarrow> int) \<Rightarrow> 'a TablaHash \<Rightarrow> bool" where
  "th_inv key hs cmp t \<longleftrightarrow> th_wf key hs cmp t \<and> \<not> th_sobrecarga t"

text \<open>
  Room for \<open>k\<close> more elements: every index fits an \<^verbatim>\<open>int\<close>, and so it does after the doubling that
  \<open>k\<close> insertions can cause.
\<close>

definition th_room :: "nat \<Rightarrow> 'a TablaHash \<Rightarrow> bool" where
  "th_room k t \<longleftrightarrow> capacidad t \<le> 2 ^ 31 \<and> 10 * (numElems t + k) \<le> 7 * 2 ^ 30"

lemma map_filter_append [simp]:
  "List.map_filter f (xs @ ys) = List.map_filter f xs @ List.map_filter f ys"
  by (induction xs) (auto simp: List.map_filter_simps split: option.splits)

lemma set_map_filter: "set (List.map_filter f xs) = {y. \<exists>x \<in> set xs. f x = Some y}"
  by (induction xs) (auto simp: List.map_filter_simps split: option.splits)

lemma map_filter_upd:
  assumes "p < length es"
  shows "List.map_filter f (es[p := c]) = List.map_filter f (take p es) @
    (case f c of None \<Rightarrow> [] | Some x \<Rightarrow> [x]) @ List.map_filter f (drop (Suc p) es)"
  using assms
  by (simp add: upd_conv_take_nth_drop List.map_filter_simps split: option.splits)

lemma map_filter_nth:
  assumes "p < length es"
  shows "List.map_filter f es = List.map_filter f (take p es) @
    (case f (es ! p) of None \<Rightarrow> [] | Some x \<Rightarrow> [x]) @ List.map_filter f (drop (Suc p) es)"
  using map_filter_upd [OF assms, of f "es ! p"] by simp

lemma length_th_list_upd:
  assumes "p < length (elems t)"
  shows "length (th_list (t\<lparr>elems := (elems t)[p := c]\<rparr>)) + (if dato (elems t ! p) = None then 0 else 1)
     = length (th_list t) + (if dato c = None then 0 else 1)"
  using map_filter_upd [OF assms, of dato c] map_filter_nth [OF assms, of dato]
  by (simp add: th_list_def split: option.splits)

lemma th_list_numElems [simp]: "th_list (t\<lparr>numElems := n\<rparr>) = th_list t"
  by (simp add: th_list_def)

lemma th_set_nth: "x \<in> th_set t \<longleftrightarrow> (\<exists>i < length (elems t). dato (elems t ! i) = Some x)"
  by (simp add: th_set_def th_list_def set_map_filter) (metis in_set_conv_nth)

lemma finite_th_set [simp]: "finite (th_set t)"
  by (simp add: th_set_def)

lemma length_map_filter_full:
  "\<forall>c \<in> set es. dato c \<noteq> None \<Longrightarrow> length (List.map_filter dato es) = length es"
  by (induction es) (auto simp: List.map_filter_simps)

lemma length_map_filter_le: "length (List.map_filter f xs) \<le> length xs"
  by (induction xs) (auto simp: List.map_filter_simps split: option.splits)

lemma noCopy_id: "noCopy = (\<lambda>x. x)"
  by (rule ext) (simp add: noCopy_def)

lemma distinct_keys_map_filter:
  assumes "\<And>i j x y. i < length es \<Longrightarrow> j < length es \<Longrightarrow> f (es ! i) = Some x \<Longrightarrow> f (es ! j) = Some y \<Longrightarrow>
    key x = key y \<Longrightarrow> i = j"
  shows "distinct (map key (List.map_filter f es))"
  using assms
proof (induction es)
  case (Cons c es)
  have "distinct (map key (List.map_filter f es))"
    using Cons.prems [of "Suc _" "Suc _"] by (intro Cons.IH) auto
  moreover have "key x \<noteq> key y" if c: "f c = Some x" and y: "y \<in> set (List.map_filter f es)" for x y
  proof -
    obtain j where "j < length es" "f (es ! j) = Some y"
      using y by (auto simp: set_map_filter in_set_conv_nth)
    then show ?thesis using Cons.prems [of 0 "Suc j" x y] c by auto
  qed
  ultimately show ?case by (auto simp: List.map_filter_simps split: option.splits)
qed (simp add: List.map_filter_simps)

lemma th_reinsertar_stuck:
  "th_reinsertar (\<lambda>_ _. None) cs t = (if List.map_filter dato cs = [] then Some t else None)"
  by (induction cs) (auto simp: List.map_filter_simps split: option.splits)

lemma th_visitar_fold:
  "length (elems t) = capacidad t \<Longrightarrow> tablahash_visitar_extra t show x = fold show (th_list t) x"
proof -
  have "fold (\<lambda>c x. case dato c of None \<Rightarrow> x | Some d \<Rightarrow> show d x) cs x =
      fold show (List.map_filter dato cs) x" for cs
    by (induction cs arbitrary: x) (auto simp: List.map_filter_simps split: option.splits)
  then show "length (elems t) = capacidad t \<Longrightarrow> ?thesis"
    by (simp add: tablahash_visitar_extra_def th_list_def)
qed

section \<open>The dictionary interface\<close>

text \<open>
  What the clients rely on. \<open>room k\<close> says that \<open>k\<close> more elements can be stored. A stored element is
  replaced by one with the same key; \<open>asg d x\<close> overwrites the element that \<open>find d\<close> returned.
\<close>

locale dictionary =
  fixes key :: "'a \<Rightarrow> 'k"
    and invar :: "'t \<Rightarrow> bool"
    and contents :: "'t \<Rightarrow> 'a set"
    and room :: "nat \<Rightarrow> 't \<Rightarrow> bool"
    and find :: "'t \<Rightarrow> 'a \<Rightarrow> 'a option result"
    and ins :: "'t \<Rightarrow> 'a \<Rightarrow> 't result"
    and del :: "'t \<Rightarrow> 'a \<Rightarrow> 't result"
    and asg :: "'t \<Rightarrow> 'a \<Rightarrow> 'a \<Rightarrow> 't result"
  assumes finite_contents: "finite (contents t)"
    and inj_key: "invar t \<Longrightarrow> inj_on key (contents t)"
    and find_total: "invar t \<Longrightarrow> \<exists>r. find t d = Some r"
    and find_Some: "invar t \<Longrightarrow> find t d = Some (Some x) \<longleftrightarrow> x \<in> contents t \<and> key x = key d"
    and ins_total: "invar t \<Longrightarrow> room (Suc k) t \<Longrightarrow> \<exists>t'. ins t d = Some t' \<and> room k t'"
    and ins_spec: "invar t \<Longrightarrow> ins t d = Some t' \<Longrightarrow>
      invar t' \<and> contents t' = insert d {x \<in> contents t. key x \<noteq> key d}"
    and del_total: "invar t \<Longrightarrow> \<exists>t'. del t d = Some t' \<and> (room k t \<longrightarrow> room k t')"
    and del_spec: "invar t \<Longrightarrow> del t d = Some t' \<Longrightarrow>
      invar t' \<and> contents t' = {x \<in> contents t. key x \<noteq> key d}"
    and asg_total: "invar t \<Longrightarrow> find t d = Some (Some y) \<Longrightarrow> \<exists>t'. asg t d x = Some t'"
    and asg_spec: "invar t \<Longrightarrow> asg t d x = Some t' \<Longrightarrow> key x = key d \<Longrightarrow>
      invar t' \<and> contents t' = insert x {y \<in> contents t. key y \<noteq> key d}"
begin

lemma find_None: "invar t \<Longrightarrow> find t d = Some None \<longleftrightarrow> (\<forall>x \<in> contents t. key x \<noteq> key d)"
  using find_total [of t d] find_Some [of t d] by (metis option.exhaust option.inject option.distinct(1))

lemma find_ins: "invar t \<Longrightarrow> ins t d = Some t' \<Longrightarrow> key e = key d \<Longrightarrow> find t' e = Some (Some d)"
  using ins_spec [of t d t'] by (simp add: find_Some)

lemma find_ins_other:
  assumes "invar t" "ins t d = Some t'" "key e \<noteq> key d"
  shows "find t' e = find t e"
proof -
  have I: "invar t'" and C: "contents t' = insert d {x \<in> contents t. key x \<noteq> key d}"
    using ins_spec assms by blast+
  obtain r r' where r: "find t e = Some r" "find t' e = Some r'"
    using find_total I assms(1) by blast
  have "x \<in> contents t' \<and> key x = key e \<longleftrightarrow> x \<in> contents t \<and> key x = key e" for x
    unfolding C insert_iff mem_Collect_eq using assms(3) by metis
  then have "r = Some x \<longleftrightarrow> r' = Some x" for x
    using find_Some [OF I, of e x] find_Some [OF assms(1), of e x] r by simp
  then have "r = r'" by (metis not_Some_eq)
  then show ?thesis using r by simp
qed

lemma find_del: "invar t \<Longrightarrow> del t d = Some t' \<Longrightarrow> key e = key d \<Longrightarrow> find t' e = Some None"
  using del_spec [of t d t'] by (simp add: find_None)

text \<open>The element of a key is what an insertion or a deletion takes out of the contents.\<close>

lemma contents_without:
  assumes "invar t" "find t d = Some (Some y)"
  shows "{x \<in> contents t. key x \<noteq> key d} = contents t - {y}"
  using assms inj_key [of t] by (auto simp: find_Some) (metis inj_onD)

lemma contents_without_absent:
  assumes "invar t" "find t d = Some None"
  shows "{x \<in> contents t. key x \<noteq> key d} = contents t"
  using assms by (auto simp: find_None)

lemma sum_del:
  assumes "invar t" "find t d = Some (Some y)" "del t d = Some t'"
  shows "sum f (contents t) = f y + sum f (contents t' :: 'a set)"
proof -
  have "y \<in> contents t" using assms(1,2) by (simp add: find_Some)
  moreover have "contents t' = contents t - {y}"
    using del_spec assms(1,3) contents_without [OF assms(1,2)] by simp
  ultimately show ?thesis by (simp add: sum.remove finite_contents)
qed

lemma sum_ins:
  assumes "invar t" "ins t d = Some t'"
  shows "sum f (contents t' :: 'a set) = f d + sum f {x \<in> contents t. key x \<noteq> key d}"
  using assms ins_spec by (auto simp: finite_contents)

lemma sum_ins_fresh:
  assumes "invar t" "ins t d = Some t'" "find t d = Some None"
  shows "sum f (contents t' :: 'a set) = f d + sum f (contents t)"
  using sum_ins [OF assms(1,2)] contents_without_absent [OF assms(1,3)] by simp

lemma sum_without_le:
  fixes f :: "'a \<Rightarrow> nat"
  shows "sum f {x \<in> contents t. key x \<noteq> key d} \<le> sum f (contents t)"
  by (rule sum_mono2) (auto simp: finite_contents)

end

section \<open>The hash table is a dictionary\<close>

text \<open>\<open>th_wf\<close> without its unfolding, for the proofs below.\<close>

lemma th_wfD:
  assumes "th_wf key hs cmp t"
  shows "th_hash t = hs" "th_comp t = cmp" "th_copia t = (\<lambda>x. x)"
    "length (elems t) = capacidad t" "0 < capacidad t" "capacidad t < UINT_MOD"
    "numElems t = length (th_list t)"
    "\<And>i. i < capacidad t \<Longrightarrow> casilla_ok (elems t ! i)"
    "\<And>i j x y. i < capacidad t \<Longrightarrow> j < capacidad t \<Longrightarrow> dato (elems t ! i) = Some x \<Longrightarrow>
       dato (elems t ! j) = Some y \<Longrightarrow> key x = key y \<Longrightarrow> i = j"
    "\<And>j x. j < capacidad t \<Longrightarrow> dato (elems t ! j) = Some x \<Longrightarrow>
       \<exists>m < capacidad t. j = (unat (hs x) mod capacidad t + m) mod capacidad t \<and>
         (\<forall>m' < m. \<not> libre (elems t ! ((unat (hs x) mod capacidad t + m') mod capacidad t)))"
  using assms by (simp_all add: th_wf_def)

locale tablahash =
  fixes key :: "'a \<Rightarrow> 'k" and hs :: "'a \<Rightarrow> u32" and cmp :: "'a \<Rightarrow> 'a \<Rightarrow> int"
  assumes cmp_key: "cmp a b = 0 \<longleftrightarrow> key a = key b"
    and hs_key: "key a = key b \<Longrightarrow> hs a = hs b"
begin

lemma coincide_iff:
  assumes "th_wf key hs cmp t" "i < capacidad t"
  shows "coincide cmp d (elems t ! i) \<longleftrightarrow> (\<exists>x. dato (elems t ! i) = Some x \<and> key x = key d)"
  using th_wfD(8) [OF assms] by (auto simp: coincide_def cmp_key casilla_ok_def)

lemma posicion_Some:
  assumes wf: "th_wf key hs cmp t"
  shows "th_posicion t d = Some (Some i) \<longleftrightarrow>
    i < capacidad t \<and> (\<exists>x. dato (elems t ! i) = Some x \<and> key x = key d)"
proof -
  let ?cap = "capacidad t" and ?h = "unat (hs d) mod capacidad t"
  note D = th_wfD [OF wf]
  have h: "?h < ?cap" using D(5) by simp
  have eq: "th_posicion t d = Some (th_sondeo cmp d ?cap ?cap ?h (elems t))"
    using D by (simp add: th_posicion_def Let_def)
  show ?thesis
  proof
    assume "th_posicion t d = Some (Some i)"
    then have "th_sondeo cmp d ?cap ?cap ?h (elems t) = Some i" using eq by simp
    from th_sondeo_Some [OF this h]
    show "i < ?cap \<and> (\<exists>x. dato (elems t ! i) = Some x \<and> key x = key d)"
      using coincide_iff [OF wf] by blast
  next
    assume "i < ?cap \<and> (\<exists>x. dato (elems t ! i) = Some x \<and> key x = key d)"
    then obtain x where i: "i < ?cap" and x: "dato (elems t ! i) = Some x" "key x = key d"
      by blast
    from D(10) [OF i x(1)] obtain m where m: "m < ?cap" "i = (?h + m) mod ?cap"
      "\<And>m'. m' < m \<Longrightarrow> \<not> libre (elems t ! ((?h + m') mod ?cap))"
      using hs_key [OF x(2)] by auto
    have "coincide cmp d (elems t ! ((?h + m) mod ?cap))"
      using coincide_iff [OF wf i] x m(2) by simp
    from th_sondeo_found [OF m(1) h this m(3)] obtain j
      where j: "th_sondeo cmp d ?cap ?cap ?h (elems t) = Some j" by blast
    from th_sondeo_Some [OF j h] obtain y
      where "j < ?cap" "dato (elems t ! j) = Some y" "key y = key d"
      using coincide_iff [OF wf] by blast
    with D(9) [OF i _ x(1)] x(2) have "i = j" by simp
    with j eq show "th_posicion t d = Some (Some i)" by simp
  qed
qed

lemma posicion_total:
  assumes "th_wf key hs cmp t"
  shows "\<exists>r. th_posicion t d = Some r"
  using th_wfD(5) [OF assms] by (simp add: th_posicion_def Let_def)

lemma posicion_None:
  assumes wf: "th_wf key hs cmp t"
  shows "th_posicion t d = Some None \<longleftrightarrow> (\<forall>x \<in> th_set t. key x \<noteq> key d)"
proof -
  obtain r where r: "th_posicion t d = Some r" using posicion_total [OF wf] by blast
  have "r = Some i \<longleftrightarrow> i < capacidad t \<and> (\<exists>x. dato (elems t ! i) = Some x \<and> key x = key d)" for i
    using posicion_Some [OF wf, of d i] r by simp
  then have "r = None \<longleftrightarrow> (\<forall>x \<in> th_set t. key x \<noteq> key d)"
    unfolding Ball_def th_set_nth th_wfD(4) [OF wf] by (metis not_Some_eq)
  with r show ?thesis by simp
qed

lemma buscar_Some:
  assumes wf: "th_wf key hs cmp t"
  shows "tablahash_buscar t d = Some (Some x) \<longleftrightarrow> x \<in> th_set t \<and> key x = key d"
proof
  assume "tablahash_buscar t d = Some (Some x)"
  then obtain i where "th_posicion t d = Some (Some i)" "dato (elems t ! i) = Some x"
    by (auto simp: tablahash_buscar_def split: option.splits)
  with posicion_Some [OF wf, of d i] th_wfD(4) [OF wf] show "x \<in> th_set t \<and> key x = key d"
    unfolding th_set_nth by auto
next
  assume "x \<in> th_set t \<and> key x = key d"
  then obtain i where "i < capacidad t" "dato (elems t ! i) = Some x" "key x = key d"
    using th_wfD(4) [OF wf] unfolding th_set_nth by auto
  then show "tablahash_buscar t d = Some (Some x)"
    using posicion_Some [OF wf, of d i] by (simp add: tablahash_buscar_def)
qed

lemma buscar_total: "th_wf key hs cmp t \<Longrightarrow> \<exists>r. tablahash_buscar t d = Some r"
  using posicion_total [of t d] by (auto simp: tablahash_buscar_def split: option.splits)

lemma inj_key_wf: "th_wf key hs cmp t \<Longrightarrow> inj_on key (th_set t)"
  by (rule inj_onI) (metis buscar_Some option.inject)

text \<open>Overwriting one slot: the three operations that change the array do nothing else.\<close>

lemma wf_upd:
  assumes wf: "th_wf key hs cmp t" and j: "j < capacidad t" and ok: "casilla_ok c"
    and free: "libre c \<Longrightarrow> libre (elems t ! j)"
    and uniq: "\<And>x i y. dato c = Some x \<Longrightarrow> i < capacidad t \<Longrightarrow> i \<noteq> j \<Longrightarrow>
      dato (elems t ! i) = Some y \<Longrightarrow> key x \<noteq> key y"
    and path: "\<And>x. dato c = Some x \<Longrightarrow>
      \<exists>m < capacidad t. j = (unat (hs x) mod capacidad t + m) mod capacidad t \<and>
        (\<forall>m' < m. \<not> libre (elems t ! ((unat (hs x) mod capacidad t + m') mod capacidad t)))"
    and cnt: "n + (if dato (elems t ! j) = None then 0 else 1) =
      numElems t + (if dato c = None then 0 else 1)"
  shows "th_wf key hs cmp (t\<lparr>elems := (elems t)[j := c], numElems := n\<rparr>)"
proof -
  note D = th_wfD [OF wf]
  let ?es = "(elems t)[j := c]" and ?cap = "capacidad t"
  have len: "j < length (elems t)" using D(4) j by simp
  have es: "?es ! i = (if i = j then c else elems t ! i)" if "i < ?cap" for i
    using that D(4) by (simp add: nth_list_update)
  have keep: "\<not> libre (?es ! i)" if "\<not> libre (elems t ! i)" "i < ?cap" for i
    using that free es by auto
  have "n = length (th_list (t\<lparr>elems := ?es\<rparr>))"
    using length_th_list_upd [OF len, of c] cnt D(7) by simp
  moreover have "casilla_ok x" if "x \<in> set ?es" for x
    using that D(8) ok D(4) set_update_subset_insert [of "elems t" j c]
    by (metis in_set_conv_nth insert_iff subsetD)
  moreover have "i = k" if "i < ?cap" "k < ?cap" "dato (?es ! i) = Some x" "dato (?es ! k) = Some y"
    "key x = key y" for i k x y
    using that D(9) [of i k x y] uniq [of x k y] uniq [of y i x] es by (auto split: if_splits)
  moreover have "\<exists>m < ?cap. i = (unat (hs x) mod ?cap + m) mod ?cap \<and>
      (\<forall>m' < m. \<not> libre (?es ! ((unat (hs x) mod ?cap + m') mod ?cap)))"
    if i: "i < ?cap" and x: "dato (?es ! i) = Some x" for i x
  proof -
    obtain m where "m < ?cap" "i = (unat (hs x) mod ?cap + m) mod ?cap"
      "\<forall>m' < m. \<not> libre (elems t ! ((unat (hs x) mod ?cap + m') mod ?cap))"
      using path [of x] D(10) [OF i, of x] x es [OF i] by (auto split: if_splits)
    with keep D(5) show ?thesis by (intro exI [of _ m]) simp
  qed
  ultimately show ?thesis
    using D(1-6) by (simp add: th_wf_def)
qed

lemma th_set_upd:
  assumes wf: "th_wf key hs cmp t" and j: "j < capacidad t"
  shows "th_set (t\<lparr>elems := (elems t)[j := c], numElems := n\<rparr>) =
    set_option (dato c) \<union> {x \<in> th_set t. dato (elems t ! j) \<noteq> Some x}"
proof -
  have other: "i = j" if "i < capacidad t" "dato (elems t ! i) = Some x" "dato (elems t ! j) = Some x"
    for i x
    using th_wfD(9) [OF wf that(1) j that(2,3)] by simp
  show ?thesis
  proof (rule set_eqI)
    fix x
    show "x \<in> th_set (t\<lparr>elems := (elems t)[j := c], numElems := n\<rparr>) \<longleftrightarrow>
        x \<in> set_option (dato c) \<union> {x \<in> th_set t. dato (elems t ! j) \<noteq> Some x}"
      using j th_wfD(4) [OF wf] other
      by (auto simp: th_set_nth nth_list_update split: if_splits) metis+
  qed
qed

lemma th_set_without:
  assumes wf: "th_wf key hs cmp t" and i: "i < capacidad t"
    and y: "dato (elems t ! i) = Some y" "key y = key d"
  shows "{x \<in> th_set t. dato (elems t ! i) \<noteq> Some x} = {x \<in> th_set t. key x \<noteq> key d}"
proof -
  have "y \<in> th_set t" using i y th_wfD(4) [OF wf] by (auto simp: th_set_nth)
  then show ?thesis
    using y inj_onD [OF inj_key_wf [OF wf]] by auto
qed

lemma replace_wf:
  assumes wf: "th_wf key hs cmp t" and pos: "th_posicion t d = Some (Some i)" and x: "key x = key d"
    and t': "t' = t\<lparr>elems := (elems t)[i := (elems t ! i)\<lparr>dato := Some x\<rparr>]\<rparr>"
  shows "th_wf key hs cmp t' \<and> th_set t' = insert x {y \<in> th_set t. key y \<noteq> key d} \<and>
    numElems t' = numElems t \<and> capacidad t' = capacidad t"
proof -
  from posicion_Some [OF wf] pos obtain y where i: "i < capacidad t"
    and y: "dato (elems t ! i) = Some y" "key y = key d" by auto
  let ?c = "(elems t ! i)\<lparr>dato := Some x\<rparr>"
  have eq: "t' = t\<lparr>elems := (elems t)[i := ?c], numElems := numElems t\<rparr>" using t' by simp
  have "th_wf key hs cmp t'"
    unfolding eq
  proof (rule wf_upd [OF wf i])
    show "casilla_ok ?c" using th_wfD(8) [OF wf i] y by (simp add: casilla_ok_def)
    show "key z \<noteq> key w" if "dato ?c = Some z" "k < capacidad t" "k \<noteq> i"
      "dato (elems t ! k) = Some w" for z k w
      using that th_wfD(9) [OF wf i that(2) y(1) that(4)] x y by auto
    show "\<exists>m < capacidad t. i = (unat (hs z) mod capacidad t + m) mod capacidad t \<and>
        (\<forall>m' < m. \<not> libre (elems t ! ((unat (hs z) mod capacidad t + m') mod capacidad t)))"
      if "dato ?c = Some z" for z
      using th_wfD(10) [OF wf i y(1)] hs_key [of z y] that x y by simp
  qed (use y in \<open>auto simp: libre_def\<close>)
  moreover have "th_set t' = insert x {y \<in> th_set t. key y \<noteq> key d}"
    unfolding eq th_set_upd [OF wf i] th_set_without [OF wf i y] by simp
  ultimately show ?thesis using eq by simp
qed

lemma place_wf:
  assumes wf: "th_wf key hs cmp t" and pos: "th_posicion t d = Some None"
    and p: "th_hueco (capacidad t) (capacidad t) (unat (hs d) mod capacidad t) (elems t) = Some p"
    and t': "t' = t\<lparr>elems := (elems t)[p := \<lparr>dato = Some d, fdelete = 0\<rparr>],
      numElems := Suc (numElems t)\<rparr>"
  shows "p < capacidad t \<and> th_wf key hs cmp t' \<and> th_set t' = insert d (th_set t)"
proof -
  have h: "unat (hs d) mod capacidad t < capacidad t" using th_wfD(5) [OF wf] by simp
  from th_hueco_Some [OF p h] obtain m where m: "m < capacidad t"
    "p = (unat (hs d) mod capacidad t + m) mod capacidad t" "dato (elems t ! p) = None"
    "\<forall>m' < m. dato (elems t ! ((unat (hs d) mod capacidad t + m') mod capacidad t)) \<noteq> None"
    by blast
  have pc: "p < capacidad t" using m(2) th_wfD(5) [OF wf] by simp
  have "th_wf key hs cmp t'"
    unfolding t'
  proof (rule wf_upd [OF wf pc])
    show "key x \<noteq> key y" if "dato \<lparr>dato = Some d, fdelete = 0\<rparr> = Some x" "i < capacidad t" "i \<noteq> p"
      "dato (elems t ! i) = Some y" for x i y
      using that posicion_None [OF wf, of d] pos th_wfD(4) [OF wf] by (auto simp: th_set_nth)
    show "\<exists>m < capacidad t. p = (unat (hs x) mod capacidad t + m) mod capacidad t \<and>
        (\<forall>m' < m. \<not> libre (elems t ! ((unat (hs x) mod capacidad t + m') mod capacidad t)))"
      if "dato \<lparr>dato = Some d, fdelete = 0\<rparr> = Some x" for x
      using m that by (auto simp: libre_def)
  qed (use m(3) in \<open>auto simp: libre_def casilla_ok_def\<close>)
  moreover have "th_set t' = insert d (th_set t)"
    unfolding t' th_set_upd [OF wf pc] using m(3) by simp
  ultimately show ?thesis using pc by simp
qed

lemma remove_wf:
  assumes wf: "th_wf key hs cmp t" and pos: "th_posicion t d = Some (Some i)"
    and t': "t' = t\<lparr>elems := (elems t)[i := \<lparr>dato = None, fdelete = 1\<rparr>],
      numElems := u_dec (numElems t)\<rparr>"
  shows "th_wf key hs cmp t' \<and> th_set t' = {y \<in> th_set t. key y \<noteq> key d} \<and>
    Suc (numElems t') = numElems t \<and> capacidad t' = capacidad t"
proof -
  from posicion_Some [OF wf] pos obtain y where i: "i < capacidad t"
    and y: "dato (elems t ! i) = Some y" "key y = key d" by auto
  note D = th_wfD [OF wf]
  have "y \<in> th_set t" using i y D(4) by (auto simp: th_set_nth)
  then have "0 < numElems t" unfolding D(7) th_set_def by (cases "th_list t") auto
  moreover have "numElems t < UINT_MOD"
    using D(4,6,7) length_map_filter_le [of dato "elems t"] by (simp add: th_list_def)
  ultimately have n: "Suc (u_dec (numElems t)) = numElems t" by (simp add: u_dec_pos)
  have "th_wf key hs cmp t'"
    unfolding t' by (rule wf_upd [OF wf i]) (use y n in \<open>auto simp: libre_def casilla_ok_def\<close>)
  moreover have "th_set t' = {y \<in> th_set t. key y \<noteq> key d}"
    unfolding t' th_set_upd [OF wf i] th_set_without [OF wf i y] by simp
  ultimately show ?thesis using n t' by simp
qed

lemma insertar_found:
  assumes wf: "th_wf key hs cmp t" and pos: "th_posicion t d = Some (Some i)"
  shows "th_insertar (Suc depth) t d cmp copy =
    Some (t\<lparr>elems := (elems t)[i := (elems t ! i)\<lparr>dato := Some (copy d)\<rparr>]\<rparr>)"
proof -
  note D = th_wfD [OF wf]
  have "th_sondeo cmp d (capacidad t) (capacidad t) (unat (hs d) mod capacidad t) (elems t) = Some i"
    using pos D(1,2,5) by (simp add: th_posicion_def Let_def)
  from th_sondeo_insertar_found [OF this] show ?thesis
    using D(1,5) by (simp add: Let_def)
qed

lemma numElems_less: "th_inv key hs cmp t \<Longrightarrow> numElems t < capacidad t"
  using th_wfD(5) [of key hs cmp t] by (auto simp: th_inv_def th_sobrecarga_def)

lemma insertar_absent:
  assumes inv: "th_inv key hs cmp t" and pos: "th_posicion t d = Some None"
  obtains p t' where "p < capacidad t" "th_wf key hs cmp t'" "th_set t' = insert d (th_set t)"
    "numElems t' = Suc (numElems t)" "capacidad t' = capacidad t"
    "\<And>depth. th_insertar (Suc depth) t d cmp (\<lambda>x. x) =
       (if 2 ^ 31 \<le> p then None
        else if th_sobrecarga t'
        then th_redimensionar (\<lambda>u x. th_insertar depth u x (th_comp u) noCopy) t' else Some t')"
proof -
  have wf: "th_wf key hs cmp t" using inv by (simp add: th_inv_def)
  note D = th_wfD [OF wf] and less = numElems_less [OF inv]
  let ?cap = "capacidad t" and ?h = "unat (hs d) mod capacidad t"
  have h: "?h < ?cap" using D(5) by simp
  have none: "th_sondeo cmp d ?cap ?cap ?h (elems t) = None"
    using pos D(1,2,5) by (simp add: th_posicion_def Let_def)
  obtain j where "j < ?cap" "dato (elems t ! j) = None"
    using less D(4,7) length_map_filter_full [of "elems t"]
    by (metis in_set_conv_nth nat_neq_iff th_list_def)
  with sondeo_covers [OF h] th_hueco_exists [OF _ h]
  obtain p where p: "th_hueco ?cap ?cap ?h (elems t) = Some p" by (metis not_None_eq)
  let ?t' = "t\<lparr>elems := (elems t)[p := \<lparr>dato = Some d, fdelete = 0\<rparr>], numElems := Suc (numElems t)\<rparr>"
  have inc: "u_inc (numElems t) = Suc (numElems t)" using less D(6) by (simp add: u_inc_small)
  have "th_sondeo_insertar cmp (\<lambda>x. x) d ?cap ?cap ?h None (elems t) = (elems t, Some p)"
    using th_sondeo_insertar_absent [OF none h D(8)] p by simp
  then have "th_insertar (Suc depth) t d cmp (\<lambda>x. x) =
     (if 2 ^ 31 \<le> p then None
      else if th_sobrecarga ?t'
      then th_redimensionar (\<lambda>u x. th_insertar depth u x (th_comp u) noCopy) ?t' else Some ?t')"
    for depth
    using D(1,5) inc by (simp add: Let_def)
  with place_wf [OF wf pos p refl] show ?thesis by (intro that [of p ?t']) simp_all
qed

lemma distinct_keys: "th_wf key hs cmp t \<Longrightarrow> distinct (map key (th_list t))"
  unfolding th_list_def by (rule distinct_keys_map_filter) (metis th_wfD(4,9))

lemma crear_inv:
  assumes "0 < cap" "cap < UINT_MOD"
  shows "th_inv key hs cmp (tablahash_crear cap (\<lambda>x. x) cmp hs) \<and>
    th_set (tablahash_crear cap (\<lambda>x. x) cmp hs) = {}"
proof -
  have "List.map_filter dato (replicate n casilla_nula) = []" for n :: nat
    by (induction n) (simp_all add: casilla_nula_def List.map_filter_simps)
  then show ?thesis
    using assms
    by (auto simp: th_inv_def th_wf_def tablahash_crear_def th_sobrecarga_def th_set_def th_list_def
        casilla_nula_def casilla_ok_def)
qed

text \<open>An insertion that may not resize any more.\<close>

lemma insertar_once:
  assumes inv: "th_inv key hs cmp t" and pos: "th_posicion t d = Some None"
    and ins: "th_insertar (Suc 0) t d (th_comp t) noCopy = Some t'"
  shows "th_inv key hs cmp t' \<and> th_set t' = insert d (th_set t) \<and>
    numElems t' = Suc (numElems t) \<and> capacidad t' = capacidad t"
proof -
  have wf: "th_wf key hs cmp t" using inv by (simp add: th_inv_def)
  obtain p u where u: "p < capacidad t" "th_wf key hs cmp u" "th_set u = insert d (th_set t)"
    "numElems u = Suc (numElems t)" "capacidad u = capacidad t"
    and eq: "\<And>depth. th_insertar (Suc depth) t d cmp (\<lambda>x. x) =
       (if 2 ^ 31 \<le> p then None
        else if th_sobrecarga u
        then th_redimensionar (\<lambda>u x. th_insertar depth u x (th_comp u) noCopy) u else Some u)"
    by (rule insertar_absent [OF inv pos]) (rule that)
  have "th_list u \<noteq> []" using u(3) by (auto simp: th_set_def)
  then have "th_redimensionar (\<lambda>u x. th_insertar 0 u x (th_comp u) noCopy) u = None"
    using th_wfD(4) [OF u(2)]
    by (simp add: th_redimensionar_def Let_def th_reinsertar_stuck th_list_def)
  with eq [of 0] ins u show ?thesis
    by (auto simp: th_wfD(2) [OF wf] noCopy_id th_inv_def split: if_splits)
qed

lemma insertar_once_total:
  assumes inv: "th_inv key hs cmp t" and pos: "th_posicion t d = Some None"
    and room: "capacidad t \<le> 2 ^ 31" "10 * Suc (numElems t) \<le> 7 * capacidad t"
  shows "\<exists>t'. th_insertar (Suc 0) t d (th_comp t) noCopy = Some t'"
proof -
  have wf: "th_wf key hs cmp t" using inv by (simp add: th_inv_def)
  obtain p u where u: "p < capacidad t" "th_wf key hs cmp u" "th_set u = insert d (th_set t)"
    "numElems u = Suc (numElems t)" "capacidad u = capacidad t"
    and eq: "\<And>depth. th_insertar (Suc depth) t d cmp (\<lambda>x. x) =
       (if 2 ^ 31 \<le> p then None
        else if th_sobrecarga u
        then th_redimensionar (\<lambda>u x. th_insertar depth u x (th_comp u) noCopy) u else Some u)"
    by (rule insertar_absent [OF inv pos]) (rule that)
  have "\<not> th_sobrecarga u" using room(2) u by (simp add: th_sobrecarga_def)
  with eq [of 0] u(1) room(1) show ?thesis by (auto simp: th_wfD(2) [OF wf] noCopy_id)
qed

lemma reinsertar_spec:
  assumes "th_inv key hs cmp t" "distinct (map key (List.map_filter dato cs))"
    and "\<forall>x \<in> set (List.map_filter dato cs). \<forall>y \<in> th_set t. key x \<noteq> key y"
    and "th_reinsertar (\<lambda>u x. th_insertar (Suc 0) u x (th_comp u) noCopy) cs t = Some t'"
  shows "th_inv key hs cmp t' \<and> th_set t' = th_set t \<union> set (List.map_filter dato cs) \<and>
    numElems t' = numElems t + length (List.map_filter dato cs) \<and> capacidad t' = capacidad t"
  using assms
proof (induction cs arbitrary: t)
  case (Cons c cs)
  show ?case
  proof (cases "dato c")
    case None
    with Cons show ?thesis by (simp add: List.map_filter_simps)
  next
    case (Some d)
    with Cons.prems(4) obtain u
      where u: "th_insertar (Suc 0) t d (th_comp t) noCopy = Some u"
        and rest: "th_reinsertar (\<lambda>u x. th_insertar (Suc 0) u x (th_comp u) noCopy) cs u = Some t'"
      by (auto simp del: th_insertar.simps split: option.splits)
    have "th_posicion t d = Some None"
      using Cons.prems(1,3) Some posicion_None [of t d]
      by (auto simp: th_inv_def List.map_filter_simps)
    note U = insertar_once [OF Cons.prems(1) this u]
    have "th_inv key hs cmp t' \<and> th_set t' = th_set u \<union> set (List.map_filter dato cs) \<and>
      numElems t' = numElems u + length (List.map_filter dato cs) \<and> capacidad t' = capacidad u"
      using Cons.prems(2,3) Some U by (intro Cons.IH [OF _ _ _ rest])
        (auto simp: List.map_filter_simps image_iff)
    with U Some show ?thesis by (auto simp: List.map_filter_simps)
  qed
qed (simp add: List.map_filter_simps)

lemma reinsertar_total:
  assumes "th_inv key hs cmp t" "distinct (map key (List.map_filter dato cs))"
    and "\<forall>x \<in> set (List.map_filter dato cs). \<forall>y \<in> th_set t. key x \<noteq> key y"
    and "capacidad t \<le> 2 ^ 31"
    and "10 * (numElems t + length (List.map_filter dato cs)) \<le> 7 * capacidad t"
  shows "\<exists>t'. th_reinsertar (\<lambda>u x. th_insertar (Suc 0) u x (th_comp u) noCopy) cs t = Some t'"
  using assms
proof (induction cs arbitrary: t)
  case (Cons c cs)
  show ?case
  proof (cases "dato c")
    case None
    with Cons show ?thesis by (simp add: List.map_filter_simps)
  next
    case (Some d)
    have pos: "th_posicion t d = Some None"
      using Cons.prems(1,3) Some posicion_None [of t d]
      by (auto simp: th_inv_def List.map_filter_simps)
    then obtain u where u: "th_insertar (Suc 0) t d (th_comp t) noCopy = Some u"
      using insertar_once_total [OF Cons.prems(1) pos Cons.prems(4)] Cons.prems(5) Some
      by (auto simp: List.map_filter_simps simp del: th_insertar.simps)
    note U = insertar_once [OF Cons.prems(1) pos u]
    have "\<exists>t'. th_reinsertar (\<lambda>u x. th_insertar (Suc 0) u x (th_comp u) noCopy) cs u = Some t'"
      using Cons.prems(2-5) Some U by (intro Cons.IH) (auto simp: List.map_filter_simps image_iff)
    with u Some show ?thesis by (simp del: th_insertar.simps)
  qed
qed simp

lemma redimensionar_start:
  assumes "th_wf key hs cmp t"
  shows "t\<lparr>capacidad := cap, elems := replicate cap casilla_nula, numElems := 0\<rparr> =
    tablahash_crear cap (\<lambda>x. x) cmp hs"
  using th_wfD(1-3) [OF assms] by (cases t) (simp add: tablahash_crear_def)

lemma redimensionar_spec:
  assumes wf: "th_wf key hs cmp t" and ne: "th_list t \<noteq> []"
    and re: "th_redimensionar (\<lambda>u x. th_insertar (Suc 0) u x (th_comp u) noCopy) t = Some t'"
  shows "th_inv key hs cmp t' \<and> th_set t' = th_set t \<and> numElems t' = numElems t \<and>
    capacidad t' = u_dbl (capacidad t)"
proof -
  let ?cap = "u_dbl (capacidad t)"
  have re': "th_reinsertar (\<lambda>u x. th_insertar (Suc 0) u x (th_comp u) noCopy) (elems t)
      (tablahash_crear ?cap (\<lambda>x. x) cmp hs) = Some t'"
    using re th_wfD(4) [OF wf]
    by (simp add: th_redimensionar_def Let_def redimensionar_start [OF wf] del: th_insertar.simps)
  have "?cap \<noteq> 0"
  proof
    assume 0: "?cap = 0"
    have "th_reinsertar (\<lambda>u x. th_insertar (Suc 0) u x (th_comp u) noCopy) cs u = None"
      if "List.map_filter dato cs \<noteq> []" "capacidad u = 0" for cs and u :: "'a TablaHash"
      using that by (induction cs) (auto simp: List.map_filter_simps split: option.splits)
    with re' ne show False by (simp add: 0 th_list_def tablahash_crear_def)
  qed
  moreover have "?cap < UINT_MOD" by (simp add: u_dbl_def)
  ultimately have start: "th_inv key hs cmp (tablahash_crear ?cap (\<lambda>x. x) cmp hs)"
    "th_set (tablahash_crear ?cap (\<lambda>x. x) cmp hs) = {}"
    using crear_inv [of ?cap] by auto
  from reinsertar_spec [OF start(1) _ _ re'] start(2) distinct_keys [OF wf] show ?thesis
    by (simp add: th_list_def th_set_def tablahash_crear_def th_wfD(7) [OF wf])
qed

lemma redimensionar_total:
  assumes wf: "th_wf key hs cmp t" and cap: "2 * capacidad t \<le> 2 ^ 31"
  shows "\<exists>t'. th_redimensionar (\<lambda>u x. th_insertar (Suc 0) u x (th_comp u) noCopy) t = Some t'"
proof -
  have dbl: "u_dbl (capacidad t) = 2 * capacidad t" using cap by (simp add: u_dbl_small)
  have start: "th_inv key hs cmp (tablahash_crear (2 * capacidad t) (\<lambda>x. x) cmp hs)"
    "th_set (tablahash_crear (2 * capacidad t) (\<lambda>x. x) cmp hs) = {}"
    using crear_inv [of "2 * capacidad t"] th_wfD(5) [OF wf] cap by auto
  have "length (List.map_filter dato (elems t)) \<le> capacidad t"
    using length_map_filter_le th_wfD(4) [OF wf] by metis
  then have "\<exists>t'. th_reinsertar (\<lambda>u x. th_insertar (Suc 0) u x (th_comp u) noCopy) (elems t)
      (tablahash_crear (2 * capacidad t) (\<lambda>x. x) cmp hs) = Some t'"
    using start cap distinct_keys [OF wf]
    by (intro reinsertar_total) (auto simp: th_list_def tablahash_crear_def)
  then show ?thesis
    using th_wfD(4) [OF wf]
    by (simp add: th_redimensionar_def Let_def redimensionar_start [OF wf] dbl del: th_insertar.simps)
qed

lemma insertar_eq:
  "th_wf key hs cmp t \<Longrightarrow> tablahash_insertar t d = th_insertar (Suc (Suc 0)) t d cmp (\<lambda>x. x)"
  by (simp add: tablahash_insertar_def TH_DEPTH_def th_wfD(2,3) numeral_2_eq_2
      del: th_insertar.simps)

lemma insertar_spec:
  assumes inv: "th_inv key hs cmp t" and ins: "tablahash_insertar t d = Some t'"
  shows "th_inv key hs cmp t' \<and> th_set t' = insert d {x \<in> th_set t. key x \<noteq> key d} \<and>
    numElems t' \<le> Suc (numElems t)"
proof -
  have wf: "th_wf key hs cmp t" using inv by (simp add: th_inv_def)
  obtain r where r: "th_posicion t d = Some r" using posicion_total [OF wf] by blast
  show ?thesis
  proof (cases r)
    case (Some i)
    then have "t' = t\<lparr>elems := (elems t)[i := (elems t ! i)\<lparr>dato := Some d\<rparr>]\<rparr>"
      using insertar_found [OF wf] r ins insertar_eq [OF wf] by (simp del: th_insertar.simps)
    from replace_wf [OF wf _ refl this] r Some inv show ?thesis
      by (auto simp: th_inv_def th_sobrecarga_def)
  next
    case None
    with r have pos: "th_posicion t d = Some None" by simp
    obtain p u where u: "p < capacidad t" "th_wf key hs cmp u" "th_set u = insert d (th_set t)"
      "numElems u = Suc (numElems t)" "capacidad u = capacidad t"
      and eq: "\<And>depth. th_insertar (Suc depth) t d cmp (\<lambda>x. x) =
         (if 2 ^ 31 \<le> p then None
          else if th_sobrecarga u
          then th_redimensionar (\<lambda>u x. th_insertar depth u x (th_comp u) noCopy) u else Some u)"
      by (rule insertar_absent [OF inv pos]) (rule that)
    have "th_list u \<noteq> []" using u(3) by (auto simp: th_set_def)
    have "{x \<in> th_set t. key x \<noteq> key d} = th_set t" using posicion_None [OF wf] pos by auto
    with redimensionar_spec [OF u(2) \<open>th_list u \<noteq> []\<close>] ins eq [of "Suc 0"] u show ?thesis
      by (auto simp: insertar_eq [OF wf] th_inv_def simp del: th_insertar.simps split: if_splits)
  qed
qed

lemma insertar_total:
  assumes inv: "th_inv key hs cmp t" and room: "th_room (Suc k) t"
  shows "\<exists>t'. tablahash_insertar t d = Some t' \<and> th_room k t'"
proof -
  have wf: "th_wf key hs cmp t" using inv by (simp add: th_inv_def)
  obtain r where r: "th_posicion t d = Some r" using posicion_total [OF wf] by blast
  show ?thesis
  proof (cases r)
    case (Some i)
    then show ?thesis
      using insertar_found [OF wf] r insertar_eq [OF wf] room
      by (simp add: th_room_def del: th_insertar.simps)
  next
    case None
    with r have pos: "th_posicion t d = Some None" by simp
    obtain p u where u: "p < capacidad t" "th_wf key hs cmp u" "th_set u = insert d (th_set t)"
      "numElems u = Suc (numElems t)" "capacidad u = capacidad t"
      and eq: "\<And>depth. th_insertar (Suc depth) t d cmp (\<lambda>x. x) =
         (if 2 ^ 31 \<le> p then None
          else if th_sobrecarga u
          then th_redimensionar (\<lambda>u x. th_insertar depth u x (th_comp u) noCopy) u else Some u)"
      by (rule insertar_absent [OF inv pos]) (rule that)
    have p: "\<not> 2 ^ 31 \<le> p" using u(1) room by (simp add: th_room_def)
    show ?thesis
    proof (cases "th_sobrecarga u")
      case False
      then show ?thesis
        using eq [of "Suc 0"] p u room
        by (simp add: insertar_eq [OF wf] th_room_def del: th_insertar.simps)
    next
      case True
      then have cap: "2 * capacidad u \<le> 2 ^ 31"
        using u(4) room by (simp add: th_sobrecarga_def th_room_def)
      from redimensionar_total [OF u(2) cap] obtain v
        where v: "th_redimensionar (\<lambda>u x. th_insertar (Suc 0) u x (th_comp u) noCopy) u = Some v"
        by blast
      have "th_list u \<noteq> []" using u(3) by (auto simp: th_set_def)
      from redimensionar_spec [OF u(2) this v] cap u(4) room True v eq [of "Suc 0"] p show ?thesis
        by (simp add: insertar_eq [OF wf] th_room_def u_dbl_small del: th_insertar.simps)
    qed
  qed
qed

lemma eliminar_spec:
  assumes inv: "th_inv key hs cmp t" and del: "tablahash_eliminar t d = Some t'"
  shows "th_inv key hs cmp t' \<and> th_set t' = {x \<in> th_set t. key x \<noteq> key d} \<and>
    numElems t' \<le> numElems t \<and> capacidad t' = capacidad t"
proof -
  have wf: "th_wf key hs cmp t" using inv by (simp add: th_inv_def)
  obtain r where r: "th_posicion t d = Some r" using posicion_total [OF wf] by blast
  show ?thesis
  proof (cases r)
    case (Some i)
    then have "t' = t\<lparr>elems := (elems t)[i := \<lparr>dato = None, fdelete = 1\<rparr>],
        numElems := u_dec (numElems t)\<rparr>"
      using r del by (simp add: tablahash_eliminar_def th_eliminar_def)
    from remove_wf [OF wf r [unfolded Some] this] inv show ?thesis
      by (auto simp: th_inv_def th_sobrecarga_def)
  next
    case None
    then show ?thesis
      using r del inv posicion_None [OF wf, of d]
      by (auto simp: tablahash_eliminar_def th_eliminar_def)
  qed
qed

lemma asignar_spec:
  assumes inv: "th_inv key hs cmp t" and asg: "th_asignar t d x = Some t'" and x: "key x = key d"
  shows "th_inv key hs cmp t' \<and> th_set t' = insert x {y \<in> th_set t. key y \<noteq> key d} \<and>
    numElems t' = numElems t \<and> capacidad t' = capacidad t"
proof -
  have wf: "th_wf key hs cmp t" using inv by (simp add: th_inv_def)
  obtain i where i: "th_posicion t d = Some (Some i)"
    and t': "t' = t\<lparr>elems := (elems t)[i := (elems t ! i)\<lparr>dato := Some x\<rparr>]\<rparr>"
    using asg by (auto simp: th_asignar_def split: option.splits)
  from replace_wf [OF wf i x t'] inv show ?thesis by (auto simp: th_inv_def th_sobrecarga_def)
qed

end

sublocale tablahash \<subseteq> dictionary key "th_inv key hs cmp" th_set th_room
  tablahash_buscar tablahash_insertar tablahash_eliminar th_asignar
proof (unfold_locales, goal_cases)
  case (1 t) show ?case by simp
next
  case (2 t) then show ?case by (simp add: th_inv_def inj_key_wf)
next
  case (3 t d) then show ?case by (simp add: th_inv_def buscar_total)
next
  case (4 t d x) then show ?case by (simp add: th_inv_def buscar_Some)
next
  case (5 t k d) then show ?case by (rule insertar_total)
next
  case (6 t d t') then show ?case using insertar_spec by blast
next
  case (7 t d k)
  then obtain r where "th_posicion t d = Some r" using posicion_total th_inv_def by blast
  then obtain t' where t': "tablahash_eliminar t d = Some t'"
    by (cases r) (simp_all add: tablahash_eliminar_def th_eliminar_def)
  from t' eliminar_spec [OF 7 t'] show ?case by (auto simp: th_room_def)
next
  case (8 t d t') then show ?case using eliminar_spec by blast
next
  case (9 t d y x)
  then show ?case
    by (auto simp: tablahash_buscar_def th_asignar_def split: option.splits)
next
  case (10 t d x t') then show ?case using asignar_spec by blast
qed

context tablahash
begin

lemma visitar: "th_inv key hs cmp t \<Longrightarrow> tablahash_visitar_extra t show x = fold show (th_list t) x"
  by (rule th_visitar_fold) (auto simp: th_inv_def dest: th_wfD(4))

lemma list_distinct: "th_inv key hs cmp t \<Longrightarrow> distinct (map key (th_list t))"
  by (simp add: th_inv_def distinct_keys)

lemma nelems_length: "th_inv key hs cmp t \<Longrightarrow> numElems t = length (th_list t)"
  by (auto simp: th_inv_def dest: th_wfD(7))

lemma nelems_card: "th_inv key hs cmp t \<Longrightarrow> numElems t = card (th_set t)"
  using list_distinct [of t] th_wfD(7) [of key hs cmp t]
  by (simp add: th_inv_def th_set_def distinct_map distinct_card)

lemma crear_contract:
  "0 < cap \<Longrightarrow> cap \<le> 2 ^ 31 \<Longrightarrow> 10 * k \<le> 7 * 2 ^ 30 \<Longrightarrow>
     th_inv key hs cmp (tablahash_crear cap (\<lambda>x. x) cmp hs) \<and>
     th_set (tablahash_crear cap (\<lambda>x. x) cmp hs) = {} \<and>
     th_room k (tablahash_crear cap (\<lambda>x. x) cmp hs)"
  using crear_inv [of cap] by (simp add: th_room_def tablahash_crear_def)

text \<open>The table as a finite map from keys to elements.\<close>

lemma map_Some: "th_inv key hs cmp t \<Longrightarrow> th_map key t k = Some x \<longleftrightarrow> x \<in> th_set t \<and> key x = k"
  using list_distinct [of t]
  by (subst th_map_def, subst map_of_eq_Some_iff) (auto simp: th_set_def comp_def)

lemma map_eqI:
  assumes "th_inv key hs cmp t" "\<And>k x. m k = Some x \<longleftrightarrow> x \<in> th_set t \<and> key x = k"
  shows "th_map key t = m"
proof (rule ext)
  fix k
  show "th_map key t k = m k"
    using map_Some [OF assms(1), of k] assms(2) [of k] by (metis not_Some_eq)
qed

lemma buscar_map:
  assumes "th_inv key hs cmp t"
  shows "tablahash_buscar t d = Some (th_map key t (key d))"
  using find_total [OF assms, of d] find_Some [OF assms, of d] map_Some [OF assms, of "key d"]
  by (metis not_Some_eq)

lemma insertar_map:
  assumes "th_inv key hs cmp t" "tablahash_insertar t d = Some t'"
  shows "th_map key t' = (th_map key t)(key d \<mapsto> d)"
  using ins_spec [OF assms] map_Some [OF assms(1)] by (intro map_eqI) auto

lemma eliminar_map:
  assumes "th_inv key hs cmp t" "tablahash_eliminar t d = Some t'"
  shows "th_map key t' = (th_map key t)(key d := None)"
  using del_spec [OF assms] map_Some [OF assms(1)] by (intro map_eqI) auto

lemma asignar_map:
  assumes "th_inv key hs cmp t" "th_asignar t d x = Some t'" "key x = key d"
  shows "th_map key t' = (th_map key t)(key d \<mapsto> x)"
  using asg_spec [OF assms] assms(3) map_Some [OF assms(1)] by (intro map_eqI) auto

lemma card_dom_map: "th_inv key hs cmp t \<Longrightarrow> card (dom (th_map key t)) = numElems t"
proof -
  assume inv: "th_inv key hs cmp t"
  have "dom (th_map key t) = key ` th_set t" using map_Some [OF inv] by (auto simp: dom_def)
  then show ?thesis using nelems_card [OF inv] inj_key [OF inv] by (simp add: card_image)
qed

lemma run_refines:
  assumes "th_inv key hs cmp t" "th_room (length ops) t"
  shows "\<exists>t'. th_run ops t = Some t' \<and> th_inv key hs cmp t' \<and> th_room 0 t' \<and>
    th_map key t' = dict_run key ops (th_map key t)"
  using assms
proof (induction ops arbitrary: t)
  case (Cons op ops)
  show ?case
  proof (cases op)
    case (Insertar d)
    obtain u where u: "tablahash_insertar t d = Some u" "th_room (length ops) u"
      using ins_total [OF Cons.prems(1), of "length ops" d] Cons.prems(2) by auto
    with Insertar Cons.IH [of u] insertar_spec [OF Cons.prems(1) u(1)]
      insertar_map [OF Cons.prems(1) u(1)]
    show ?thesis by (auto simp: fun_upd_def)
  next
    case (Eliminar d)
    have "th_room (length ops) t" using Cons.prems(2) by (simp add: th_room_def)
    then obtain u where u: "tablahash_eliminar t d = Some u" "th_room (length ops) u"
      using del_total [OF Cons.prems(1), of d "length ops"] by auto
    with Eliminar Cons.IH [of u] eliminar_spec [OF Cons.prems(1) u(1)]
      eliminar_map [OF Cons.prems(1) u(1)]
    show ?thesis by (auto simp: fun_upd_def)
  qed
qed simp

end

section \<open>Properties\<close>

text \<open>
  Claim C1. The hash table implements a finite map. For every comparison and hash function that are
  determined by a key, and every sequence of insertions and deletions on a new table (of up to 751
  million operations, the bound from the indices being \<^verbatim>\<open>int\<close>), no operation is undefined, a lookup
  then returns what the map built by the same operations holds for the key, \<^verbatim>\<open>tablahash_nelems\<close> is
  the number of keys, and the load is at most 0.7. Tombstones, re-use of deleted slots and resizes
  are all covered.
\<close>

theorem tablahash_refines_map:
  assumes cmp: "\<And>a b. cmp a b = 0 \<longleftrightarrow> key a = key b"
    and hs: "\<And>a b. key a = key b \<Longrightarrow> hs a = hs b"
    and cap: "0 < cap" "cap \<le> 2 ^ 31" and ops: "10 * length ops \<le> 7 * 2 ^ 30"
  shows "\<exists>t. th_run ops (tablahash_crear cap (\<lambda>x. x) cmp hs) = Some t \<and>
    (\<forall>d. tablahash_buscar t d = Some (dict_run key ops Map.empty (key d))) \<and>
    tablahash_nelems t = int (card (dom (dict_run key ops Map.empty))) \<and> \<not> th_sobrecarga t"
proof -
  have loc: "tablahash key hs cmp" by (rule tablahash.intro [OF cmp hs])
  let ?t0 = "tablahash_crear cap (\<lambda>x. x) cmp hs"
  note start = tablahash.crear_contract [OF loc cap ops]
  then obtain t where t: "th_run ops ?t0 = Some t" "th_inv key hs cmp t" "th_room 0 t"
    "th_map key t = dict_run key ops (th_map key ?t0)"
    using tablahash.run_refines [OF loc] by blast
  have "th_map key ?t0 = Map.empty" using start by (simp add: th_map_def th_set_def)
  moreover have "numElems t < 2 ^ 31" using t(3) by (simp add: th_room_def)
  ultimately show ?thesis
    using t tablahash.buscar_map [OF loc t(2)] tablahash.card_dom_map [OF loc t(2)]
    by (auto simp: tablahash_nelems_def int_of_u32_small th_inv_def)
qed

text \<open>A table of two slots in which a slot is freed, re-used and the table grows.\<close>

theorem tablahash_refines_map_witness:
  "\<exists>t. th_run [Insertar 1, Insertar 12, Eliminar 1, Insertar 23, Insertar 33]
        (tablahash_crear 2 (\<lambda>x. x) (\<lambda>a b. if a = b then 0 else 1) (\<lambda>x :: u32. x)) = Some t \<and>
     tablahash_buscar t 12 = Some (Some 12) \<and> tablahash_buscar t 1 = Some None \<and>
     tablahash_nelems t = 3"
proof -
  let ?ops = "[Insertar 1, Insertar 12, Eliminar 1, Insertar 23, Insertar (33 :: u32)]"
  let ?m = "dict_run (\<lambda>x. x) ?ops Map.empty"
  have "dom ?m = {12, 23, 33}" by (auto split: if_splits)
  then have card: "card (dom ?m) = 3" by simp
  have "\<exists>t. th_run ?ops (tablahash_crear 2 (\<lambda>x. x) (\<lambda>a b. if a = b then 0 else 1) (\<lambda>x. x)) = Some t \<and>
      (\<forall>d. tablahash_buscar t d = Some (?m d)) \<and> tablahash_nelems t = int (card (dom ?m)) \<and>
      \<not> th_sobrecarga t"
    by (rule tablahash_refines_map) simp_all
  then show ?thesis unfolding card by auto
qed

end
