(* ===== verification/C_Strings.thy ===== *)
theory C_Strings
  imports Prelude
begin

text \<open>
  The parts of the C library the agent uses on text: \<^verbatim>\<open>snprintf\<close> with \<^verbatim>\<open>%u\<close>, \<^verbatim>\<open>%d\<close> and \<^verbatim>\<open>%s\<close>, \<^verbatim>\<open>sscanf\<close>
  with \<^verbatim>\<open>%u\<close>, \<^verbatim>\<open>%s\<close>, \<^verbatim>\<open>%9s\<close> and \<^verbatim>\<open>%15[^:]\<close>, \<^verbatim>\<open>strtok\<close>, \<^verbatim>\<open>atoi\<close>, \<^verbatim>\<open>strncmp\<close> and \<^verbatim>\<open>strncpy\<close>. A C string is
  the list of its characters before the terminating NUL. Conversions out of range follow glibc on a
  64 bit machine: \<^verbatim>\<open>strtoul\<close> and \<^verbatim>\<open>strtol\<close> saturate at 64 bits, the result is cut to 32 bits.

  The lemmas show that what the formatting functions print, the scanning functions read back.
\<close>

section \<open>Printing\<close>

definition dec_digit :: "nat \<Rightarrow> char" where
  "dec_digit n = char_of (48 + n)"

fun dec_of_nat :: "nat \<Rightarrow> string" where
  "dec_of_nat n = (if n < 10 then [dec_digit n] else dec_of_nat (n div 10) @ [dec_digit (n mod 10)])"

declare dec_of_nat.simps [simp del]

definition fmt_u :: "u32 \<Rightarrow> string" where
  "fmt_u w = dec_of_nat (unat w)"

definition fmt_d :: "int \<Rightarrow> string" where
  "fmt_d i = (if i < 0 then CHR ''-'' # dec_of_nat (nat (- i)) else dec_of_nat (nat i))"

text \<open>What \<^verbatim>\<open>snprintf (buf, size, ...)\<close> leaves in \<^verbatim>\<open>buf\<close>, for the text of the whole output.\<close>

definition snprintf :: "nat \<Rightarrow> string \<Rightarrow> string" where
  "snprintf n s = take (n - 1) s"

section \<open>Scanning\<close>

definition is_space :: "char \<Rightarrow> bool" where
  "is_space c \<longleftrightarrow> c = CHR '' '' \<or> (9 \<le> (of_char c :: nat) \<and> (of_char c :: nat) \<le> 13)"

definition is_digit :: "char \<Rightarrow> bool" where
  "is_digit c \<longleftrightarrow> 48 \<le> (of_char c :: nat) \<and> (of_char c :: nat) \<le> 57"

definition dec_value :: "string \<Rightarrow> nat" where
  "dec_value s = foldl (\<lambda>n c. 10 * n + (of_char c - 48)) 0 s"

text \<open>An optional sign, then digits: whether it is negative, the value, the rest.\<close>

definition scan_dec :: "string \<Rightarrow> (bool \<times> nat \<times> string) option" where
  "scan_dec s =
     (let s = dropWhile is_space s;
          neg = (s \<noteq> [] \<and> hd s = CHR ''-'');
          s = (if s \<noteq> [] \<and> (hd s = CHR ''-'' \<or> hd s = CHR ''+'') then tl s else s);
          ds = takeWhile is_digit s
      in if ds = [] then None else Some (neg, dec_value ds, dropWhile is_digit s))"

definition strtoul_u32 :: "bool \<Rightarrow> nat \<Rightarrow> u32" where
  "strtoul_u32 neg n =
     (if 2 ^ 64 \<le> n then - 1 else if neg then - (of_nat n) else of_nat n)"

definition scan_u :: "string \<Rightarrow> (u32 \<times> string) option" where
  "scan_u s = (case scan_dec s of None \<Rightarrow> None | Some (neg, n, r) \<Rightarrow> Some (strtoul_u32 neg n, r))"

text \<open>\<^verbatim>\<open>%s\<close> with an optional width, and \<^verbatim>\<open>%15[^:]\<close> and the like.\<close>

definition scan_s :: "nat option \<Rightarrow> string \<Rightarrow> (string \<times> string) option" where
  "scan_s w s =
     (let s = dropWhile is_space s;
          t = takeWhile (\<lambda>c. \<not> is_space c) s;
          t = (case w of None \<Rightarrow> t | Some n \<Rightarrow> take n t)
      in if t = [] then None else Some (t, drop (length t) s))"

definition scan_not :: "nat \<Rightarrow> char \<Rightarrow> string \<Rightarrow> (string \<times> string) option" where
  "scan_not n d s =
     (let t = take n (takeWhile (\<lambda>c. c \<noteq> d) s)
      in if t = [] then None else Some (t, drop (length t) s))"

datatype fmt = Ws | Lit char | Fu | Fs "nat option" | Fnot nat char

datatype fval = VU u32 | VS string

text \<open>The values \<^verbatim>\<open>sscanf\<close> assigns; their number is its result.\<close>

fun sscanf :: "fmt list \<Rightarrow> string \<Rightarrow> fval list" where
  "sscanf [] s = []"
| "sscanf (Ws # f) s = sscanf f (dropWhile is_space s)"
| "sscanf (Lit c # f) s = (case s of [] \<Rightarrow> [] | x # r \<Rightarrow> if x = c then sscanf f r else [])"
| "sscanf (Fu # f) s = (case scan_u s of None \<Rightarrow> [] | Some (v, r) \<Rightarrow> VU v # sscanf f r)"
| "sscanf (Fs w # f) s = (case scan_s w s of None \<Rightarrow> [] | Some (v, r) \<Rightarrow> VS v # sscanf f r)"
| "sscanf (Fnot n d # f) s = (case scan_not n d s of None \<Rightarrow> [] | Some (v, r) \<Rightarrow> VS v # sscanf f r)"

text \<open>The tokens successive calls of \<^verbatim>\<open>strtok (s, delim)\<close> return, for a one character delimiter.\<close>

fun strtok_aux :: "char \<Rightarrow> string \<Rightarrow> string \<Rightarrow> string list" where
  "strtok_aux d tok [] = (if tok = [] then [] else [tok])"
| "strtok_aux d tok (c # s) =
     (if c = d then (if tok = [] then strtok_aux d [] s else tok # strtok_aux d [] s)
      else strtok_aux d (tok @ [c]) s)"

definition strtok :: "char \<Rightarrow> string \<Rightarrow> string list" where
  "strtok d s = strtok_aux d [] s"

definition atoi :: "string \<Rightarrow> int" where
  "atoi s =
     (case scan_dec s of
        None \<Rightarrow> 0
      | Some (neg, n, r) \<Rightarrow>
          let v = (if neg then max (- (2 ^ 63)) (- int n) else min (2 ^ 63 - 1) (int n))
          in int_of_u32 (word_of_int v))"

text \<open>\<^verbatim>\<open>strncmp (a, b, n) == 0\<close>, and what \<^verbatim>\<open>strncpy (dst, src, n)\<close> with a final NUL leaves in \<^verbatim>\<open>dst\<close>.\<close>

definition strncmp_eq :: "nat \<Rightarrow> string \<Rightarrow> string \<Rightarrow> bool" where
  "strncmp_eq n a b \<longleftrightarrow> take n a = take n b"

definition strncpy :: "nat \<Rightarrow> string \<Rightarrow> string" where
  "strncpy n s = take n s"

section \<open>Tokens\<close>

lemma strtok_aux_token:
  "d \<notin> set w \<Longrightarrow> strtok_aux d tok (w @ s) = strtok_aux d (tok @ w) s"
  by (induction w arbitrary: tok) auto

lemma strtok_aux_last: "d \<notin> set w \<Longrightarrow> tok @ w \<noteq> [] \<Longrightarrow> strtok_aux d tok w = [tok @ w]"
  using strtok_aux_token [of d w tok "[]"] by auto

lemma strtok_word:
  "w \<noteq> [] \<Longrightarrow> d \<notin> set w \<Longrightarrow> strtok d (w @ d # s) = w # strtok d s"
  using strtok_aux_token [of d w "[]" "d # s"] by (auto simp: strtok_def)

lemma strtok_end: "w \<noteq> [] \<Longrightarrow> d \<notin> set w \<Longrightarrow> strtok d w = [w]"
  by (simp add: strtok_def strtok_aux_last)

text \<open>Tokens are not empty and do not hold the delimiter.\<close>

lemma strtok_aux_tokens:
  "w \<in> set (strtok_aux d tok s) \<Longrightarrow> d \<notin> set tok \<Longrightarrow> w \<noteq> [] \<and> d \<notin> set w"
  by (induction d tok s rule: strtok_aux.induct) (auto split: if_splits)

lemma strtok_tokens: "w \<in> set (strtok d s) \<Longrightarrow> w \<noteq> [] \<and> d \<notin> set w"
  using strtok_aux_tokens [of w d "[]" s] by (simp add: strtok_def)

section \<open>Numbers survive printing and scanning\<close>

lemma dec_digit_simps [simp]:
  "dec_digit 0 = CHR ''0''" "dec_digit 1 = CHR ''1''" "dec_digit (Suc 0) = CHR ''1''"
  "dec_digit 2 = CHR ''2''" "dec_digit 3 = CHR ''3''" "dec_digit 4 = CHR ''4''"
  "dec_digit 5 = CHR ''5''" "dec_digit 6 = CHR ''6''" "dec_digit 7 = CHR ''7''"
  "dec_digit 8 = CHR ''8''" "dec_digit 9 = CHR ''9''"
  by (simp_all add: dec_digit_def char_of_def bit_simps)

lemma of_char_dec_digit: "n < 10 \<Longrightarrow> (of_char (dec_digit n) :: nat) = 48 + n"
  by (simp add: dec_digit_def)

lemma is_digit_dec_digit [simp]: "n < 10 \<Longrightarrow> is_digit (dec_digit n)"
  by (simp add: is_digit_def of_char_dec_digit)

lemma digit_not_space: "is_digit c \<Longrightarrow> \<not> is_space c"
  by (auto simp: is_digit_def is_space_def)

lemma digit_not_sign: "is_digit c \<Longrightarrow> c \<noteq> CHR ''-'' \<and> c \<noteq> CHR ''+''"
  by (auto simp: is_digit_def)

lemma dec_of_nat_digits: "c \<in> set (dec_of_nat n) \<Longrightarrow> is_digit c"
proof (induction n rule: dec_of_nat.induct)
  case (1 n)
  then show ?case by (subst (asm) (2) dec_of_nat.simps) (auto split: if_splits)
qed

lemma dec_of_nat_ne: "dec_of_nat n \<noteq> []"
  by (subst dec_of_nat.simps) simp

lemma dec_value_snoc: "dec_value (s @ [c]) = 10 * dec_value s + (of_char c - 48)"
  by (simp add: dec_value_def)

lemma dec_value_of_nat: "dec_value (dec_of_nat n) = n"
proof (induction n rule: dec_of_nat.induct)
  case (1 n)
  show ?case
  proof (cases "n < 10")
    case True
    then show ?thesis by (simp add: dec_of_nat.simps [of n] dec_value_def of_char_dec_digit)
  next
    case False
    with 1 show ?thesis
      by (simp add: dec_of_nat.simps [of n] dec_value_snoc of_char_dec_digit)
  qed
qed

lemma takeWhile_all_stop:
  "(\<And>c. c \<in> set s \<Longrightarrow> P c) \<Longrightarrow> r = [] \<or> \<not> P (hd r) \<Longrightarrow> takeWhile P (s @ r) = s \<and> dropWhile P (s @ r) = r"
  by (induction s) (cases r; auto)+

lemma scan_dec_of_nat:
  assumes "r = [] \<or> \<not> is_digit (hd r)"
  shows "scan_dec (dec_of_nat n @ r) = Some (False, n, r)"
proof -
  obtain c s where cs: "dec_of_nat n = c # s" using dec_of_nat_ne by (cases "dec_of_nat n") auto
  have c: "is_digit c" using dec_of_nat_digits [of c n] cs by simp
  have "takeWhile is_digit (dec_of_nat n @ r) = dec_of_nat n \<and>
      dropWhile is_digit (dec_of_nat n @ r) = r"
    by (rule takeWhile_all_stop) (use assms dec_of_nat_digits in auto)
  then show ?thesis
    using c digit_not_space [OF c] digit_not_sign [OF c] dec_value_of_nat [of n]
    by (simp add: scan_dec_def Let_def cs)
qed

lemma scan_u_fmt_u [simp]:
  assumes "r = [] \<or> \<not> is_digit (hd r)"
  shows "scan_u (fmt_u w @ r) = Some (w, r)"
proof -
  have "unat w < 2 ^ LENGTH(32)" by (rule unsigned_less)
  then show ?thesis
    by (simp add: scan_u_def fmt_u_def scan_dec_of_nat [OF assms] strtoul_u32_def)
qed

lemma length_dec_of_nat: "n < 10 ^ k \<Longrightarrow> 0 < k \<Longrightarrow> length (dec_of_nat n) \<le> k"
proof (induction k arbitrary: n)
  case (Suc k)
  show ?case
  proof (cases "n < 10")
    case True
    then show ?thesis by (simp add: dec_of_nat.simps [of n])
  next
    case False
    then have "0 < k" using Suc.prems by (cases k) auto
    moreover have "n div 10 < 10 ^ k" using Suc.prems by (simp add: less_mult_imp_div_less)
    ultimately have "length (dec_of_nat (n div 10)) \<le> k" by (rule Suc.IH [rotated])
    with False show ?thesis by (simp add: dec_of_nat.simps [of n])
  qed
qed simp

lemma length_fmt_u: "length (fmt_u w) \<le> 10"
proof -
  have "unat w < 2 ^ LENGTH(32)" by (rule unsigned_less)
  then show ?thesis unfolding fmt_u_def by (intro length_dec_of_nat) simp_all
qed

lemma fmt_u_not: "is_digit d = False \<Longrightarrow> d \<notin> set (fmt_u w)"
  using dec_of_nat_digits by (auto simp: fmt_u_def)

section \<open>Signed numbers\<close>

lemma scan_u_neg:
  assumes "0 < n" "n < 2 ^ 64"
  shows "scan_u (CHR ''-'' # dec_of_nat n) = Some (- of_nat n, [])"
proof -
  have tw: "takeWhile is_digit (dec_of_nat n) = dec_of_nat n" "dropWhile is_digit (dec_of_nat n) = []"
    using dec_of_nat_digits by (auto simp: takeWhile_eq_all_conv dropWhile_eq_Nil_conv)
  show ?thesis
    using assms dec_of_nat_ne [of n] by (simp add: scan_u_def scan_dec_def Let_def tw is_space_def dec_value_of_nat strtoul_u32_def)
qed

lemma fmt_d_nonneg:
  assumes "0 \<le> i" "i < 2 ^ 31"
  shows "fmt_d i = fmt_u (u32_of_int i) \<and> unat (u32_of_int i) = nat i"
proof -
  have "unat (u32_of_int i) = nat i"
    using assms by (simp add: u32_of_int_def unat_eq_nat_uint uint_word_of_int_eq take_bit_int_eq_self)
  with assms show ?thesis by (simp add: fmt_d_def fmt_u_def)
qed

lemma int_of_u32_bounds: "- (2 ^ 31) \<le> int_of_u32 w \<and> int_of_u32 w < 2 ^ 31"
  using sint_greater_eq [of w] sint_less [of w] by (simp add: int_of_u32_def)

lemma scan_u_fmt_d: "scan_u (fmt_d (int_of_u32 jid)) = Some (jid, [])"
proof (cases "int_of_u32 jid < 0")
  case True
  have "scan_u (CHR ''-'' # dec_of_nat (nat (- int_of_u32 jid))) = Some (- of_nat (nat (- int_of_u32 jid)), [])"
    using True int_of_u32_bounds [of jid] by (intro scan_u_neg) (simp_all add: nat_less_iff)
  moreover have "- of_nat (nat (- int_of_u32 jid)) = jid"
    using True u32_of_int_of_u32 [of jid] by (simp add: u32_of_int_def of_nat_nat)
  ultimately show ?thesis using True by (simp add: fmt_d_def)
next
  case False
  then have "fmt_d (int_of_u32 jid) = fmt_u jid" using fmt_d_nonneg [of "int_of_u32 jid"] int_of_u32_bounds [of jid] by simp
  then show ?thesis using scan_u_fmt_u [of "[]" jid] by simp
qed

lemma fmt_d_chars: "c \<in> set (fmt_d i) \<Longrightarrow> is_digit c \<or> c = CHR ''-''"
  using dec_of_nat_digits by (auto simp: fmt_d_def split: if_splits)

lemma fmt_d_start: "dropWhile is_space (fmt_d i) = fmt_d i"
proof (cases "fmt_d i")
  case (Cons c s)
  then have "\<not> is_space c" using fmt_d_chars [of c i] digit_not_space by (auto simp: is_space_def)
  with Cons show ?thesis by simp
qed simp

lemma length_fmt_d: "length (fmt_d (int_of_u32 w)) \<le> 11"
proof -
  have "length (dec_of_nat (nat \<bar>int_of_u32 w\<bar>)) \<le> 10"
    using int_of_u32_bounds [of w] by (intro length_dec_of_nat) (auto simp: nat_less_iff)
  then show ?thesis by (auto simp: fmt_d_def split: if_splits)
qed

end
