(* ===== verification/Local_Resource.thy ===== *)
theory Local_Resource
  imports Tablahash C_Strings
begin

text \<open>
  The inventory of the node, \<^verbatim>\<open>c_agent/src/resources/local_resource.c\<close>: what is available of each
  resource, the table of granted reservations (keyed by job, socket and resource type) and a queue
  of waiting requests per type. The arrays indexed by \<^verbatim>\<open>resource_t\<close> are functions of it;
  \<^const>\<open>INVALID_RES_TYPE\<close> is an index out of range, and using it is undefined.

  An argument \<open>mem\<close> says which of the \<^verbatim>\<open>malloc\<close> calls of the operation succeed, \<open>rnd\<close> is the value
  of \<^verbatim>\<open>rand ()\<close>. \<open>lr_inv\<close> is the safety invariant (nothing is granted twice), \<open>lr_exact\<close> adds that
  nothing is lost.
\<close>

section \<open>Data\<close>

record elem_active_job_t =
  aj_job_id :: u32
  aj_socket :: u32
  aj_resource_quantity :: u32
  aj_resource_type :: resource_t

record elem_job_request_t =
  jr_job_id :: u32
  jr_socket :: u32
  jr_resource_quantity :: u32
  jr_resource_type :: resource_t

record sweep_context_t =
  target_socket :: u32
  to_delete :: "elem_active_job_t list"
  sweep_max :: nat

record local_resources_t =
  total :: "resource_t \<Rightarrow> u32"
  avail :: "resource_t \<Rightarrow> u32"
  request_queue :: "resource_t \<Rightarrow> elem_job_request_t queue_t"

type_synonym active_jobs_t = "elem_active_job_t TablaHash"

section \<open>Helpers of the table and of the queues\<close>

definition copy_active_job :: "elem_active_job_t \<Rightarrow> elem_active_job_t" where
  "copy_active_job e = e"

definition comp_active_job :: "elem_active_job_t \<Rightarrow> elem_active_job_t \<Rightarrow> int" where
  "comp_active_job a b =
     (if aj_job_id a \<noteq> aj_job_id b \<or> aj_socket a \<noteq> aj_socket b \<or>
         aj_resource_type a \<noteq> aj_resource_type b then 1 else 0)"

definition hash_active_job :: "elem_active_job_t \<Rightarrow> u32" where
  "hash_active_job e =
     ((aj_job_id e * 31) + aj_socket e) * of_nat RES_NUM + of_nat (res_index (aj_resource_type e))"

definition create_elem_active_job ::
  "bool \<Rightarrow> u32 \<Rightarrow> u32 \<Rightarrow> u32 \<Rightarrow> resource_t \<Rightarrow> elem_active_job_t option" where
  "create_elem_active_job mem jid socket quantity type =
     (if \<not> mem then None
      else Some \<lparr>aj_job_id = jid, aj_socket = socket, aj_resource_quantity = quantity,
                 aj_resource_type = type\<rparr>)"

definition create_active_jobs_table :: active_jobs_t where
  "create_active_jobs_table = tablahash_crear 11 copy_active_job comp_active_job hash_active_job"

definition copy_job_request :: "elem_job_request_t \<Rightarrow> elem_job_request_t" where
  "copy_job_request e = e"

definition comp_job_request :: "elem_job_request_t \<Rightarrow> elem_job_request_t \<Rightarrow> int" where
  "comp_job_request a b =
     (if jr_job_id a \<noteq> jr_job_id b \<or> jr_resource_type a \<noteq> jr_resource_type b \<or>
         jr_socket a \<noteq> jr_socket b then 1 else 0)"

definition comp_job_request_by_socket :: "elem_job_request_t \<Rightarrow> u32 \<Rightarrow> int" where
  "comp_job_request_by_socket a socket = (if jr_socket a \<noteq> socket then 1 else 0)"

definition create_job_request ::
  "bool \<Rightarrow> u32 \<Rightarrow> u32 \<Rightarrow> u32 \<Rightarrow> resource_t \<Rightarrow> elem_job_request_t option" where
  "create_job_request mem jid socket quantity type =
     (if \<not> mem then None
      else Some \<lparr>jr_job_id = jid, jr_socket = socket, jr_resource_quantity = quantity,
                 jr_resource_type = type\<rparr>)"

section \<open>The inventory\<close>

definition create_local_resource :: "bool \<Rightarrow> u32 \<Rightarrow> u32 \<Rightarrow> u32 \<Rightarrow> local_resources_t option" where
  "create_local_resource mem cpu gpu ram =
     (if \<not> mem then None
      else
        let out = \<lparr>total = (\<lambda>_. 0)(CPU := cpu, GPU := gpu, RAM := ram),
                   avail = (\<lambda>_. 0), request_queue = (\<lambda>_. [])\<rparr>
        in Some (fold (\<lambda>t out. out\<lparr>avail := (avail out)(t := total out t),
                     request_queue := (request_queue out)(t := queue_create)\<rparr>) res_types out))"

text \<open>The requests handed to \<^verbatim>\<open>dest_job_request\<close>.\<close>

definition delete_local_resource :: "local_resources_t \<Rightarrow> elem_job_request_t list" where
  "delete_local_resource resources =
     concat (map (\<lambda>idx. queue_destroy (request_queue resources idx)) res_types)"

text \<open>The result is -1 for a request that is denied, 0 for one that waits, 1 for a grant.\<close>

definition new_job_request ::
  "bool \<Rightarrow> local_resources_t \<Rightarrow> active_jobs_t \<Rightarrow> u32 \<Rightarrow> u32 \<Rightarrow> u32 \<Rightarrow> resource_t \<Rightarrow>
   (int \<times> local_resources_t \<times> active_jobs_t) result" where
  "new_job_request mem resources active_jobs jid socket quantity type =
     (if type = INVALID_RES_TYPE then None
      else if total resources type < quantity then Some (- 1, resources, active_jobs)
      else if avail resources type < quantity then
        (case create_job_request mem jid socket quantity type of
           None \<Rightarrow> Some (0, resources, active_jobs)
         | Some new \<Rightarrow>
             Some (0, resources\<lparr>request_queue := (request_queue resources)
                        (type := queue_add (request_queue resources type) new copy_job_request)\<rparr>,
                   active_jobs))
      else
        let resources' =
              resources\<lparr>avail := (avail resources)(type := avail resources type - quantity)\<rparr>
        in case create_elem_active_job mem jid socket quantity type of
             None \<Rightarrow> None
           | Some e \<Rightarrow>
               (case tablahash_insertar active_jobs e of
                  None \<Rightarrow> None
                | Some active_jobs' \<Rightarrow> Some (1, resources', active_jobs')))"

text \<open>The traversal of one queue: the first request that fits.\<close>

fun chk_cola :: "u32 \<Rightarrow> elem_job_request_t queue_t \<Rightarrow> elem_job_request_t option" where
  "chk_cola av [] = None"
| "chk_cola av (act_elem # act) =
     (if av < jr_resource_quantity act_elem then chk_cola av act else Some act_elem)"

text \<open>
  The loop over the resource types, on the indices still to visit. \<open>out_socket\<close> is what the caller's
  variable holds, \<open>None\<close> for a NULL pointer.
\<close>

fun chk_bucle :: "(nat \<Rightarrow> bool) \<Rightarrow> nat \<Rightarrow> nat list \<Rightarrow> int \<Rightarrow> u32 option \<Rightarrow> local_resources_t \<Rightarrow>
    active_jobs_t \<Rightarrow> (int \<times> u32 option \<times> local_resources_t \<times> active_jobs_t) result" where
  "chk_bucle mem init [] out out_socket resources active_jobs =
     Some (out, out_socket, resources, active_jobs)"
| "chk_bucle mem init (idx # idxs) out out_socket resources active_jobs =
     (if out \<noteq> - 1 then Some (out, out_socket, resources, active_jobs)
      else
        let type = res_of ((init + idx) mod RES_NUM)
        in case chk_cola (avail resources type) (request_queue resources type) of
             None \<Rightarrow> chk_bucle mem init idxs out out_socket resources active_jobs
           | Some act_elem \<Rightarrow>
               (case create_elem_active_job (mem idx) (jr_job_id act_elem) (jr_socket act_elem)
                       (jr_resource_quantity act_elem) type of
                  None \<Rightarrow> None
                | Some e \<Rightarrow>
                    (case tablahash_insertar active_jobs e of
                       None \<Rightarrow> None
                     | Some active_jobs' \<Rightarrow>
                         chk_bucle mem init idxs (int_of_u32 (jr_job_id act_elem))
                           (map_option (\<lambda>_. jr_socket act_elem) out_socket)
                           (resources
                             \<lparr>avail := (avail resources)
                                (type := avail resources type - jr_resource_quantity act_elem),
                              request_queue := (request_queue resources)
                                (type := queue_delete (request_queue resources type) act_elem
                                           comp_job_request)\<rparr>)
                           active_jobs')))"

definition chk_job_request :: "nat \<Rightarrow> (nat \<Rightarrow> bool) \<Rightarrow> local_resources_t \<Rightarrow> active_jobs_t \<Rightarrow> string \<Rightarrow>
    nat \<Rightarrow> u32 option \<Rightarrow> (int \<times> string \<times> u32 option \<times> local_resources_t \<times> active_jobs_t) result" where
  "chk_job_request rnd mem resources active_jobs OUT OUT_SIZE out_socket =
     (case chk_bucle mem (rnd mod RES_NUM) [0..<RES_NUM] (- 1) out_socket resources active_jobs of
        None \<Rightarrow> None
      | Some (out, out_socket', resources', active_jobs') \<Rightarrow>
          Some (out,
                if out \<noteq> - 1 then snprintf OUT_SIZE (''GRANTED '' @ fmt_d out @ ''\<newline>'') else OUT,
                out_socket', resources', active_jobs'))"

section \<open>Releasing\<close>

fun del_active_bucle :: "(resource_t \<Rightarrow> bool) \<Rightarrow> u32 \<Rightarrow> u32 \<Rightarrow> resource_t list \<Rightarrow> local_resources_t \<Rightarrow>
    active_jobs_t \<Rightarrow> (local_resources_t \<times> active_jobs_t) result" where
  "del_active_bucle mem job_id socket [] resources jobs = Some (resources, jobs)"
| "del_active_bucle mem job_id socket (type # types) resources jobs =
     (case create_elem_active_job (mem type) job_id socket 0 type of
        None \<Rightarrow> Some (resources, jobs)
      | Some dummy \<Rightarrow>
          (case tablahash_buscar jobs dummy of
             None \<Rightarrow> None
           | Some None \<Rightarrow> del_active_bucle mem job_id socket types resources jobs
           | Some (Some job_actual) \<Rightarrow>
               let r = aj_resource_type job_actual;
                   resources' = resources\<lparr>avail := (avail resources)
                     (r := avail resources r + aj_resource_quantity job_actual)\<rparr>
               in case tablahash_eliminar jobs dummy of
                    None \<Rightarrow> None
                  | Some jobs' \<Rightarrow> del_active_bucle mem job_id socket types resources' jobs'))"

definition del_active_job :: "(resource_t \<Rightarrow> bool) \<Rightarrow> local_resources_t \<Rightarrow> active_jobs_t \<Rightarrow> u32 \<Rightarrow> u32 \<Rightarrow>
    (local_resources_t \<times> active_jobs_t) result" where
  "del_active_job mem resources jobs job_id socket =
     del_active_bucle mem job_id socket res_types resources jobs"

text \<open>
  The two loops that purge a queue restart from its head after a deletion; the pointer \<^verbatim>\<open>act\<close> is the
  position \<open>k\<close> in the queue.
\<close>

function del_pending_bucle ::
  "u32 \<Rightarrow> u32 \<Rightarrow> elem_job_request_t queue_t \<Rightarrow> nat \<Rightarrow> elem_job_request_t queue_t" where
  "del_pending_bucle job_id socket q k =
     (if k < length q then
        (let elem = q ! k in
         if jr_job_id elem = job_id \<and> jr_socket elem = socket
         then del_pending_bucle job_id socket (queue_delete q elem comp_job_request) 0
         else del_pending_bucle job_id socket q (Suc k))
      else q)"
  by pat_completeness auto
termination
  by (relation "measures [\<lambda>(j, s, q, k). length q, \<lambda>(j, s, q, k). length q - k]")
    (auto simp: comp_job_request_def intro!: queue_delete_shrinks)

definition del_pending_job_requests :: "local_resources_t \<Rightarrow> u32 \<Rightarrow> u32 \<Rightarrow> local_resources_t" where
  "del_pending_job_requests resources job_id socket =
     fold (\<lambda>type r. r\<lparr>request_queue := (request_queue r)
             (type := del_pending_bucle job_id socket (request_queue r type) 0)\<rparr>)
       res_types resources"

definition check_dead_socket :: "elem_active_job_t \<Rightarrow> sweep_context_t \<Rightarrow> sweep_context_t" where
  "check_dead_socket job ctx =
     (if aj_socket job = target_socket ctx \<and> length (to_delete ctx) < sweep_max ctx
      then ctx\<lparr>to_delete := to_delete ctx @ [job]\<rparr> else ctx)"

fun free_active_bucle :: "elem_active_job_t list \<Rightarrow> local_resources_t \<Rightarrow> active_jobs_t \<Rightarrow>
    (local_resources_t \<times> active_jobs_t) result" where
  "free_active_bucle [] resources jobs = Some (resources, jobs)"
| "free_active_bucle (dead_job # js) resources jobs =
     (let r = aj_resource_type dead_job;
          resources' = resources\<lparr>avail := (avail resources)
            (r := avail resources r + aj_resource_quantity dead_job)\<rparr>
      in case tablahash_eliminar jobs dead_job of
           None \<Rightarrow> None
         | Some jobs' \<Rightarrow> free_active_bucle js resources' jobs')"

function free_pending_bucle ::
  "u32 \<Rightarrow> elem_job_request_t queue_t \<Rightarrow> nat \<Rightarrow> elem_job_request_t queue_t" where
  "free_pending_bucle socket q k =
     (if k < length q then
        (if jr_socket (q ! k) = socket
         then free_pending_bucle socket (queue_delete q socket comp_job_request_by_socket) 0
         else free_pending_bucle socket q (Suc k))
      else q)"
  by pat_completeness auto
termination
  by (relation "measures [\<lambda>(s, q, k). length q, \<lambda>(s, q, k). length q - k]")
    (auto simp: comp_job_request_by_socket_def intro!: queue_delete_shrinks)

declare del_pending_bucle.simps [simp del] free_pending_bucle.simps [simp del]

definition SWEEP_MAX :: nat where
  "SWEEP_MAX = 100"

definition free_all_resources_from_socket :: "bool \<Rightarrow> local_resources_t \<Rightarrow> active_jobs_t \<Rightarrow> u32 \<Rightarrow>
    (local_resources_t \<times> active_jobs_t) result" where
  "free_all_resources_from_socket mem resources jobs socket =
     (case
        (if mem then
           let ctx = tablahash_visitar_extra jobs check_dead_socket
                       \<lparr>target_socket = socket, to_delete = [], sweep_max = SWEEP_MAX\<rparr>
           in free_active_bucle (to_delete ctx) resources jobs
         else Some (resources, jobs)) of
        None \<Rightarrow> None
      | Some (resources', jobs') \<Rightarrow>
          Some (fold (\<lambda>type r. r\<lparr>request_queue := (request_queue r)
                        (type := free_pending_bucle socket (request_queue r type) 0)\<rparr>)
                  res_types resources', jobs'))"

text \<open>What is stored through the three pointers.\<close>

definition get_local_resources :: "local_resources_t \<Rightarrow> u32 \<times> u32 \<times> u32" where
  "get_local_resources resources = (avail resources CPU, avail resources GPU, avail resources RAM)"

section \<open>The table of granted reservations\<close>

definition aj_key :: "elem_active_job_t \<Rightarrow> u32 \<times> u32 \<times> resource_t" where
  "aj_key e = (aj_job_id e, aj_socket e, aj_resource_type e)"

abbreviation aj_inv :: "active_jobs_t \<Rightarrow> bool" where
  "aj_inv \<equiv> th_inv aj_key hash_active_job comp_active_job"

lemma copy_active_job_id: "copy_active_job = (\<lambda>x. x)"
  by (rule ext) (simp add: copy_active_job_def)

interpretation aj: tablahash aj_key hash_active_job comp_active_job
  by unfold_locales (auto simp: comp_active_job_def hash_active_job_def aj_key_def)

lemma create_active_jobs_table_inv:
  "aj_inv create_active_jobs_table \<and> th_set create_active_jobs_table = {}"
  unfolding create_active_jobs_table_def copy_active_job_id by (rule aj.crear_inv) simp_all

text \<open>What is granted of a resource, by one reservation and over all of them.\<close>

definition aj_amount :: "resource_t \<Rightarrow> elem_active_job_t \<Rightarrow> nat" where
  "aj_amount r e = (if aj_resource_type e = r then unat (aj_resource_quantity e) else 0)"

definition held :: "active_jobs_t \<Rightarrow> resource_t \<Rightarrow> nat" where
  "held jobs r = sum (aj_amount r) (th_set jobs)"

lemma held_ins:
  assumes "aj_inv jobs" "tablahash_insertar jobs e = Some jobs'"
  shows "held jobs' r \<le> held jobs r + aj_amount r e"
  using aj.sum_ins [OF assms, where f = "aj_amount r"]
    aj.sum_without_le [where f = "aj_amount r" and t = jobs and d = e]
  by (simp add: held_def)

lemma held_ins_fresh:
  assumes "aj_inv jobs" "tablahash_insertar jobs e = Some jobs'" "aj_key e \<notin> aj_key ` th_set jobs"
  shows "held jobs' r = held jobs r + aj_amount r e"
proof -
  have "tablahash_buscar jobs e = Some None"
    using aj.find_None [OF assms(1)] assms(3) by (metis image_eqI)
  from aj.sum_ins_fresh [OF assms(1,2) this, where f = "aj_amount r"] show ?thesis
    by (simp add: held_def)
qed

lemma held_del:
  assumes "aj_inv jobs" "tablahash_buscar jobs d = Some (Some y)" "tablahash_eliminar jobs d = Some jobs'"
  shows "held jobs r = held jobs' r + aj_amount r y"
  using aj.sum_del [OF assms, where f = "aj_amount r"] by (simp add: held_def)

section \<open>Invariants\<close>

text \<open>
  Never more granted than there is: of every resource, what is available and what is granted
  together do not pass the total. Waiting requests are of their queue's type and could be granted
  on an idle node.
\<close>

definition lr_inv :: "local_resources_t \<Rightarrow> active_jobs_t \<Rightarrow> bool" where
  "lr_inv resources jobs \<longleftrightarrow>
     aj_inv jobs \<and> (\<forall>e \<in> th_set jobs. aj_resource_type e \<noteq> INVALID_RES_TYPE) \<and>
     (\<forall>r. r \<noteq> INVALID_RES_TYPE \<longrightarrow>
        unat (avail resources r) + held jobs r \<le> unat (total resources r) \<and>
        (\<forall>q \<in> set (request_queue resources r).
           jr_resource_type q = r \<and> jr_resource_quantity q \<le> total resources r))"

lemma lr_invD:
  assumes "lr_inv resources jobs"
  shows "aj_inv jobs" "\<And>e. e \<in> th_set jobs \<Longrightarrow> aj_resource_type e \<noteq> INVALID_RES_TYPE"
    "\<And>r. r \<noteq> INVALID_RES_TYPE \<Longrightarrow> unat (avail resources r) + held jobs r \<le> unat (total resources r)"
    "\<And>r q. r \<noteq> INVALID_RES_TYPE \<Longrightarrow> q \<in> set (request_queue resources r) \<Longrightarrow>
       jr_resource_type q = r \<and> jr_resource_quantity q \<le> total resources r"
  using assms by (auto simp: lr_inv_def)

text \<open>A grant: the amount leaves the pool and the reservation enters the table.\<close>

lemma lr_inv_grant:
  assumes inv: "lr_inv resources jobs" and r: "r \<noteq> INVALID_RES_TYPE"
    and q: "aj_resource_quantity e \<le> avail resources r" "aj_resource_type e = r"
    and ins: "tablahash_insertar jobs e = Some jobs'"
  shows "lr_inv (resources\<lparr>avail := (avail resources)(r := avail resources r - aj_resource_quantity e)\<rparr>)
    jobs'"
proof -
  note D = lr_invD [OF inv]
  have "unat (aj_resource_quantity e) \<le> unat (avail resources r)"
    using q(1) by (simp add: word_le_nat_alt)
  then have "unat (((avail resources)(r := avail resources r - aj_resource_quantity e)) s) + held jobs' s
      \<le> unat (total resources s)" if "s \<noteq> INVALID_RES_TYPE" for s
    using D(3) [OF that] held_ins [OF D(1) ins, of s] q
    by (cases "s = r") (auto simp: unat_diff_le aj_amount_def)
  with aj.ins_spec [OF D(1) ins] D q(2) r show ?thesis
    by (auto simp: lr_inv_def)
qed

text \<open>A release: the reservation leaves the table and the amount returns to the pool.\<close>

lemma lr_inv_release:
  assumes inv: "lr_inv resources jobs" and y: "tablahash_buscar jobs d = Some (Some y)"
    and del: "tablahash_eliminar jobs d = Some jobs'" and r: "r = aj_resource_type y"
  shows "lr_inv (resources\<lparr>avail := (avail resources)(r := avail resources r + aj_resource_quantity y)\<rparr>)
      jobs' \<and>
    unat (avail resources r + aj_resource_quantity y) =
      unat (avail resources r) + unat (aj_resource_quantity y)"
proof -
  note D = lr_invD [OF inv]
  have "y \<in> th_set jobs" using y aj.find_Some [OF D(1)] by simp
  then have r': "r \<noteq> INVALID_RES_TYPE" using D(2) r by simp
  have "unat (avail resources r) + unat (aj_resource_quantity y) \<le> unat (total resources r)"
    using D(3) [OF r'] held_del [OF D(1) y del, of r] r by (simp add: aj_amount_def)
  from unat_add_le [OF this] have sum: "unat (avail resources r + aj_resource_quantity y) =
      unat (avail resources r) + unat (aj_resource_quantity y)" .
  have "unat (((avail resources)(r := avail resources r + aj_resource_quantity y)) s) + held jobs' s
      \<le> unat (total resources s)" if "s \<noteq> INVALID_RES_TYPE" for s
    using D(3) [OF that] held_del [OF D(1) y del, of s] sum r
    by (cases "s = r") (auto simp: aj_amount_def)
  with aj.del_spec [OF D(1) del] D sum show ?thesis
    by (auto simp: lr_inv_def)
qed

lemma lr_inv_queue:
  assumes inv: "lr_inv resources jobs"
    and q: "\<And>x. x \<in> set q \<Longrightarrow> jr_resource_type x = r \<and> jr_resource_quantity x \<le> total resources r"
  shows "lr_inv (resources\<lparr>request_queue := (request_queue resources)(r := q)\<rparr>) jobs"
  using lr_invD [OF inv] q by (auto simp: lr_inv_def)

section \<open>Requests keep the invariant\<close>

text \<open>The three branches of \<^verbatim>\<open>new_job_request\<close>.\<close>

lemma new_job_request_branches:
  assumes "type \<noteq> INVALID_RES_TYPE"
  shows "total resources type < quantity \<Longrightarrow>
      new_job_request mem resources jobs jid socket quantity type = Some (- 1, resources, jobs)"
    and "quantity \<le> total resources type \<Longrightarrow> avail resources type < quantity \<Longrightarrow>
      new_job_request mem resources jobs jid socket quantity type =
        Some (0, if mem then resources\<lparr>request_queue := (request_queue resources)(type :=
             request_queue resources type @ [\<lparr>jr_job_id = jid, jr_socket = socket,
               jr_resource_quantity = quantity, jr_resource_type = type\<rparr>])\<rparr> else resources, jobs)"
    and "quantity \<le> total resources type \<Longrightarrow> quantity \<le> avail resources type \<Longrightarrow>
      new_job_request mem resources jobs jid socket quantity type =
        (if mem then
           map_option (\<lambda>jobs'. (1, resources\<lparr>avail := (avail resources)
               (type := avail resources type - quantity)\<rparr>, jobs'))
             (tablahash_insertar jobs \<lparr>aj_job_id = jid, aj_socket = socket,
                aj_resource_quantity = quantity, aj_resource_type = type\<rparr>)
         else None)"
  using assms
  by (simp_all add: new_job_request_def create_job_request_def create_elem_active_job_def
      copy_job_request_def Let_def not_less split: option.split)

lemma new_job_request_inv:
  assumes inv: "lr_inv resources jobs"
    and new: "new_job_request mem resources jobs jid socket quantity type = Some (c, resources', jobs')"
  shows "lr_inv resources' jobs' \<and> total resources' = total resources"
proof -
  have type: "type \<noteq> INVALID_RES_TYPE" using new by (auto simp: new_job_request_def)
  note B = new_job_request_branches [OF type]
  consider (denied) "total resources type < quantity"
    | (wait) "quantity \<le> total resources type" "avail resources type < quantity"
    | (grant) "quantity \<le> total resources type" "quantity \<le> avail resources type"
    using not_less by blast
  then show ?thesis
  proof cases
    case denied
    with inv new B(1) show ?thesis by simp
  next
    case wait
    show ?thesis
    proof (cases mem)
      case True
      let ?x = "\<lparr>jr_job_id = jid, jr_socket = socket, jr_resource_quantity = quantity,
        jr_resource_type = type\<rparr>"
      have "lr_inv (resources\<lparr>request_queue := (request_queue resources)
          (type := request_queue resources type @ [?x])\<rparr>) jobs"
        by (rule lr_inv_queue [OF inv]) (use lr_invD(4) [OF inv type] wait(1) in auto)
      with True new B(2) [OF wait] show ?thesis by auto
    qed (use inv new B(2) [OF wait] in simp)
  next
    case grant
    let ?e = "\<lparr>aj_job_id = jid, aj_socket = socket, aj_resource_quantity = quantity,
      aj_resource_type = type\<rparr>"
    have "tablahash_insertar jobs ?e = Some jobs'" "resources' = resources\<lparr>avail :=
        (avail resources)(type := avail resources type - quantity)\<rparr>"
      using new B(3) [OF grant] by (auto split: if_splits)
    with lr_inv_grant [OF inv type, of ?e jobs'] grant(2) show ?thesis by simp
  qed
qed

lemma chk_cola_None: "chk_cola av q = None \<longleftrightarrow> (\<forall>x \<in> set q. av < jr_resource_quantity x)"
  by (induction q) auto

lemma chk_cola_Some:
  "chk_cola av q = Some e \<Longrightarrow>
     \<exists>p s. q = p @ e # s \<and> jr_resource_quantity e \<le> av \<and> (\<forall>x \<in> set p. av < jr_resource_quantity x)"
proof (induction q)
  case (Cons x q)
  show ?case
  proof (cases "av < jr_resource_quantity x")
    case True
    with Cons obtain p s where "q = p @ e # s" "jr_resource_quantity e \<le> av"
      "\<forall>x \<in> set p. av < jr_resource_quantity x" by auto
    with True show ?thesis by (intro exI [of _ "x # p"] exI [of _ s]) auto
  next
    case False
    with Cons.prems show ?thesis by (intro exI [of _ "[]"] exI [of _ q]) auto
  qed
qed simp

lemma res_of_mod: "res_of (n mod RES_NUM) \<noteq> INVALID_RES_TYPE"
proof -
  have "n mod 3 < 3" by simp
  then show ?thesis unfolding res_of_def RES_NUM_def by (auto split: if_splits)
qed

text \<open>The state after the request \<open>x\<close> of the queue of type \<open>r\<close> was granted.\<close>

definition lr_serve :: "local_resources_t \<Rightarrow> resource_t \<Rightarrow> elem_job_request_t \<Rightarrow> local_resources_t" where
  "lr_serve resources r x = resources
     \<lparr>avail := (avail resources)(r := avail resources r - jr_resource_quantity x),
      request_queue := (request_queue resources)
        (r := queue_delete (request_queue resources r) x comp_job_request)\<rparr>"

definition aj_of :: "elem_job_request_t \<Rightarrow> resource_t \<Rightarrow> elem_active_job_t" where
  "aj_of x r = \<lparr>aj_job_id = jr_job_id x, aj_socket = jr_socket x,
     aj_resource_quantity = jr_resource_quantity x, aj_resource_type = r\<rparr>"

text \<open>Case analysis of one round of the loop over the types.\<close>

lemma chk_bucle_cases:
  assumes "chk_bucle mem init (idx # idxs) (- 1) sock resources jobs = Some res"
  obtains (skip) "chk_cola (avail resources (res_of ((init + idx) mod RES_NUM)))
        (request_queue resources (res_of ((init + idx) mod RES_NUM))) = None"
      "chk_bucle mem init idxs (- 1) sock resources jobs = Some res"
  | (grant) r x jobs' where "r = res_of ((init + idx) mod RES_NUM)" "r \<noteq> INVALID_RES_TYPE"
      "chk_cola (avail resources r) (request_queue resources r) = Some x"
      "tablahash_insertar jobs (aj_of x r) = Some jobs'"
      "chk_bucle mem init idxs (int_of_u32 (jr_job_id x)) (map_option (\<lambda>_. jr_socket x) sock)
         (lr_serve resources r x) jobs' = Some res"
  using assms res_of_mod [of "init + idx"]
  by (auto simp: Let_def create_elem_active_job_def lr_serve_def aj_of_def split: option.splits if_splits)

lemma lr_inv_serve:
  assumes inv: "lr_inv resources jobs" and r: "r \<noteq> INVALID_RES_TYPE"
    and x: "chk_cola (avail resources r) (request_queue resources r) = Some x"
    and ins: "tablahash_insertar jobs (aj_of x r) = Some jobs'"
  shows "lr_inv (lr_serve resources r x) jobs'"
proof -
  have q: "jr_resource_quantity x \<le> avail resources r" using chk_cola_Some [OF x] by auto
  let ?R = "resources\<lparr>avail := (avail resources)(r := avail resources r - jr_resource_quantity x)\<rparr>"
  have 1: "lr_inv ?R jobs'" using lr_inv_grant [OF inv r _ _ ins] q by (simp add: aj_of_def)
  have "lr_inv (?R\<lparr>request_queue := (request_queue ?R)
      (r := queue_delete (request_queue resources r) x comp_job_request)\<rparr>) jobs'"
    using lr_invD(4) [OF inv r] set_queue_delete [of "request_queue resources r" x comp_job_request]
    by (intro lr_inv_queue [OF 1]) auto
  then show ?thesis by (simp add: lr_serve_def)
qed

lemma chk_bucle_stop:
  "out \<noteq> - 1 \<Longrightarrow> chk_bucle mem init idxs out sock resources jobs = Some (out, sock, resources, jobs)"
  by (cases idxs) simp_all

lemma chk_bucle_inv:
  assumes "lr_inv resources jobs"
    and "chk_bucle mem init idxs out sock resources jobs = Some (out', sock', resources', jobs')"
  shows "lr_inv resources' jobs' \<and> total resources' = total resources"
  using assms
proof (induction idxs arbitrary: out sock resources jobs)
  case (Cons idx idxs)
  show ?case
  proof (cases "out = - 1")
    case False
    with Cons.prems show ?thesis by simp
  next
    case True
    with Cons.prems(2) have "chk_bucle mem init (idx # idxs) (- 1) sock resources jobs =
        Some (out', sock', resources', jobs')" by simp
    then show ?thesis
    proof (cases rule: chk_bucle_cases)
      case skip
      with Cons show ?thesis by blast
    next
      case (grant r x jobs1)
      from Cons.IH [OF lr_inv_serve [OF Cons.prems(1) grant(2-4)] grant(5)]
      show ?thesis by (simp add: lr_serve_def)
    qed
  qed
qed simp

lemma chk_job_request_inv:
  assumes "lr_inv resources jobs"
    and "chk_job_request rnd mem resources jobs OUT n sock = Some (out, OUT', sock', resources', jobs')"
  shows "lr_inv resources' jobs' \<and> total resources' = total resources"
  using assms chk_bucle_inv [OF assms(1)]
  by (auto simp: chk_job_request_def split: option.splits)

section \<open>Releases keep the invariant and the balance\<close>

text \<open>What is available and what is granted of a resource, together.\<close>

definition balance :: "local_resources_t \<Rightarrow> active_jobs_t \<Rightarrow> resource_t \<Rightarrow> nat" where
  "balance resources jobs r = unat (avail resources r) + held jobs r"

lemma balance_release:
  assumes inv: "lr_inv resources jobs" and y: "tablahash_buscar jobs d = Some (Some y)"
    and del: "tablahash_eliminar jobs d = Some jobs'" and r: "r = aj_resource_type y"
  shows "balance (resources\<lparr>avail := (avail resources)
      (r := avail resources r + aj_resource_quantity y)\<rparr>) jobs' s = balance resources jobs s"
  using held_del [OF lr_invD(1) [OF inv] y del, of s] lr_inv_release [OF inv y del r] r
  by (cases "s = r") (auto simp: balance_def aj_amount_def)

lemma del_active_bucle_spec:
  assumes "lr_inv resources jobs"
    and "del_active_bucle mem jid socket types resources jobs = Some (resources', jobs')"
  shows "lr_inv resources' jobs' \<and> total resources' = total resources \<and>
    request_queue resources' = request_queue resources \<and> th_set jobs' \<subseteq> th_set jobs \<and>
    balance resources' jobs' = balance resources jobs"
  using assms
proof (induction types arbitrary: resources jobs)
  case (Cons type types)
  show ?case
  proof (cases "mem type")
    case False
    with Cons.prems show ?thesis by (simp add: create_elem_active_job_def)
  next
    case True
    let ?d = "\<lparr>aj_job_id = jid, aj_socket = socket, aj_resource_quantity = 0, aj_resource_type = type\<rparr>"
    obtain f where f: "tablahash_buscar jobs ?d = Some f"
      using aj.find_total lr_invD(1) [OF Cons.prems(1)] by blast
    show ?thesis
    proof (cases f)
      case None
      with Cons True f show ?thesis by (simp add: create_elem_active_job_def)
    next
      case (Some y)
      let ?r = "aj_resource_type y"
      let ?R = "resources\<lparr>avail := (avail resources)(?r := avail resources ?r + aj_resource_quantity y)\<rparr>"
      from Cons.prems(2) True f Some obtain jobs1 where
        del: "tablahash_eliminar jobs ?d = Some jobs1"
        and rest: "del_active_bucle mem jid socket types ?R jobs1 = Some (resources', jobs')"
        by (auto simp: create_elem_active_job_def Let_def split: option.splits)
      have y: "tablahash_buscar jobs ?d = Some (Some y)" using f Some by simp
      have "lr_inv ?R jobs1" using lr_inv_release [OF Cons.prems(1) y del refl] by simp
      from Cons.IH [OF this rest] balance_release [OF Cons.prems(1) y del refl]
        aj.del_spec [OF lr_invD(1) [OF Cons.prems(1)] del]
      show ?thesis by (auto simp: fun_eq_iff)
    qed
  qed
qed simp

text \<open>With enough memory every reservation of the job is gone.\<close>

lemma del_active_bucle_total:
  assumes "lr_inv resources jobs" "\<And>t. mem t"
  shows "\<exists>resources' jobs'. del_active_bucle mem jid socket types resources jobs = Some (resources', jobs') \<and>
    th_set jobs' = {e \<in> th_set jobs.
      \<not> (aj_job_id e = jid \<and> aj_socket e = socket \<and> aj_resource_type e \<in> set types)}"
  using assms(1)
proof (induction types arbitrary: resources jobs)
  case (Cons type types)
  let ?d = "\<lparr>aj_job_id = jid, aj_socket = socket, aj_resource_quantity = 0, aj_resource_type = type\<rparr>"
  note I = lr_invD(1) [OF Cons.prems]
  have dk: "aj_key e = aj_key ?d \<longleftrightarrow> aj_job_id e = jid \<and> aj_socket e = socket \<and> aj_resource_type e = type"
    for e by (auto simp: aj_key_def)
  obtain f where f: "tablahash_buscar jobs ?d = Some f" using aj.find_total [OF I] by blast
  show ?case
  proof (cases f)
    case None
    then have none: "\<forall>e \<in> th_set jobs.
        \<not> (aj_job_id e = jid \<and> aj_socket e = socket \<and> aj_resource_type e = type)"
      using aj.find_None [OF I, of ?d] f dk by auto
    then have "{e \<in> th_set jobs.
        \<not> (aj_job_id e = jid \<and> aj_socket e = socket \<and> aj_resource_type e \<in> set (type # types))} =
      {e \<in> th_set jobs. \<not> (aj_job_id e = jid \<and> aj_socket e = socket \<and> aj_resource_type e \<in> set types)}"
      by (intro Collect_cong) auto
    with Cons.IH [OF Cons.prems] None f assms(2) [of type] show ?thesis
      by (simp add: create_elem_active_job_def)
  next
    case (Some y)
    let ?r = "aj_resource_type y"
    let ?R = "resources\<lparr>avail := (avail resources)(?r := avail resources ?r + aj_resource_quantity y)\<rparr>"
    obtain jobs1 where del: "tablahash_eliminar jobs ?d = Some jobs1" using aj.del_total [OF I] by blast
    have y: "tablahash_buscar jobs ?d = Some (Some y)" using f Some by simp
    have "lr_inv ?R jobs1" using lr_inv_release [OF Cons.prems y del refl] by simp
    from Cons.IH [OF this] obtain resources' jobs' where
      rest: "del_active_bucle mem jid socket types ?R jobs1 = Some (resources', jobs')" and
      set: "th_set jobs' = {e \<in> th_set jobs1.
         \<not> (aj_job_id e = jid \<and> aj_socket e = socket \<and> aj_resource_type e \<in> set types)}" by blast
    have "del_active_bucle mem jid socket (type # types) resources jobs = Some (resources', jobs')"
      using y del assms(2) [of type] rest by (simp add: create_elem_active_job_def)
    moreover have "th_set jobs' = {e \<in> th_set jobs.
        \<not> (aj_job_id e = jid \<and> aj_socket e = socket \<and> aj_resource_type e \<in> set (type # types))}"
      using aj.del_spec [OF I del] set by (auto simp: dk)
    ultimately show ?thesis by blast
  qed
qed simp

lemma del_pending_bucle_eq:
  "(\<forall>x \<in> set (take k q). \<not> (jr_job_id x = jid \<and> jr_socket x = socket)) \<Longrightarrow>
     del_pending_bucle jid socket q k = filter (\<lambda>x. \<not> (jr_job_id x = jid \<and> jr_socket x = socket)) q"
proof (induction jid socket q k rule: del_pending_bucle.induct)
  case (1 jid socket q k)
  let ?P = "\<lambda>x. \<not> (jr_job_id x = jid \<and> jr_socket x = socket)"
  show ?case
  proof (cases "k < length q")
    case False
    with 1 show ?thesis by (simp add: del_pending_bucle.simps [of jid socket q k])
  next
    case True
    show ?thesis
    proof (cases "?P (q ! k)")
      case False
      have "filter ?P (queue_delete q (q ! k) comp_job_request) = filter ?P q"
        by (rule queue_delete_filter_out) (use False in \<open>auto simp: comp_job_request_def\<close>)
      with True False 1 show ?thesis by (simp add: del_pending_bucle.simps [of jid socket q k] Let_def)
    next
      case P: True
      have "\<forall>x \<in> set (take (Suc k) q). ?P x"
        using 1(3) P True by (auto simp: take_Suc_conv_app_nth)
      with True P 1(2) show ?thesis
        by (auto simp: del_pending_bucle.simps [of jid socket q k] Let_def)
    qed
  qed
qed

lemma free_pending_bucle_eq:
  "(\<forall>x \<in> set (take k q). jr_socket x \<noteq> socket) \<Longrightarrow>
     free_pending_bucle socket q k = filter (\<lambda>x. jr_socket x \<noteq> socket) q"
proof (induction socket q k rule: free_pending_bucle.induct)
  case (1 socket q k)
  show ?case
  proof (cases "k < length q")
    case False
    with 1 show ?thesis by (simp add: free_pending_bucle.simps [of socket q k])
  next
    case True
    show ?thesis
    proof (cases "jr_socket (q ! k) = socket")
      case eq: True
      have "filter (\<lambda>x. jr_socket x \<noteq> socket) (queue_delete q socket comp_job_request_by_socket) =
          filter (\<lambda>x. jr_socket x \<noteq> socket) q"
        by (rule queue_delete_filter_out) (auto simp: comp_job_request_by_socket_def)
      with True eq 1 show ?thesis by (simp add: free_pending_bucle.simps [of socket q k])
    next
      case False
      have "\<forall>x \<in> set (take (Suc k) q). jr_socket x \<noteq> socket"
        using 1(3) False True by (auto simp: take_Suc_conv_app_nth)
      with True False 1(2) show ?thesis by (simp add: free_pending_bucle.simps [of socket q k])
    qed
  qed
qed

text \<open>The reservations the sweep collects: the first hundred of the socket, in table order.\<close>

lemma sweep_fold:
  "fold check_dead_socket xs ctx = ctx\<lparr>to_delete := to_delete ctx @
     take (sweep_max ctx - length (to_delete ctx)) (filter (\<lambda>e. aj_socket e = target_socket ctx) xs)\<rparr>"
proof (induction xs arbitrary: ctx)
  case (Cons x xs)
  show ?case
  proof (cases "aj_socket x = target_socket ctx \<and> length (to_delete ctx) < sweep_max ctx")
    case True
    define n where "n = sweep_max ctx - Suc (length (to_delete ctx))"
    have "sweep_max ctx - length (to_delete ctx) = Suc n"
      using True Suc_diff_Suc [of "length (to_delete ctx)" "sweep_max ctx"] by (simp add: n_def)
    with True Cons n_def show ?thesis by (simp add: check_dead_socket_def)
  next
    case False
    with Cons show ?thesis by (auto simp: check_dead_socket_def)
  qed
qed simp

definition swept :: "active_jobs_t \<Rightarrow> u32 \<Rightarrow> elem_active_job_t list" where
  "swept jobs socket = take SWEEP_MAX (filter (\<lambda>e. aj_socket e = socket) (th_list jobs))"

lemma sweep_eq:
  assumes "aj_inv jobs"
  shows "to_delete (tablahash_visitar_extra jobs check_dead_socket
    \<lparr>target_socket = socket, to_delete = [], sweep_max = SWEEP_MAX\<rparr>) = swept jobs socket"
  by (simp add: aj.visitar [OF assms] sweep_fold swept_def)

lemma distinct_map_sublist: "distinct (map f xs) \<Longrightarrow> distinct (map f (take n (filter P xs)))"
  by (simp flip: take_map add: distinct_map_filter)

lemma swept_props:
  assumes "aj_inv jobs"
  shows "set (swept jobs socket) \<subseteq> {e \<in> th_set jobs. aj_socket e = socket}"
    "distinct (map aj_key (swept jobs socket))"
    "length (filter (\<lambda>e. aj_socket e = socket) (th_list jobs)) \<le> SWEEP_MAX \<Longrightarrow>
       set (swept jobs socket) = {e \<in> th_set jobs. aj_socket e = socket}"
  using set_take_subset [of SWEEP_MAX "filter (\<lambda>e. aj_socket e = socket) (th_list jobs)"]
    aj.list_distinct [OF assms]
  by (auto simp: swept_def th_set_def intro: distinct_map_sublist)

lemma free_active_bucle_spec:
  assumes "lr_inv resources jobs" "set js \<subseteq> th_set jobs" "distinct (map aj_key js)"
  shows "\<exists>resources' jobs'. free_active_bucle js resources jobs = Some (resources', jobs') \<and>
    lr_inv resources' jobs' \<and> total resources' = total resources \<and>
    request_queue resources' = request_queue resources \<and>
    th_set jobs' = th_set jobs - set js \<and> balance resources' jobs' = balance resources jobs"
  using assms
proof (induction js arbitrary: resources jobs)
  case (Cons d js)
  note I = lr_invD(1) [OF Cons.prems(1)]
  let ?R = "resources\<lparr>avail := (avail resources)(aj_resource_type d :=
    avail resources (aj_resource_type d) + aj_resource_quantity d)\<rparr>"
  have y: "tablahash_buscar jobs d = Some (Some d)" using aj.find_Some [OF I] Cons.prems(2) by simp
  obtain jobs1 where del: "tablahash_eliminar jobs d = Some jobs1" using aj.del_total [OF I] by blast
  have set1: "th_set jobs1 = th_set jobs - {d}"
    using aj.del_spec [OF I del] aj.contents_without [OF I y] by simp
  have "lr_inv ?R jobs1" using lr_inv_release [OF Cons.prems(1) y del refl] by simp
  moreover have "set js \<subseteq> th_set jobs1" using Cons.prems(2,3) set1 by auto
  moreover have "distinct (map aj_key js)" using Cons.prems(3) by simp
  ultimately obtain resources' jobs' where
    "free_active_bucle js ?R jobs1 = Some (resources', jobs') \<and>
     lr_inv resources' jobs' \<and> total resources' = total ?R \<and>
     request_queue resources' = request_queue ?R \<and>
     th_set jobs' = th_set jobs1 - set js \<and> balance resources' jobs' = balance ?R jobs1"
    using Cons.IH by meson
  moreover have "balance ?R jobs1 = balance resources jobs"
    by (rule ext) (rule balance_release [OF Cons.prems(1) y del refl])
  ultimately show ?case using del set1 by auto
qed simp

lemma balance_queue [simp]: "balance (resources\<lparr>request_queue := q\<rparr>) jobs = balance resources jobs"
  by (simp add: balance_def fun_eq_iff)

lemma lr_inv_queue_filter:
  assumes inv: "lr_inv resources jobs"
  shows "lr_inv (resources\<lparr>request_queue := (\<lambda>r. if r = INVALID_RES_TYPE then request_queue resources r
      else filter (P r) (request_queue resources r))\<rparr>) jobs"
  using lr_invD [OF inv] by (auto simp: lr_inv_def)

text \<open>The loop over the three queues, with the purge of each a filter.\<close>

lemma queues_fold:
  assumes "\<And>q. f q = filter P q"
  shows "fold (\<lambda>type r. r\<lparr>request_queue := (request_queue r)(type := f (request_queue r type))\<rparr>)
      res_types resources =
    resources\<lparr>request_queue := (\<lambda>r. if r = INVALID_RES_TYPE then request_queue resources r
      else filter P (request_queue resources r))\<rparr>"
proof -
  have "(request_queue resources)(CPU := filter P (request_queue resources CPU),
      GPU := filter P (request_queue resources GPU), RAM := filter P (request_queue resources RAM)) =
    (\<lambda>r. if r = INVALID_RES_TYPE then request_queue resources r
      else filter P (request_queue resources r))"
    by (rule ext, rename_tac r, case_tac r) auto
  then show ?thesis by (simp add: assms)
qed

lemma del_pending_job_requests_eq:
  "del_pending_job_requests resources jid socket =
     resources\<lparr>request_queue := (\<lambda>r. if r = INVALID_RES_TYPE then request_queue resources r
       else filter (\<lambda>x. \<not> (jr_job_id x = jid \<and> jr_socket x = socket)) (request_queue resources r))\<rparr>"
  unfolding del_pending_job_requests_def
  by (rule queues_fold [where f = "\<lambda>q. del_pending_bucle jid socket q 0"])
    (simp add: del_pending_bucle_eq)

lemma free_all_spec:
  assumes inv: "lr_inv resources jobs"
  shows "\<exists>resources' jobs'.
    free_all_resources_from_socket mem resources jobs socket = Some (resources', jobs') \<and>
    lr_inv resources' jobs' \<and> total resources' = total resources \<and>
    balance resources' jobs' = balance resources jobs \<and>
    th_set jobs' = th_set jobs - set (if mem then swept jobs socket else []) \<and>
    (\<forall>r. r \<noteq> INVALID_RES_TYPE \<longrightarrow>
       request_queue resources' r = filter (\<lambda>x. jr_socket x \<noteq> socket) (request_queue resources r))"
proof -
  note I = lr_invD(1) [OF inv]
  let ?js = "if mem then swept jobs socket else []"
  have "set ?js \<subseteq> th_set jobs" "distinct (map aj_key ?js)" using swept_props [OF I] by auto
  from free_active_bucle_spec [OF inv this] obtain R jobs'
    where f: "free_active_bucle ?js resources jobs = Some (R, jobs')"
      and R: "lr_inv R jobs'" "total R = total resources" "request_queue R = request_queue resources"
        "th_set jobs' = th_set jobs - set ?js" "balance R jobs' = balance resources jobs"
    by blast
  have q: "fold (\<lambda>type r. r\<lparr>request_queue := (request_queue r)
        (type := free_pending_bucle socket (request_queue r type) 0)\<rparr>) res_types R =
      R\<lparr>request_queue := (\<lambda>r. if r = INVALID_RES_TYPE then request_queue R r
        else filter (\<lambda>x. jr_socket x \<noteq> socket) (request_queue R r))\<rparr>" (is "_ = ?R")
    by (rule queues_fold [where f = "\<lambda>q. free_pending_bucle socket q 0"])
      (simp add: free_pending_bucle_eq)
  have "free_all_resources_from_socket mem resources jobs socket = Some (?R, jobs')"
    using f q by (cases mem) (simp_all add: free_all_resources_from_socket_def Let_def sweep_eq [OF I])
  moreover have "lr_inv ?R jobs'" by (rule lr_inv_queue_filter [OF R(1)])
  ultimately show ?thesis using R by auto
qed

section \<open>Nothing is lost while keys are fresh\<close>

text \<open>
  The table keeps one reservation per job, socket and type. As long as no key is both granted and
  waiting, or waiting twice, the pool and the reservations add up to the total exactly.
\<close>

definition jr_key :: "elem_job_request_t \<Rightarrow> u32 \<times> u32 \<times> resource_t" where
  "jr_key x = (jr_job_id x, jr_socket x, jr_resource_type x)"

definition lr_keys :: "local_resources_t \<Rightarrow> active_jobs_t \<Rightarrow> (u32 \<times> u32 \<times> resource_t) set" where
  "lr_keys resources jobs = aj_key ` th_set jobs \<union>
     (\<Union>r \<in> {CPU, GPU, RAM}. jr_key ` set (request_queue resources r))"

definition lr_exact :: "local_resources_t \<Rightarrow> active_jobs_t \<Rightarrow> bool" where
  "lr_exact resources jobs \<longleftrightarrow> lr_inv resources jobs \<and>
     (\<forall>r. r \<noteq> INVALID_RES_TYPE \<longrightarrow>
        unat (avail resources r) + held jobs r = unat (total resources r) \<and>
        distinct (map jr_key (request_queue resources r)) \<and>
        (\<forall>x \<in> set (request_queue resources r). jr_key x \<notin> aj_key ` th_set jobs))"

lemma lr_exactD:
  assumes "lr_exact resources jobs"
  shows "lr_inv resources jobs"
    "\<And>r. r \<noteq> INVALID_RES_TYPE \<Longrightarrow> unat (avail resources r) + held jobs r = unat (total resources r)"
    "\<And>r. r \<noteq> INVALID_RES_TYPE \<Longrightarrow> distinct (map jr_key (request_queue resources r))"
    "\<And>r x. r \<noteq> INVALID_RES_TYPE \<Longrightarrow> x \<in> set (request_queue resources r) \<Longrightarrow>
       jr_key x \<notin> aj_key ` th_set jobs"
  using assms unfolding lr_exact_def by blast+

lemma lr_keysD:
  assumes "k \<notin> lr_keys resources jobs"
  shows "k \<notin> aj_key ` th_set jobs"
    "r \<noteq> INVALID_RES_TYPE \<Longrightarrow> k \<notin> jr_key ` set (request_queue resources r)"
  using assms by (cases r; auto simp: lr_keys_def)+

text \<open>A grant of a key that is neither granted nor waiting.\<close>

lemma lr_exact_grant:
  assumes ex: "lr_exact resources jobs" and r: "r \<noteq> INVALID_RES_TYPE"
    and q: "aj_resource_quantity e \<le> avail resources r" "aj_resource_type e = r"
    and ins: "tablahash_insertar jobs e = Some jobs'"
    and fresh: "aj_key e \<notin> lr_keys resources jobs"
  shows "lr_exact (resources\<lparr>avail := (avail resources)(r := avail resources r - aj_resource_quantity e)\<rparr>)
    jobs'"
proof -
  note D = lr_exactD [OF ex]
  note I = lr_invD(1) [OF D(1)]
  have le: "unat (aj_resource_quantity e) \<le> unat (avail resources r)"
    using q(1) by (simp add: word_le_nat_alt)
  have "unat (((avail resources)(r := avail resources r - aj_resource_quantity e)) s) + held jobs' s
      = unat (total resources s)" if "s \<noteq> INVALID_RES_TYPE" for s
    using D(2) [OF that] held_ins_fresh [OF I ins lr_keysD(1) [OF fresh], of s] q le
    by (cases "s = r") (auto simp: unat_diff_le aj_amount_def)
  moreover have "jr_key x \<notin> aj_key ` th_set jobs'"
    if "s \<noteq> INVALID_RES_TYPE" "x \<in> set (request_queue resources s)" for s x
  proof -
    have "jr_key x \<noteq> aj_key e" using lr_keysD(2) [OF fresh that(1)] that(2) by (metis image_eqI)
    with aj.ins_spec [OF I ins] D(4) [OF that] show ?thesis by auto
  qed
  ultimately show ?thesis
    using lr_inv_grant [OF D(1) r q ins] D(3) by (simp add: lr_exact_def)
qed

lemma lr_exact_queue:
  assumes ex: "lr_exact resources jobs" and r: "r \<noteq> INVALID_RES_TYPE"
    and inv: "lr_inv (resources\<lparr>request_queue := (request_queue resources)(r := q)\<rparr>) jobs"
    and q: "distinct (map jr_key q)" "\<forall>x \<in> set q. jr_key x \<notin> aj_key ` th_set jobs"
  shows "lr_exact (resources\<lparr>request_queue := (request_queue resources)(r := q)\<rparr>) jobs"
  using ex inv q by (simp add: lr_exact_def)

lemma new_job_request_exact:
  assumes ex: "lr_exact resources jobs"
    and fresh: "(jid, socket, type) \<notin> lr_keys resources jobs"
    and new: "new_job_request mem resources jobs jid socket quantity type = Some (c, resources', jobs')"
  shows "lr_exact resources' jobs'"
proof -
  have type: "type \<noteq> INVALID_RES_TYPE" using new by (auto simp: new_job_request_def)
  note B = new_job_request_branches [OF type] and D = lr_exactD [OF ex]
  have inv: "lr_inv resources' jobs'" using new_job_request_inv [OF D(1) new] by simp
  consider (denied) "total resources type < quantity"
    | (wait) "quantity \<le> total resources type" "avail resources type < quantity"
    | (grant) "quantity \<le> total resources type" "quantity \<le> avail resources type"
    using not_less by blast
  then show ?thesis
  proof cases
    case denied
    with ex new B(1) show ?thesis by simp
  next
    case wait
    show ?thesis
    proof (cases mem)
      case True
      let ?q = "request_queue resources type @ [\<lparr>jr_job_id = jid, jr_socket = socket,
        jr_resource_quantity = quantity, jr_resource_type = type\<rparr>]"
      have R: "resources' = resources\<lparr>request_queue := (request_queue resources)(type := ?q)\<rparr>" "jobs' = jobs"
        using True new B(2) [OF wait] by auto
      have "distinct (map jr_key ?q)" "\<forall>x \<in> set ?q. jr_key x \<notin> aj_key ` th_set jobs"
        using D(3,4) [OF type] lr_keysD(1) [OF fresh] lr_keysD(2) [OF fresh type] by (auto simp: jr_key_def)
      from lr_exact_queue [OF ex type _ this] inv R show ?thesis by simp
    qed (use ex new B(2) [OF wait] in simp)
  next
    case grant
    let ?e = "\<lparr>aj_job_id = jid, aj_socket = socket, aj_resource_quantity = quantity,
      aj_resource_type = type\<rparr>"
    have "tablahash_insertar jobs ?e = Some jobs'" "resources' = resources\<lparr>avail :=
        (avail resources)(type := avail resources type - quantity)\<rparr>"
      using new B(3) [OF grant] by (auto split: if_splits)
    with lr_exact_grant [OF ex type, of ?e jobs'] grant(2) fresh show ?thesis by (simp add: aj_key_def)
  qed
qed

text \<open>With unique keys the deletion in \<^verbatim>\<open>chk_job_request\<close> takes out the request that was granted.\<close>

lemma comp_job_request_key: "comp_job_request x y = 0 \<longleftrightarrow> jr_key x = jr_key y"
  by (auto simp: comp_job_request_def jr_key_def)

lemma queue_delete_key:
  assumes "distinct (map jr_key (p @ x # s))"
  shows "queue_delete (p @ x # s) x comp_job_request = p @ s"
proof (rule queue_delete_first)
  show "\<forall>y \<in> set p. comp_job_request y x \<noteq> 0"
    using assms by (auto simp: comp_job_request_key) (metis image_eqI)
qed (simp add: comp_job_request_key)

lemma lr_exact_serve:
  assumes ex: "lr_exact resources jobs" and r: "r \<noteq> INVALID_RES_TYPE"
    and x: "chk_cola (avail resources r) (request_queue resources r) = Some x"
    and ins: "tablahash_insertar jobs (aj_of x r) = Some jobs'"
  shows "lr_exact (lr_serve resources r x) jobs'"
proof -
  note D = lr_exactD [OF ex]
  obtain p s where q: "request_queue resources r = p @ x # s" "jr_resource_quantity x \<le> avail resources r"
    using chk_cola_Some [OF x] by blast
  let ?R = "resources\<lparr>request_queue := (request_queue resources)(r := p @ s)\<rparr>"
  have xr: "jr_resource_type x = r" using lr_invD(4) [OF D(1) r] q(1) by auto
  then have key: "aj_key (aj_of x r) = jr_key x" by (simp add: aj_key_def aj_of_def jr_key_def)
  have dis: "distinct (map jr_key (p @ x # s))" using D(3) [OF r] q(1) by simp
  have inv: "lr_inv ?R jobs"
    by (rule lr_inv_queue [OF D(1)]) (use lr_invD(4) [OF D(1) r] q(1) in auto)
  have ex': "lr_exact ?R jobs"
    by (rule lr_exact_queue [OF ex r inv]) (use dis D(4) [OF r] q(1) in auto)
  have other: "jr_key x \<notin> jr_key ` set (request_queue resources t)" if "t \<noteq> INVALID_RES_TYPE" "t \<noteq> r" for t
    using lr_invD(4) [OF D(1) that(1)] that(2) xr by (auto simp: jr_key_def)
  have "aj_key (aj_of x r) \<notin> lr_keys ?R jobs"
    using D(4) [OF r, of x] q(1) dis other unfolding key by (auto simp: lr_keys_def)
  note grant = lr_exact_grant [OF ex' r _ _ ins this]
  have "lr_serve resources r x =
      ?R\<lparr>avail := (avail resources)(r := avail resources r - jr_resource_quantity x)\<rparr>"
    by (cases resources) (use q(1) in \<open>simp add: lr_serve_def queue_delete_key [OF dis]\<close>)
  with grant q show ?thesis by (simp add: aj_of_def)
qed

lemma chk_bucle_exact:
  assumes "lr_exact resources jobs"
    and "chk_bucle mem init idxs out sock resources jobs = Some (out', sock', resources', jobs')"
  shows "lr_exact resources' jobs'"
  using assms
proof (induction idxs arbitrary: out sock resources jobs)
  case (Cons idx idxs)
  show ?case
  proof (cases "out = - 1")
    case False
    with Cons.prems show ?thesis by simp
  next
    case True
    with Cons.prems(2) have "chk_bucle mem init (idx # idxs) (- 1) sock resources jobs =
        Some (out', sock', resources', jobs')" by simp
    then show ?thesis
    proof (cases rule: chk_bucle_cases)
      case skip
      with Cons show ?thesis by blast
    next
      case (grant r x jobs1)
      from Cons.IH [OF lr_exact_serve [OF Cons.prems(1) grant(2-4)] grant(5)] show ?thesis .
    qed
  qed
qed simp

lemma chk_job_request_exact:
  assumes "lr_exact resources jobs"
    and "chk_job_request rnd mem resources jobs OUT n sock = Some (out, OUT', sock', resources', jobs')"
  shows "lr_exact resources' jobs'"
  using assms chk_bucle_exact [OF assms(1)]
  by (auto simp: chk_job_request_def split: option.splits)

lemma lr_exact_shrink:
  assumes ex: "lr_exact resources jobs" and inv: "lr_inv resources' jobs'"
    and tot: "total resources' = total resources" and bal: "balance resources' jobs' = balance resources jobs"
    and sub: "th_set jobs' \<subseteq> th_set jobs"
    and q: "\<And>r. r \<noteq> INVALID_RES_TYPE \<Longrightarrow> \<exists>P. request_queue resources' r = filter P (request_queue resources r)"
  shows "lr_exact resources' jobs'"
  unfolding lr_exact_def
proof (intro conjI allI impI inv)
  fix r assume r: "r \<noteq> INVALID_RES_TYPE"
  note D = lr_exactD [OF ex]
  obtain P where P: "request_queue resources' r = filter P (request_queue resources r)" using q [OF r] by blast
  show "unat (avail resources' r) + held jobs' r = unat (total resources' r)"
    using D(2) [OF r] bal tot by (simp add: balance_def fun_eq_iff)
  show "distinct (map jr_key (request_queue resources' r))"
    using D(3) [OF r] P by (simp add: distinct_map_filter)
  show "\<forall>x \<in> set (request_queue resources' r). jr_key x \<notin> aj_key ` th_set jobs'"
    using D(4) [OF r] P sub by auto
qed

lemma del_active_job_exact:
  assumes ex: "lr_exact resources jobs"
    and del: "del_active_job mem resources jobs jid socket = Some (resources', jobs')"
  shows "lr_exact resources' jobs'"
  using del_active_bucle_spec [OF lr_exactD(1) [OF ex] del [unfolded del_active_job_def]]
  by (intro lr_exact_shrink [OF ex]) (auto intro!: exI [of _ "\<lambda>_. True"])

lemma del_pending_exact:
  assumes ex: "lr_exact resources jobs"
  shows "lr_exact (del_pending_job_requests resources jid socket) jobs"
  unfolding del_pending_job_requests_eq
  by (rule lr_exact_shrink [OF ex lr_inv_queue_filter [OF lr_exactD(1) [OF ex]]]) auto

lemma free_all_exact:
  assumes ex: "lr_exact resources jobs"
    and free: "free_all_resources_from_socket mem resources jobs socket = Some (resources', jobs')"
  shows "lr_exact resources' jobs'"
  using free_all_spec [OF lr_exactD(1) [OF ex], of mem socket] free
  by (intro lr_exact_shrink [OF ex]) auto

section \<open>What the search of the queues finds\<close>

lemma res_of_cycle:
  assumes "init < RES_NUM" "r \<noteq> INVALID_RES_TYPE"
  shows "\<exists>idx < RES_NUM. res_of ((init + idx) mod RES_NUM) = r"
proof -
  have "res_index r < RES_NUM" using assms(2) by simp
  from sondeo_covers [OF assms(1) this] show ?thesis by (metis res_of_index)
qed

text \<open>A round trip over the types either grants one request or finds that none fits.\<close>

lemma chk_bucle_result:
  assumes "chk_bucle mem init idxs (- 1) sock resources jobs = Some (out, sock', resources', jobs')"
    and ids: "\<And>r x. r \<noteq> INVALID_RES_TYPE \<Longrightarrow> x \<in> set (request_queue resources r) \<Longrightarrow> jr_job_id x \<noteq> - 1"
  shows "out = - 1 \<and> sock' = sock \<and> resources' = resources \<and> jobs' = jobs \<and>
      (\<forall>idx \<in> set idxs. chk_cola (avail resources (res_of ((init + idx) mod RES_NUM)))
         (request_queue resources (res_of ((init + idx) mod RES_NUM))) = None) \<or>
    (\<exists>r x. r \<noteq> INVALID_RES_TYPE \<and> chk_cola (avail resources r) (request_queue resources r) = Some x \<and>
      out = int_of_u32 (jr_job_id x) \<and> jr_job_id x \<noteq> - 1 \<and> sock' = map_option (\<lambda>_. jr_socket x) sock \<and>
      resources' = lr_serve resources r x \<and> tablahash_insertar jobs (aj_of x r) = Some jobs')"
  using assms(1)
proof (induction idxs)
  case (Cons idx idxs)
  from Cons.prems show ?case
  proof (cases rule: chk_bucle_cases)
    case skip
    with Cons.IH show ?thesis by auto
  next
    case (grant r x jobs1)
    have "jr_job_id x \<noteq> - 1" using ids [OF grant(2)] chk_cola_Some [OF grant(3)] by auto
    with grant show ?thesis by (simp add: chk_bucle_stop) blast
  qed
qed simp

lemma th_room_mono: "th_room k t \<Longrightarrow> j \<le> k \<Longrightarrow> th_room j t"
  by (simp add: th_room_def)

lemma chk_bucle_total:
  assumes "lr_inv resources jobs" "th_room (k + length idxs) jobs" "\<And>i. i \<in> set idxs \<Longrightarrow> mem i"
  shows "\<exists>out sock' resources' jobs'. chk_bucle mem init idxs out0 sock resources jobs =
    Some (out, sock', resources', jobs') \<and> th_room k jobs'"
  using assms
proof (induction idxs arbitrary: out0 sock resources jobs)
  case (Cons idx idxs)
  define r where "r = res_of ((init + idx) mod RES_NUM)"
  have r: "r \<noteq> INVALID_RES_TYPE" unfolding r_def by (rule res_of_mod)
  show ?case
  proof (cases "out0 = - 1")
    case False
    with Cons.prems show ?thesis by (auto intro: th_room_mono)
  next
    case True
    show ?thesis
    proof (cases "chk_cola (avail resources r) (request_queue resources r)")
      case None
      moreover have "th_room (k + length idxs) jobs" using Cons.prems(2) by (simp add: th_room_def)
      ultimately show ?thesis
        using True Cons.IH [OF Cons.prems(1), of "- 1" sock] Cons.prems(3) by (simp add: Let_def r_def)
    next
      case (Some x)
      obtain jobs1 where ins: "tablahash_insertar jobs (aj_of x r) = Some jobs1"
        and room: "th_room (k + length idxs) jobs1"
        using aj.ins_total [OF lr_invD(1) [OF Cons.prems(1)], of "k + length idxs"] Cons.prems(2) by auto
      from Cons.IH [OF lr_inv_serve [OF Cons.prems(1) r Some ins] room,
          of "int_of_u32 (jr_job_id x)" "map_option (\<lambda>_. jr_socket x) sock"]
      show ?thesis
        using True Some ins Cons.prems(3)
        by (simp add: Let_def r_def create_elem_active_job_def aj_of_def lr_serve_def)
    qed
  qed
qed simp

section \<open>Releases return\<close>

lemma eliminar_capacidad: "tablahash_eliminar t d = Some t' \<Longrightarrow> capacidad t' = capacidad t"
  by (auto simp: tablahash_eliminar_def th_eliminar_def split: option.splits)

lemma th_room_shrink:
  assumes "aj_inv jobs" "aj_inv jobs'" "th_set jobs' \<subseteq> th_set jobs" "capacidad jobs' = capacidad jobs"
    and "th_room k jobs"
  shows "th_room k jobs'"
  using assms card_mono [OF finite_th_set assms(3)] by (simp add: th_room_def aj.nelems_card)

lemma del_active_bucle_capacidad:
  "del_active_bucle mem jid socket types resources jobs = Some (resources', jobs') \<Longrightarrow>
     capacidad jobs' = capacidad jobs"
  by (induction types arbitrary: resources jobs)
    (auto simp: Let_def eliminar_capacidad split: option.splits)

lemma free_active_bucle_capacidad:
  "free_active_bucle js resources jobs = Some (resources', jobs') \<Longrightarrow> capacidad jobs' = capacidad jobs"
  by (induction js arbitrary: resources jobs)
    (auto simp: Let_def eliminar_capacidad split: option.splits)

lemma free_all_capacidad:
  "free_all_resources_from_socket mem resources jobs socket = Some (resources', jobs') \<Longrightarrow>
     capacidad jobs' = capacidad jobs"
  by (auto simp: free_all_resources_from_socket_def Let_def free_active_bucle_capacidad
      simp del: res_types_eq split: option.splits if_splits)

lemma del_active_bucle_returns:
  "lr_inv resources jobs \<Longrightarrow>
     \<exists>resources' jobs'. del_active_bucle mem jid socket types resources jobs = Some (resources', jobs')"
proof (induction types arbitrary: resources jobs)
  case (Cons type types)
  note I = lr_invD(1) [OF Cons.prems]
  show ?case
  proof (cases "create_elem_active_job (mem type) jid socket 0 type")
    case (Some d)
    obtain f where f: "tablahash_buscar jobs d = Some f" using aj.find_total [OF I] by blast
    obtain jobs1 where del: "tablahash_eliminar jobs d = Some jobs1" using aj.del_total [OF I] by blast
    show ?thesis
    proof (cases f)
      case None
      with Some f Cons show ?thesis by simp
    next
      case y: (Some y)
      with f have "tablahash_buscar jobs d = Some (Some y)" by simp
      from lr_inv_release [OF Cons.prems this del refl] Cons.IH Some f y del show ?thesis
        by (simp add: Let_def)
    qed
  qed simp
qed simp

section \<open>The number of waiting requests\<close>

definition lr_waiting :: "local_resources_t \<Rightarrow> nat" where
  "lr_waiting r = length (request_queue r CPU) + length (request_queue r GPU) + length (request_queue r RAM)"

lemma lr_waiting_serve:
  assumes r: "r \<noteq> INVALID_RES_TYPE" and x: "chk_cola (avail R r) (request_queue R r) = Some x"
  shows "lr_waiting (lr_serve R r x) < lr_waiting R"
proof -
  have "x \<in> set (request_queue R r)" using chk_cola_Some [OF x] by auto
  then obtain k where "k < length (request_queue R r)" "request_queue R r ! k = x"
    by (auto simp: in_set_conv_nth)
  then have "length (queue_delete (request_queue R r) x comp_job_request) < length (request_queue R r)"
    by (intro queue_delete_shrinks) (auto simp: comp_job_request_key)
  with r show ?thesis by (cases r) (simp_all add: lr_waiting_def lr_serve_def)
qed

lemma chk_bucle_waiting:
  "chk_bucle mem init idxs out sock R J = Some (out', sock', R', J') \<Longrightarrow>
     lr_waiting R' \<le> lr_waiting R \<and> (out = - 1 \<and> out' \<noteq> - 1 \<longrightarrow> lr_waiting R' < lr_waiting R)"
proof (induction idxs arbitrary: out sock R J)
  case (Cons idx idxs)
  show ?case
  proof (cases "out = - 1")
    case False
    with Cons.prems show ?thesis by simp
  next
    case True
    with Cons.prems have "chk_bucle mem init (idx # idxs) (- 1) sock R J = Some (out', sock', R', J')" by simp
    then show ?thesis
    proof (cases rule: chk_bucle_cases)
      case skip
      with Cons.IH True show ?thesis by blast
    next
      case (grant r x J1)
      from Cons.IH [OF grant(5)] lr_waiting_serve [OF grant(2,3)] show ?thesis by linarith
    qed
  qed
qed simp

lemma chk_waiting:
  assumes "chk_job_request rnd mem R J OUT n sock = Some (out, OUT', sock', R', J')" "out \<noteq> - 1"
  shows "lr_waiting R' < lr_waiting R"
  using assms chk_bucle_waiting by (auto simp: chk_job_request_def split: option.splits)

text \<open>
  A grant moves a request from a queue to the table, so that room for the reservations and the
  waiting requests together is enough for any number of checks.
\<close>

lemma th_room_serve:
  assumes inv: "lr_inv R J" and r: "r \<noteq> INVALID_RES_TYPE"
    and x: "chk_cola (avail R r) (request_queue R r) = Some x" and room: "th_room (k + lr_waiting R) J"
  shows "\<exists>J'. tablahash_insertar J (aj_of x r) = Some J' \<and> th_room (k + lr_waiting (lr_serve R r x)) J'"
proof -
  obtain n where n: "lr_waiting R = Suc n" "lr_waiting (lr_serve R r x) \<le> n"
    using lr_waiting_serve [OF r x] by (cases "lr_waiting R") auto
  with room obtain J' where "tablahash_insertar J (aj_of x r) = Some J'" "th_room (k + n) J'"
    using aj.ins_total [OF lr_invD(1) [OF inv], of "k + n"] by auto
  with n(2) show ?thesis by (auto intro: th_room_mono)
qed

lemma chk_bucle_room:
  assumes "lr_inv R J" "th_room (k + lr_waiting R) J" "\<And>i. i \<in> set idxs \<Longrightarrow> mem i"
  shows "\<exists>out sock' R' J'. chk_bucle mem init idxs out0 sock R J = Some (out, sock', R', J') \<and>
    th_room (k + lr_waiting R') J' \<and> (sock \<noteq> None \<longrightarrow> sock' \<noteq> None)"
  using assms
proof (induction idxs arbitrary: out0 sock R J)
  case (Cons idx idxs)
  define r where "r = res_of ((init + idx) mod RES_NUM)"
  have r: "r \<noteq> INVALID_RES_TYPE" unfolding r_def by (rule res_of_mod)
  show ?case
  proof (cases "out0 = - 1")
    case False
    with Cons.prems show ?thesis by auto
  next
    case True
    show ?thesis
    proof (cases "chk_cola (avail R r) (request_queue R r)")
      case None
      then show ?thesis
        using True Cons.IH [OF Cons.prems(1,2), of "- 1" sock] Cons.prems(3) by (simp add: Let_def r_def)
    next
      case (Some x)
      obtain J1 where ins: "tablahash_insertar J (aj_of x r) = Some J1"
        and room: "th_room (k + lr_waiting (lr_serve R r x)) J1"
        using th_room_serve [OF Cons.prems(1) r Some Cons.prems(2)] by blast
      from Cons.IH [OF lr_inv_serve [OF Cons.prems(1) r Some ins] room,
          of "int_of_u32 (jr_job_id x)" "map_option (\<lambda>_. jr_socket x) sock"]
      show ?thesis
        using True Some ins Cons.prems(3)
        by (simp add: Let_def r_def create_elem_active_job_def aj_of_def lr_serve_def)
    qed
  qed
qed simp

lemma chk_job_request_room:
  assumes "lr_inv R J" "th_room (k + lr_waiting R) J" "\<And>i. mem i"
  shows "\<exists>out OUT' s' R' J'. chk_job_request rnd mem R J OUT n (Some s) = Some (out, OUT', Some s', R', J') \<and>
    lr_inv R' J' \<and> total R' = total R \<and> th_room (k + lr_waiting R') J'"
proof -
  obtain out sock' R' J' where run: "chk_bucle mem (rnd mod RES_NUM) [0..<RES_NUM] (- 1) (Some s) R J =
      Some (out, sock', R', J')" "th_room (k + lr_waiting R') J'" "sock' \<noteq> None"
    using chk_bucle_room [where k = k and R = R and J = J and mem = mem and sock = "Some s"] assms by blast
  with chk_bucle_inv [OF assms(1) run(1)] show ?thesis by (auto simp: chk_job_request_def)
qed

lemma new_job_request_room:
  assumes inv: "lr_inv R J" and room: "th_room (Suc k + lr_waiting R) J" and type: "type \<noteq> INVALID_RES_TYPE"
  shows "\<exists>c R' J'. new_job_request True R J jid socket quantity type = Some (c, R', J') \<and>
    lr_inv R' J' \<and> total R' = total R \<and> th_room (k + lr_waiting R') J'"
proof -
  note B = new_job_request_branches [OF type, where resources = R and quantity = quantity and mem = True and
      jobs = J and jid = jid and socket = socket]
  obtain J1 where J1: "tablahash_insertar J \<lparr>aj_job_id = jid, aj_socket = socket,
      aj_resource_quantity = quantity, aj_resource_type = type\<rparr> = Some J1" "th_room (k + lr_waiting R) J1"
    using aj.ins_total [OF lr_invD(1) [OF inv], of "k + lr_waiting R"] room by auto
  have low: "th_room (k + lr_waiting R) J" using room by (rule th_room_mono) simp
  let ?x = "\<lparr>jr_job_id = jid, jr_socket = socket, jr_resource_quantity = quantity, jr_resource_type = type\<rparr>"
  have "lr_waiting (R\<lparr>request_queue := (request_queue R)(type := request_queue R type @ [?x])\<rparr>) = Suc (lr_waiting R)"
    using type by (cases type) (simp_all add: lr_waiting_def)
  moreover have "lr_waiting (R\<lparr>avail := a\<rparr>) = lr_waiting R" for a by (simp add: lr_waiting_def)
  ultimately have "\<exists>c R' J'. new_job_request True R J jid socket quantity type = Some (c, R', J') \<and>
      th_room (k + lr_waiting R') J'"
    using B J1 low room by (cases "total R type < quantity"; cases "avail R type < quantity") auto
  with new_job_request_inv [OF inv] show ?thesis by blast
qed

lemma del_active_job_room:
  assumes inv: "lr_inv R J" and room: "th_room (k + lr_waiting R) J"
  shows "\<exists>R' J'. del_active_job mem R J jid socket = Some (R', J') \<and> lr_inv R' J' \<and> total R' = total R \<and>
    th_room (k + lr_waiting R') J'"
proof -
  obtain R' J' where del: "del_active_bucle mem jid socket res_types R J = Some (R', J')"
    using del_active_bucle_returns [OF inv] by blast
  note S = del_active_bucle_spec [OF inv del]
  then have "lr_waiting R' = lr_waiting R" by (simp add: lr_waiting_def)
  moreover have "th_room (k + lr_waiting R) J'"
    using S del_active_bucle_capacidad [OF del] lr_invD(1)
    by (intro th_room_shrink [OF lr_invD(1) [OF inv] _ _ _ room]) auto
  ultimately show ?thesis using S del by (auto simp: del_active_job_def)
qed

lemma free_all_room:
  assumes inv: "lr_inv R J" and room: "th_room (k + lr_waiting R) J"
  shows "\<exists>R' J'. free_all_resources_from_socket mem R J socket = Some (R', J') \<and> lr_inv R' J' \<and>
    total R' = total R \<and> th_room (k + lr_waiting R') J'"
proof -
  obtain R' J' where free: "free_all_resources_from_socket mem R J socket = Some (R', J')" "lr_inv R' J'"
    "total R' = total R" "th_set J' \<subseteq> th_set J"
    "\<And>r. r \<noteq> INVALID_RES_TYPE \<Longrightarrow> request_queue R' r = filter (\<lambda>x. jr_socket x \<noteq> socket) (request_queue R r)"
    using free_all_spec [OF inv, of mem socket] by auto
  have "lr_waiting R' \<le> lr_waiting R" by (simp add: lr_waiting_def free(5) add_mono)
  moreover have "th_room (k + lr_waiting R) J'"
    using free_all_capacidad [OF free(1)] free(2,4) lr_invD(1)
    by (intro th_room_shrink [OF lr_invD(1) [OF inv] _ _ _ room]) auto
  ultimately show ?thesis using free by (auto intro: th_room_mono)
qed

end
