(* ===== verification/Inventory.thy ===== *)
theory Inventory
  imports Local_Resource
begin

text \<open>
  An abstract specification of the node's inventory and the proof that \<open>Local_Resource\<close> implements
  it. The specification keeps the capacity, a map from keys (job, socket, type) to granted amounts
  and the waiting requests of each type; what is free is what the grants leave of the capacity. The
  operations of \<^verbatim>\<open>local_resource.c\<close>, which keep a counter of their own and a hash table, refine it
  as long as keys are not re-used while they are granted or waiting. Histories of operations are
  lists of \<open>lr_op\<close>.
\<close>

section \<open>The specification\<close>

type_synonym grant_key = "u32 \<times> u32 \<times> resource_t"

record inventory =
  capacity :: "resource_t \<Rightarrow> nat"
  grants :: "grant_key \<rightharpoonup> nat"
  waiting :: "resource_t \<Rightarrow> (u32 \<times> u32 \<times> nat) list"

definition inv_free :: "inventory \<Rightarrow> resource_t \<Rightarrow> nat" where
  "inv_free I r = capacity I r - (\<Sum>k \<in> {k \<in> dom (grants I). snd (snd k) = r}. the (grants I k))"

definition spec_request ::
  "u32 \<Rightarrow> u32 \<Rightarrow> nat \<Rightarrow> resource_t \<Rightarrow> inventory \<Rightarrow> int \<times> inventory" where
  "spec_request jid socket n r I =
     (if capacity I r < n then (- 1, I)
      else if inv_free I r < n
      then (0, I\<lparr>waiting := (waiting I)(r := waiting I r @ [(jid, socket, n)])\<rparr>)
      else (1, I\<lparr>grants := (grants I)((jid, socket, r) \<mapsto> n)\<rparr>))"

text \<open>A waiting request that fits is granted; those before it in its queue do not fit.\<close>

inductive spec_serve :: "inventory \<Rightarrow> u32 \<times> u32 \<Rightarrow> inventory \<Rightarrow> bool" where
  "waiting I r = p @ (jid, socket, n) # s \<Longrightarrow> n \<le> inv_free I r \<Longrightarrow>
   \<forall>(j, k, m) \<in> set p. inv_free I r < m \<Longrightarrow>
   spec_serve I (jid, socket)
     (I\<lparr>grants := (grants I)((jid, socket, r) \<mapsto> n), waiting := (waiting I)(r := p @ s)\<rparr>)"

text \<open>No waiting request fits.\<close>

definition inv_idle :: "inventory \<Rightarrow> bool" where
  "inv_idle I \<longleftrightarrow> (\<forall>r \<in> {CPU, GPU, RAM, INVALID_RES_TYPE}. list_all (\<lambda>(j, k, n). inv_free I r < n) (waiting I r))"

text \<open>Requests that are granted one after the other.\<close>

inductive spec_drain :: "inventory \<Rightarrow> (u32 \<times> u32) list \<Rightarrow> inventory \<Rightarrow> bool" where
  "spec_drain I [] I"
| "spec_serve I x I1 \<Longrightarrow> spec_drain I1 xs I2 \<Longrightarrow> spec_drain I (x # xs) I2"

definition spec_release :: "u32 \<Rightarrow> u32 \<Rightarrow> inventory \<Rightarrow> inventory" where
  "spec_release jid socket I =
     I\<lparr>grants := (\<lambda>k. if fst k = jid \<and> fst (snd k) = socket then None else grants I k)\<rparr>"

definition spec_cancel :: "u32 \<Rightarrow> u32 \<Rightarrow> inventory \<Rightarrow> inventory" where
  "spec_cancel jid socket I =
     I\<lparr>waiting := (\<lambda>r. filter (\<lambda>(j, k, n). \<not> (j = jid \<and> k = socket)) (waiting I r))\<rparr>"

definition spec_drop :: "u32 \<Rightarrow> inventory \<Rightarrow> inventory" where
  "spec_drop socket I =
     I\<lparr>grants := (\<lambda>k. if fst (snd k) = socket then None else grants I k),
       waiting := (\<lambda>r. filter (\<lambda>(j, k, n). k \<noteq> socket) (waiting I r))\<rparr>"

section \<open>The abstraction\<close>

definition abs_request :: "elem_job_request_t \<Rightarrow> u32 \<times> u32 \<times> nat" where
  "abs_request x = (jr_job_id x, jr_socket x, unat (jr_resource_quantity x))"

definition abs_grants :: "active_jobs_t \<Rightarrow> grant_key \<rightharpoonup> nat" where
  "abs_grants jobs k = map_option (\<lambda>e. unat (aj_resource_quantity e)) (th_map aj_key jobs k)"

definition abs_inventory :: "local_resources_t \<Rightarrow> active_jobs_t \<Rightarrow> inventory" where
  "abs_inventory resources jobs =
     \<lparr>capacity = (\<lambda>r. unat (total resources r)), grants = abs_grants jobs,
      waiting = (\<lambda>r. if r = INVALID_RES_TYPE then [] else map abs_request (request_queue resources r))\<rparr>"

lemma dom_abs_grants: "aj_inv jobs \<Longrightarrow> dom (abs_grants jobs) = aj_key ` th_set jobs"
  using aj.map_Some [of jobs] by (auto simp: abs_grants_def dom_def image_iff) metis

lemma abs_grants_key:
  assumes "aj_inv jobs" "e \<in> th_set jobs"
  shows "abs_grants jobs (aj_key e) = Some (unat (aj_resource_quantity e))"
  using aj.map_Some [OF assms(1), of "aj_key e" e] assms(2) by (simp add: abs_grants_def)

lemma held_grants:
  assumes "aj_inv jobs"
  shows "(\<Sum>k \<in> {k \<in> dom (abs_grants jobs). snd (snd k) = r}. the (abs_grants jobs k)) = held jobs r"
proof -
  let ?S = "{e \<in> th_set jobs. aj_resource_type e = r}"
  have "{k \<in> dom (abs_grants jobs). snd (snd k) = r} = aj_key ` ?S"
    by (auto simp: dom_abs_grants [OF assms] aj_key_def)
  moreover have "inj_on aj_key ?S" by (rule inj_on_subset [OF aj.inj_key [OF assms]]) auto
  ultimately have "(\<Sum>k \<in> {k \<in> dom (abs_grants jobs). snd (snd k) = r}. the (abs_grants jobs k)) =
      (\<Sum>e \<in> ?S. unat (aj_resource_quantity e))"
    by (simp add: sum.reindex abs_grants_key [OF assms])
  also have "\<dots> = held jobs r"
    by (simp add: held_def aj_amount_def sum.inter_filter)
  finally show ?thesis .
qed

lemma abs_free:
  assumes "lr_exact resources jobs" "r \<noteq> INVALID_RES_TYPE"
  shows "inv_free (abs_inventory resources jobs) r = unat (avail resources r)"
  using lr_exactD(2) [OF assms] held_grants [OF lr_invD(1) [OF lr_exactD(1) [OF assms(1)]], of r]
  by (simp add: inv_free_def abs_inventory_def)

lemma abs_grants_ins:
  assumes "aj_inv jobs" "tablahash_insertar jobs e = Some jobs'"
  shows "abs_grants jobs' = (abs_grants jobs)(aj_key e \<mapsto> unat (aj_resource_quantity e))"
  using aj.insertar_map [OF assms] by (auto simp: abs_grants_def fun_eq_iff)

lemma abs_grants_eqI:
  assumes "aj_inv jobs" "aj_inv jobs'" "th_set jobs' = {e \<in> th_set jobs. \<not> P (aj_key e)}"
  shows "abs_grants jobs' = (\<lambda>k. if P k then None else abs_grants jobs k)"
proof -
  have "th_map aj_key jobs' = (\<lambda>k. if P k then None else th_map aj_key jobs k)"
    using aj.map_Some [OF assms(1)] assms(3) by (intro aj.map_eqI [OF assms(2)]) auto
  then show ?thesis by (simp add: abs_grants_def fun_eq_iff)
qed

section \<open>The operations refine the specification\<close>

lemma request_refines:
  assumes ex: "lr_exact resources jobs" and type: "type \<noteq> INVALID_RES_TYPE"
    and new: "new_job_request True resources jobs jid socket quantity type = Some (c, resources', jobs')"
  shows "spec_request jid socket (unat quantity) type (abs_inventory resources jobs) =
    (c, abs_inventory resources' jobs')"
proof -
  note B = new_job_request_branches [OF type]
  note free = abs_free [OF ex type] and I = lr_invD(1) [OF lr_exactD(1) [OF ex]]
  consider (denied) "total resources type < quantity"
    | (wait) "quantity \<le> total resources type" "avail resources type < quantity"
    | (grant) "quantity \<le> total resources type" "quantity \<le> avail resources type"
    using not_less by blast
  then show ?thesis
  proof cases
    case denied
    with new B(1) show ?thesis by (auto simp: spec_request_def abs_inventory_def word_less_nat_alt)
  next
    case wait
    then have "resources' = resources\<lparr>request_queue := (request_queue resources)(type :=
        request_queue resources type @ [\<lparr>jr_job_id = jid, jr_socket = socket,
          jr_resource_quantity = quantity, jr_resource_type = type\<rparr>])\<rparr>" "jobs' = jobs" "c = 0"
      using new B(2) [OF wait] by auto
    with wait type free [unfolded abs_inventory_def] show ?thesis
      by (auto simp: spec_request_def word_less_nat_alt word_le_nat_alt abs_inventory_def
          abs_request_def fun_eq_iff)
  next
    case grant
    let ?e = "\<lparr>aj_job_id = jid, aj_socket = socket, aj_resource_quantity = quantity,
      aj_resource_type = type\<rparr>"
    have "tablahash_insertar jobs ?e = Some jobs'" and "c = 1" and "resources' = resources\<lparr>avail :=
        (avail resources)(type := avail resources type - quantity)\<rparr>"
      using new B(3) [OF grant] by auto
    with abs_grants_ins [OF I, of ?e jobs'] grant free [unfolded abs_inventory_def] show ?thesis
      by (simp add: spec_request_def word_le_nat_alt abs_inventory_def aj_key_def cong: if_cong)
  qed
qed

lemma request_spec:
  assumes ex: "lr_exact resources jobs" and fresh: "(jid, socket, type) \<notin> lr_keys resources jobs"
    and type: "type \<noteq> INVALID_RES_TYPE" and room: "th_room 1 jobs"
  shows "\<exists>c resources' jobs'.
    new_job_request True resources jobs jid socket quantity type = Some (c, resources', jobs') \<and>
    spec_request jid socket (unat quantity) type (abs_inventory resources jobs) =
      (c, abs_inventory resources' jobs') \<and> lr_exact resources' jobs'"
proof -
  obtain J where "tablahash_insertar jobs \<lparr>aj_job_id = jid, aj_socket = socket,
      aj_resource_quantity = quantity, aj_resource_type = type\<rparr> = Some J"
    using aj.ins_total [OF lr_invD(1) [OF lr_exactD(1) [OF ex]], of 0] room by auto
  with new_job_request_branches [OF type, where resources = resources and quantity = quantity and
      mem = True and jobs = jobs and jid = jid and socket = socket]
  obtain c resources' jobs' where
    "new_job_request True resources jobs jid socket quantity type = Some (c, resources', jobs')"
    by (cases "total resources type < quantity"; cases "avail resources type < quantity") auto
  with request_refines [OF ex type] new_job_request_exact [OF ex fresh] show ?thesis by blast
qed

lemma serve_refines:
  assumes ex: "lr_exact resources jobs" and r: "r \<noteq> INVALID_RES_TYPE"
    and x: "chk_cola (avail resources r) (request_queue resources r) = Some x"
    and ins: "tablahash_insertar jobs (aj_of x r) = Some jobs'"
  shows "spec_serve (abs_inventory resources jobs) (jr_job_id x, jr_socket x)
    (abs_inventory (lr_serve resources r x) jobs')"
proof -
  note D = lr_exactD [OF ex]
  obtain p s where q: "request_queue resources r = p @ x # s" "jr_resource_quantity x \<le> avail resources r"
    "\<forall>y \<in> set p. avail resources r < jr_resource_quantity y"
    using chk_cola_Some [OF x] by blast
  let ?I = "abs_inventory resources jobs"
  have dis: "distinct (map jr_key (p @ x # s))" using D(3) [OF r] q(1) by simp
  have "abs_inventory (lr_serve resources r x) jobs' = ?I
      \<lparr>grants := (grants ?I)((jr_job_id x, jr_socket x, r) \<mapsto> unat (jr_resource_quantity x)),
       waiting := (waiting ?I)(r := map abs_request p @ map abs_request s)\<rparr>"
    using abs_grants_ins [OF lr_invD(1) [OF D(1)] ins] r
    by (auto simp: abs_inventory_def lr_serve_def q(1) queue_delete_key [OF dis] aj_of_def aj_key_def
        fun_eq_iff)
  moreover have "waiting ?I r =
      map abs_request p @ (jr_job_id x, jr_socket x, unat (jr_resource_quantity x)) # map abs_request s"
    using r q(1) by (simp add: abs_inventory_def abs_request_def)
  moreover have "\<forall>(j, k, m) \<in> set (map abs_request p). inv_free ?I r < m"
    using q(3) by (auto simp: abs_free [OF ex r] abs_request_def word_less_nat_alt)
  moreover have "unat (jr_resource_quantity x) \<le> inv_free ?I r"
    using q(2) by (simp add: abs_free [OF ex r] word_le_nat_alt)
  ultimately show ?thesis using spec_serve.intros by metis
qed

lemma map_abs_filter:
  "map abs_request (filter (\<lambda>x. P (jr_job_id x) (jr_socket x)) q) =
     filter (\<lambda>(j, k, n). P j k) (map abs_request q)"
  by (induction q) (auto simp: abs_request_def)

lemma release_refines:
  assumes inv: "lr_inv resources jobs" and mem: "\<And>t. mem t"
  shows "\<exists>resources' jobs'. del_active_job mem resources jobs jid socket = Some (resources', jobs') \<and>
    abs_inventory resources' jobs' = spec_release jid socket (abs_inventory resources jobs)"
proof -
  obtain resources' jobs' where del:
    "del_active_bucle mem jid socket res_types resources jobs = Some (resources', jobs')"
    and set: "th_set jobs' = {e \<in> th_set jobs.
      \<not> (aj_job_id e = jid \<and> aj_socket e = socket \<and> aj_resource_type e \<in> set res_types)}"
    using del_active_bucle_total [where mem = mem, OF inv mem] by blast
  note S = del_active_bucle_spec [OF inv del]
  have "th_set jobs' = {e \<in> th_set jobs. \<not> (fst (aj_key e) = jid \<and> fst (snd (aj_key e)) = socket)}"
    using set lr_invD(2) [OF inv] unfolding res_types_iff by (auto simp: aj_key_def)
  from abs_grants_eqI [OF lr_invD(1) [OF inv] _ this] S
  have "abs_grants jobs' = (\<lambda>k. if fst k = jid \<and> fst (snd k) = socket then None else abs_grants jobs k)"
    by (auto dest: lr_invD(1))
  with S del show ?thesis
    by (auto simp: del_active_job_def abs_inventory_def spec_release_def)
qed

lemma cancel_refines:
  "abs_inventory (del_pending_job_requests resources jid socket) jobs =
     spec_cancel jid socket (abs_inventory resources jobs)"
  using map_abs_filter [of "\<lambda>j k. \<not> (j = jid \<and> k = socket)"]
  by (auto simp: del_pending_job_requests_eq abs_inventory_def spec_cancel_def fun_eq_iff)

lemma drop_refines:
  assumes inv: "lr_inv resources jobs"
    and few: "length (filter (\<lambda>e. aj_socket e = socket) (th_list jobs)) \<le> SWEEP_MAX"
  shows "\<exists>resources' jobs'.
    free_all_resources_from_socket True resources jobs socket = Some (resources', jobs') \<and>
    abs_inventory resources' jobs' = spec_drop socket (abs_inventory resources jobs)"
proof -
  obtain resources' jobs' where free:
    "free_all_resources_from_socket True resources jobs socket = Some (resources', jobs')"
    and S: "lr_inv resources' jobs'" "total resources' = total resources"
      "th_set jobs' = th_set jobs - set (swept jobs socket)"
      "\<And>r. r \<noteq> INVALID_RES_TYPE \<Longrightarrow>
         request_queue resources' r = filter (\<lambda>x. jr_socket x \<noteq> socket) (request_queue resources r)"
    using free_all_spec [OF inv, of True socket] by auto
  have "th_set jobs' = {e \<in> th_set jobs. \<not> fst (snd (aj_key e)) = socket}"
    using swept_props(3) [OF lr_invD(1) [OF inv] few] S(3) by (auto simp: aj_key_def)
  from abs_grants_eqI [OF lr_invD(1) [OF inv] lr_invD(1) [OF S(1)] this]
  have "abs_inventory resources' jobs' = spec_drop socket (abs_inventory resources jobs)"
    using S(2,4) map_abs_filter [of "\<lambda>_ k. k \<noteq> socket"]
    by (auto simp: abs_inventory_def spec_drop_def fun_eq_iff)
  with free show ?thesis by blast
qed

definition lr_ids_ok :: "local_resources_t \<Rightarrow> bool" where
  "lr_ids_ok R \<longleftrightarrow> list_all (\<lambda>r. list_all (\<lambda>x. jr_job_id x \<noteq> - 1) (request_queue R r)) res_types"

lemma lr_ids_okD: "lr_ids_ok R \<Longrightarrow> r \<noteq> INVALID_RES_TYPE \<Longrightarrow> x \<in> set (request_queue R r) \<Longrightarrow> jr_job_id x \<noteq> - 1"
  by (cases r) (auto simp: lr_ids_ok_def list_all_iff)

lemma inv_idle_iff:
  assumes ex: "lr_exact R J"
  shows "inv_idle (abs_inventory R J) \<longleftrightarrow>
    (\<forall>r. r \<noteq> INVALID_RES_TYPE \<longrightarrow> chk_cola (avail R r) (request_queue R r) = None)"
proof -
  let ?I = "abs_inventory R J"
  have one: "list_all (\<lambda>(j, k, n). inv_free ?I r < n) (waiting ?I r) \<longleftrightarrow>
      r = INVALID_RES_TYPE \<or> chk_cola (avail R r) (request_queue R r) = None" for r
    using abs_free [OF ex, of r]
    by (auto simp: abs_inventory_def abs_request_def chk_cola_None word_less_nat_alt list_all_iff)
  have "(\<forall>r \<in> {CPU, GPU, RAM, INVALID_RES_TYPE}. P r) \<longleftrightarrow> (\<forall>r. P r)" for P
    by (auto, metis resource_t.exhaust)
  then show ?thesis unfolding inv_idle_def using one by blast
qed

lemma chk_spec:
  assumes ex: "lr_exact R J"
    and run: "chk_job_request rnd mem R J OUT n (Some sock) = Some (out, OUT', sock', R', J')"
    and ids: "lr_ids_ok R"
  shows "lr_exact R' J' \<and> lr_ids_ok R' \<and> (out = - 1 \<longleftrightarrow> inv_idle (abs_inventory R J)) \<and>
    (if out = - 1 then OUT' = OUT \<and> sock' = Some sock \<and> R' = R \<and> J' = J
     else \<exists>s'. sock' = Some s' \<and> OUT' = snprintf n (''GRANTED '' @ fmt_d out @ ''\<newline>'') \<and>
       spec_serve (abs_inventory R J) (u32_of_int out, s') (abs_inventory R' J'))"
proof -
  let ?fits = "\<lambda>r. chk_cola (avail R r) (request_queue R r)"
  obtain b: "chk_bucle mem (rnd mod RES_NUM) [0..<RES_NUM] (- 1) (Some sock) R J = Some (out, sock', R', J')"
    and OUT': "OUT' = (if out \<noteq> - 1 then snprintf n (''GRANTED '' @ fmt_d out @ ''\<newline>'') else OUT)"
    using run by (auto simp: chk_job_request_def split: option.splits)
  have ex': "lr_exact R' J'" by (rule chk_bucle_exact [OF ex b])
  have "out = - 1 \<and> sock' = Some sock \<and> R' = R \<and> J' = J \<and>
      (\<forall>idx \<in> set [0..<RES_NUM]. ?fits (res_of ((rnd mod RES_NUM + idx) mod RES_NUM)) = None) \<or>
    (\<exists>r x. r \<noteq> INVALID_RES_TYPE \<and> ?fits r = Some x \<and>
      out = int_of_u32 (jr_job_id x) \<and> jr_job_id x \<noteq> - 1 \<and> sock' = map_option (\<lambda>_. jr_socket x) (Some sock) \<and>
      R' = lr_serve R r x \<and> tablahash_insertar J (aj_of x r) = Some J')"
    by (rule chk_bucle_result [OF b]) (rule lr_ids_okD [OF ids])
  then show ?thesis
  proof (elim disjE exE conjE)
    assume "out = - 1" "sock' = Some sock" "R' = R" "J' = J"
      and nf: "\<forall>idx \<in> set [0..<RES_NUM]. ?fits (res_of ((rnd mod RES_NUM + idx) mod RES_NUM)) = None"
    moreover have "?fits r = None" if r: "r \<noteq> INVALID_RES_TYPE" for r
    proof -
      obtain idx where "idx < RES_NUM" "res_of ((rnd mod RES_NUM + idx) mod RES_NUM) = r"
        using res_of_cycle [of "rnd mod RES_NUM" r] r by (auto simp: RES_NUM_def)
      with nf show ?thesis by auto
    qed
    then have "inv_idle (abs_inventory R J)" using inv_idle_iff [OF ex] by blast
    ultimately show ?thesis using ex ids OUT' by simp
  next
    fix r x
    assume r: "r \<noteq> INVALID_RES_TYPE" and x: "?fits r = Some x" and "out = int_of_u32 (jr_job_id x)"
      "jr_job_id x \<noteq> - 1" "sock' = map_option (\<lambda>_. jr_socket x) (Some sock)"
      and R': "R' = lr_serve R r x" "tablahash_insertar J (aj_of x r) = Some J'"
    moreover from r x have "\<not> inv_idle (abs_inventory R J)" using inv_idle_iff [OF ex] by auto
    moreover have "lr_ids_ok R'"
      using ids set_queue_delete [of "request_queue R r" x comp_job_request] r
      by (cases r) (auto simp: R'(1) lr_ids_ok_def lr_serve_def list_all_iff)
    ultimately show ?thesis
      using serve_refines [OF ex r x] ex' OUT' by simp
  qed
qed

section \<open>Histories\<close>

datatype lr_op =
    NewRequest bool u32 u32 u32 resource_t
  | CheckQueues nat "nat \<Rightarrow> bool"
  | DelActive "resource_t \<Rightarrow> bool" u32 u32
  | DelPending u32 u32
  | FreeSocket bool u32

type_synonym lr_state = "local_resources_t \<times> active_jobs_t"

fun lr_exec :: "lr_op \<Rightarrow> lr_state \<Rightarrow> lr_state result" where
  "lr_exec (NewRequest mem jid socket quantity type) (R, J) =
     map_option snd (new_job_request mem R J jid socket quantity type)"
| "lr_exec (CheckQueues rnd mem) (R, J) =
     map_option (\<lambda>(out, OUT, sock, R', J'). (R', J')) (chk_job_request rnd mem R J [] 64 None)"
| "lr_exec (DelActive mem jid socket) (R, J) = del_active_job mem R J jid socket"
| "lr_exec (DelPending jid socket) (R, J) = Some (del_pending_job_requests R jid socket, J)"
| "lr_exec (FreeSocket mem socket) (R, J) = free_all_resources_from_socket mem R J socket"

fun lr_run :: "lr_op list \<Rightarrow> lr_state \<Rightarrow> lr_state result" where
  "lr_run [] s = Some s"
| "lr_run (op # ops) s = (case lr_exec op s of None \<Rightarrow> None | Some s' \<Rightarrow> lr_run ops s')"

text \<open>Every request of the history has a key that is neither granted nor waiting then.\<close>

fun op_fresh :: "lr_op \<Rightarrow> lr_state \<Rightarrow> bool" where
  "op_fresh (NewRequest mem jid socket quantity type) (R, J) = ((jid, socket, type) \<notin> lr_keys R J)"
| "op_fresh _ s = True"

fun run_fresh :: "lr_op list \<Rightarrow> lr_state \<Rightarrow> bool" where
  "run_fresh [] s = True"
| "run_fresh (op # ops) s =
     (op_fresh op s \<and> (case lr_exec op s of None \<Rightarrow> True | Some s' \<Rightarrow> run_fresh ops s'))"

text \<open>The calls that need memory get it, and the resource types are valid.\<close>

fun op_ok :: "lr_op \<Rightarrow> bool" where
  "op_ok (NewRequest mem jid socket quantity type) \<longleftrightarrow> mem \<and> type \<noteq> INVALID_RES_TYPE"
| "op_ok (CheckQueues rnd mem) \<longleftrightarrow> (\<forall>i < RES_NUM. mem i)"
| "op_ok _ \<longleftrightarrow> True"

definition lr_init :: "u32 \<Rightarrow> u32 \<Rightarrow> u32 \<Rightarrow> lr_state" where
  "lr_init cpu gpu ram = (the (create_local_resource True cpu gpu ram), create_active_jobs_table)"

lemma create_local_resource_eq:
  "create_local_resource True cpu gpu ram =
     Some \<lparr>total = (\<lambda>_. 0)(CPU := cpu, GPU := gpu, RAM := ram),
           avail = (\<lambda>_. 0)(CPU := cpu, GPU := gpu, RAM := ram), request_queue = (\<lambda>_. [])\<rparr>"
  by (simp add: create_local_resource_def Let_def queue_create_def fun_eq_iff)

lemma lr_init_exact: "lr_exact (fst (lr_init cpu gpu ram)) (snd (lr_init cpu gpu ram))"
  using create_active_jobs_table_inv
  by (auto simp: lr_init_def create_local_resource_eq lr_exact_def lr_inv_def held_def)

lemma lr_exec_inv:
  assumes "lr_inv (fst s) (snd s)" "lr_exec op s = Some s'"
  shows "lr_inv (fst s') (snd s') \<and> total (fst s') = total (fst s)"
proof (cases s)
  case (Pair R J)
  with assms(1) have inv: "lr_inv R J" by simp
  show ?thesis
  proof (cases op)
    case (NewRequest mem jid socket quantity type)
    with assms(2) Pair new_job_request_inv [OF inv] show ?thesis by auto
  next
    case (CheckQueues rnd mem)
    with assms(2) Pair chk_job_request_inv [OF inv] show ?thesis by auto
  next
    case (DelActive mem jid socket)
    with assms(2) Pair del_active_bucle_spec [OF inv, of mem jid socket res_types] show ?thesis
      by (cases s') (auto simp: del_active_job_def simp del: res_types_eq)
  next
    case (DelPending jid socket)
    with assms(2) Pair lr_inv_queue_filter [OF inv] show ?thesis
      by (auto simp: del_pending_job_requests_eq)
  next
    case (FreeSocket mem socket)
    with assms(2) Pair free_all_spec [OF inv, of mem socket] show ?thesis by auto
  qed
qed

lemma lr_exec_exact:
  assumes "lr_exact (fst s) (snd s)" "op_fresh op s" "lr_exec op s = Some s'"
  shows "lr_exact (fst s') (snd s')"
proof (cases s)
  case (Pair R J)
  with assms(1) have ex: "lr_exact R J" by simp
  show ?thesis
  proof (cases op)
    case (NewRequest mem jid socket quantity type)
    with assms(2,3) Pair new_job_request_exact [OF ex] show ?thesis by auto
  next
    case (CheckQueues rnd mem)
    with assms(3) Pair chk_job_request_exact [OF ex] show ?thesis by auto
  next
    case (DelActive mem jid socket)
    with assms(3) Pair del_active_job_exact [OF ex] show ?thesis by (cases s') simp
  next
    case (DelPending jid socket)
    with assms(3) Pair del_pending_exact [OF ex] show ?thesis by auto
  next
    case (FreeSocket mem socket)
    with assms(3) Pair free_all_exact [OF ex] show ?thesis by (cases s') simp
  qed
qed

lemma lr_run_inv:
  "lr_inv (fst s) (snd s) \<Longrightarrow> lr_run ops s = Some s' \<Longrightarrow>
     lr_inv (fst s') (snd s') \<and> total (fst s') = total (fst s)"
proof (induction ops arbitrary: s)
  case (Cons op ops)
  then obtain s1 where "lr_exec op s = Some s1" "lr_run ops s1 = Some s'" by (auto split: option.splits)
  with Cons lr_exec_inv show ?case by metis
qed simp

lemma lr_run_exact:
  "lr_exact (fst s) (snd s) \<Longrightarrow> run_fresh ops s \<Longrightarrow> lr_run ops s = Some s' \<Longrightarrow> lr_exact (fst s') (snd s')"
proof (induction ops arbitrary: s)
  case (Cons op ops)
  then obtain s1 where "lr_exec op s = Some s1" "lr_run ops s1 = Some s'" by (auto split: option.splits)
  with Cons lr_exec_exact [of s op s1] show ?case by auto
qed simp

lemma lr_exec_total:
  assumes inv: "lr_inv (fst s) (snd s)" and room: "th_room (k + RES_NUM) (snd s)" and ok: "op_ok op"
  shows "\<exists>s'. lr_exec op s = Some s' \<and> th_room k (snd s')"
proof (cases s)
  case (Pair R J)
  with inv room have inv: "lr_inv R J" and room: "th_room (k + RES_NUM) J" by simp_all
  have room': "th_room k J" by (rule th_room_mono [OF room]) simp
  note I = lr_invD(1) [OF inv]
  show ?thesis
  proof (cases op)
    case (NewRequest mem jid socket quantity type)
    with ok have type: "type \<noteq> INVALID_RES_TYPE" and mem by simp_all
    obtain J' where "tablahash_insertar J \<lparr>aj_job_id = jid, aj_socket = socket,
        aj_resource_quantity = quantity, aj_resource_type = type\<rparr> = Some J'" "th_room k J'"
      using aj.ins_total [OF I th_room_mono [OF room, of "Suc k"]] by (auto simp: RES_NUM_def)
    with new_job_request_branches [OF type, where resources = R and quantity = quantity and mem = mem and
        jobs = J and jid = jid and socket = socket] \<open>mem\<close> room' NewRequest Pair
    show ?thesis by (cases "total R type < quantity"; cases "avail R type < quantity") auto
  next
    case (CheckQueues rnd mem)
    have "th_room (k + length [0..<RES_NUM]) J" using room by simp
    from chk_bucle_total [OF inv this, of mem "rnd mod RES_NUM" "- 1" None] CheckQueues ok Pair
    show ?thesis by (auto simp: chk_job_request_def)
  next
    case (DelActive mem jid socket)
    obtain R' J' where del: "del_active_bucle mem jid socket res_types R J = Some (R', J')"
      using del_active_bucle_returns [OF inv] by blast
    have "th_room k J'"
      using del_active_bucle_spec [OF inv del] del_active_bucle_capacidad [OF del]
      by (intro th_room_shrink [OF I _ _ _ room']) (auto dest: lr_invD(1))
    with DelActive Pair del show ?thesis by (simp add: del_active_job_def del: res_types_eq)
  next
    case (DelPending jid socket)
    with Pair room' show ?thesis by simp
  next
    case (FreeSocket mem socket)
    obtain R' J' where free: "free_all_resources_from_socket mem R J socket = Some (R', J')"
      and "lr_inv R' J'" "th_set J' \<subseteq> th_set J"
      using free_all_spec [OF inv, of mem socket] by auto
    then have "th_room k J'"
      using free_all_capacidad [OF free] by (intro th_room_shrink [OF I _ _ _ room']) (auto dest: lr_invD(1))
    with FreeSocket Pair free show ?thesis by simp
  qed
qed

lemma lr_run_total:
  "lr_inv (fst s) (snd s) \<Longrightarrow> th_room (RES_NUM * length ops) (snd s) \<Longrightarrow> list_all op_ok ops \<Longrightarrow>
     \<exists>s'. lr_run ops s = Some s'"
proof (induction ops arbitrary: s)
  case (Cons op ops)
  have "th_room (RES_NUM * length ops + RES_NUM) (snd s)" using Cons.prems(2) by (simp add: add.commute)
  from lr_exec_total [OF Cons.prems(1) this, of op] Cons.prems(3) obtain s1
    where s1: "lr_exec op s = Some s1" "th_room (RES_NUM * length ops) (snd s1)" by auto
  with Cons lr_exec_inv [OF Cons.prems(1) s1(1)] show ?case by auto
qed simp

lemma lr_init_room: "10 * k \<le> 7 * 2 ^ 30 \<Longrightarrow> th_room k (snd (lr_init cpu gpu ram))"
  by (simp add: lr_init_def create_active_jobs_table_def th_room_def tablahash_crear_def)

lemma total_lr_init: "total (fst (lr_init cpu gpu ram)) = (\<lambda>_. 0)(CPU := cpu, GPU := gpu, RAM := ram)"
  by (simp add: lr_init_def create_local_resource_eq)

text \<open>A table with given reservations, for the examples below.\<close>

lemma table_with:
  assumes "distinct (map aj_key es)" "10 * (k + length es) \<le> 7 * 2 ^ 30"
  shows "\<exists>J. aj_inv J \<and> th_set J = set es \<and> th_room k J"
  using assms
proof (induction es arbitrary: k)
  case Nil
  then show ?case
    using create_active_jobs_table_inv lr_init_room [of k 0 0 0] by (auto simp: lr_init_def)
next
  case (Cons e es)
  from Cons.IH [of "Suc k"] Cons.prems
  obtain J where J: "aj_inv J" "th_set J = set es" "th_room (Suc k) J" by auto
  with aj.ins_total [OF J(1,3)] obtain J' where J': "tablahash_insertar J e = Some J'" "th_room k J'" by blast
  have "\<forall>x \<in> set es. aj_key x \<noteq> aj_key e" using Cons.prems(1) by auto (metis image_eqI)
  then have "{x \<in> set es. aj_key x \<noteq> aj_key e} = set es" by auto
  with aj.ins_spec [OF J(1) J'(1)] J(2) J'(2) show ?case by (intro exI [of _ J']) auto
qed

definition ej_grant :: elem_active_job_t where
  "ej_grant = \<lparr>aj_job_id = 1, aj_socket = 5, aj_resource_quantity = 3, aj_resource_type = CPU\<rparr>"

definition ej_resources :: local_resources_t where
  "ej_resources = \<lparr>total = (\<lambda>_. 8), avail = (\<lambda>_. 8)(CPU := 5),
     request_queue = (\<lambda>_. [])(CPU := [\<lparr>jr_job_id = 2, jr_socket = 6, jr_resource_quantity = 4,
       jr_resource_type = CPU\<rparr>])\<rparr>"

text \<open>A node on which three of eight CPUs are granted and a request for four waits.\<close>

lemma ej_exact:
  assumes "aj_inv J" "th_set J = {ej_grant}"
  shows "lr_exact ej_resources J"
  using assms
  by (auto simp: lr_exact_def lr_inv_def ej_resources_def ej_grant_def held_def aj_amount_def jr_key_def
      aj_key_def word_le_nat_alt)

lemma ej_table: "\<exists>J. aj_inv J \<and> th_set J = {ej_grant} \<and> th_room RES_NUM J"
  using table_with [of "[ej_grant]" RES_NUM] by (simp add: RES_NUM_def)

section \<open>Properties\<close>

text \<open>
  Claim C2. The node never promises more than it has: after any sequence of requests, queue checks,
  releases and disconnections (whatever keys, amounts and memory failures), what is available and
  what the table records as granted of each resource are together at most the configured total, so
  that no counter wraps. The totals never change.
\<close>

theorem inventory_never_overcommits:
  assumes "lr_run ops (lr_init cpu gpu ram) = Some (R, J)" "r \<noteq> INVALID_RES_TYPE"
  shows "unat (avail R r) + held J r \<le> unat (total R r) \<and>
    total R = (\<lambda>_. 0)(CPU := cpu, GPU := gpu, RAM := ram)"
proof -
  have "lr_inv R J" "total R = (\<lambda>_. 0)(CPU := cpu, GPU := gpu, RAM := ram)"
    using lr_run_inv [OF lr_exactD(1) [OF lr_init_exact] assms(1)] by (simp_all add: total_lr_init)
  with lr_invD(3) [OF _ assms(2)] show ?thesis by blast
qed

theorem inventory_never_overcommits_witness:
  "\<exists>R J. lr_run [NewRequest True 1 5 3 CPU, NewRequest True 2 6 4 CPU, NewRequest True 3 7 8 CPU,
         DelActive (\<lambda>_. True) 1 5, CheckQueues 0 (\<lambda>_. True), FreeSocket True 6] (lr_init 8 2 16) = Some (R, J) \<and>
     unat (avail R CPU) + held J CPU \<le> 8"
proof -
  let ?ops = "[NewRequest True 1 5 3 CPU, NewRequest True 2 6 4 CPU, NewRequest True 3 7 8 CPU,
    DelActive (\<lambda>_. True) 1 5, CheckQueues 0 (\<lambda>_. True), FreeSocket True 6]"
  have "th_room (RES_NUM * length ?ops) (snd (lr_init 8 2 16))" by (rule lr_init_room) (simp add: RES_NUM_def)
  then obtain R J where run: "lr_run ?ops (lr_init 8 2 16) = Some (R, J)"
    using lr_run_total [OF lr_exactD(1) [OF lr_init_exact], of ?ops 8 2 16] by auto
  from inventory_never_overcommits [OF run, of CPU] run show ?thesis by auto
qed

text \<open>
  Claim C3. Nothing is lost: when no request re-uses the key (job, socket, resource type) of a
  reservation or of a waiting request, available and granted amounts add up to the total exactly,
  and a node without reservations has all its capacity available again.
\<close>

theorem inventory_conserves:
  assumes "lr_run ops (lr_init cpu gpu ram) = Some (R, J)" "run_fresh ops (lr_init cpu gpu ram)"
    and "r \<noteq> INVALID_RES_TYPE"
  shows "unat (avail R r) + held J r = unat (total R r) \<and> (th_set J = {} \<longrightarrow> avail R r = total R r)"
proof -
  have "lr_exact R J" using lr_run_exact [OF lr_init_exact assms(2,1)] by simp
  from lr_exactD(2) [OF this assms(3)] show ?thesis
    by (auto simp: held_def intro: word_unat_eq_iff [THEN iffD2])
qed

theorem inventory_conserves_witness:
  "\<exists>R J. lr_run [NewRequest True 1 5 3 CPU, DelActive (\<lambda>_. True) 1 5] (lr_init 8 2 16) = Some (R, J) \<and>
     unat (avail R CPU) + held J CPU = unat (total R CPU)"
proof -
  let ?ops = "[NewRequest True 1 5 3 CPU, DelActive (\<lambda>_. True) 1 5]"
  have "th_room (RES_NUM * length ?ops) (snd (lr_init 8 2 16))" by (rule lr_init_room) (simp add: RES_NUM_def)
  then obtain R J where run: "lr_run ?ops (lr_init 8 2 16) = Some (R, J)"
    using lr_run_total [OF lr_exactD(1) [OF lr_init_exact], of ?ops 8 2 16] by auto
  have "run_fresh ?ops (lr_init 8 2 16)"
    using create_active_jobs_table_inv
    by (auto simp: lr_init_def create_local_resource_eq lr_keys_def split: option.split)
  from inventory_conserves [OF run this, of CPU] run show ?thesis by auto
qed

text \<open>
  Claim C4. No history is undefined: when the allocations succeed and the resource types are valid,
  every sequence of up to 250 million operations on a new node runs to its end.
\<close>

theorem inventory_run_total:
  assumes "list_all op_ok ops" "30 * length ops \<le> 7 * 2 ^ 30"
  shows "\<exists>R J. lr_run ops (lr_init cpu gpu ram) = Some (R, J)"
proof -
  have "th_room (RES_NUM * length ops) (snd (lr_init cpu gpu ram))"
    using assms(2) by (intro lr_init_room) (simp add: RES_NUM_def)
  from lr_run_total [OF lr_exactD(1) [OF lr_init_exact] this assms(1)] show ?thesis by auto
qed

theorem inventory_run_total_witness:
  "\<exists>R J. lr_run [NewRequest True 1 5 3 CPU, NewRequest True 1 5 9 GPU, CheckQueues 1 (\<lambda>_. True),
     FreeSocket False 5, DelPending 1 5] (lr_init 8 2 16) = Some (R, J)"
  by (rule inventory_run_total) simp_all

text \<open>
  Claim C5. \<^verbatim>\<open>new_job_request\<close> implements the specification: it denies (-1) what passes the node's
  capacity, queues (0) what does not fit now and grants (1) the rest, and keeps the books exact.
\<close>

theorem new_job_request_correct:
  assumes "lr_exact resources jobs" "(jid, socket, type) \<notin> lr_keys resources jobs"
    "type \<noteq> INVALID_RES_TYPE" "th_room 1 jobs"
  shows "\<exists>c resources' jobs'.
    new_job_request True resources jobs jid socket quantity type = Some (c, resources', jobs') \<and>
    spec_request jid socket (unat quantity) type (abs_inventory resources jobs) =
      (c, abs_inventory resources' jobs') \<and> lr_exact resources' jobs'"
  using assms by (rule request_spec)

theorem new_job_request_correct_witness:
  "\<exists>J c resources' jobs'. th_set J = {ej_grant} \<and>
     new_job_request True ej_resources J 7 9 4 CPU = Some (c, resources', jobs') \<and> c = 1 \<and>
     lr_exact resources' jobs'"
proof -
  obtain J where J: "aj_inv J" "th_set J = {ej_grant}" "th_room RES_NUM J" using ej_table by blast
  note ex = ej_exact [OF J(1,2)]
  have "(7, 9, CPU) \<notin> lr_keys ej_resources J"
    using J(2) by (simp add: lr_keys_def ej_resources_def jr_key_def ej_grant_def aj_key_def)
  moreover have "th_room 1 J" using J(3) by (rule th_room_mono) (simp add: RES_NUM_def)
  moreover have "fst (spec_request 7 9 (unat (4 :: u32)) CPU (abs_inventory ej_resources J)) = 1"
    using abs_free [OF ex, of CPU] by (simp add: spec_request_def) (simp add: abs_inventory_def ej_resources_def)
  ultimately show ?thesis
    using new_job_request_correct [OF ex, of 7 9 CPU 4] J(2) by auto
qed



text \<open>
  Claim C7. \<^verbatim>\<open>del_active_job\<close> takes out every reservation of the job on that socket, of all resource
  types, returns the amounts to the pool without wrap-around and leaves the waiting requests alone.
\<close>

theorem del_active_job_correct:
  assumes ex: "lr_exact resources jobs"
  shows "\<exists>resources' jobs'.
    del_active_job (\<lambda>_. True) resources jobs job_id socket = Some (resources', jobs') \<and>
    abs_inventory resources' jobs' = spec_release job_id socket (abs_inventory resources jobs) \<and>
    request_queue resources' = request_queue resources \<and> lr_exact resources' jobs'"
proof -
  note inv = lr_exactD(1) [OF ex]
  obtain resources' jobs' where del:
    "del_active_job (\<lambda>_. True) resources jobs job_id socket = Some (resources', jobs')"
    and "abs_inventory resources' jobs' = spec_release job_id socket (abs_inventory resources jobs)"
    using release_refines [OF inv, of "\<lambda>_. True"] by blast
  with del_active_bucle_spec [OF inv del [unfolded del_active_job_def]] del_active_job_exact [OF ex del]
  show ?thesis by blast
qed

theorem del_active_job_correct_witness:
  "\<exists>J resources' jobs'. th_set J = {ej_grant} \<and>
     del_active_job (\<lambda>_. True) ej_resources J 1 5 = Some (resources', jobs') \<and> lr_exact resources' jobs'"
  using ej_table ej_exact del_active_job_correct [of ej_resources _ 1 5] by metis

text \<open>
  Claim C8. When a peer disconnects, \<^verbatim>\<open>free_all_resources_from_socket\<close> takes out all its
  reservations and all its waiting requests and returns the amounts, provided it holds at most 100
  reservations (the size of the buffer of the sweep).
\<close>

theorem free_all_resources_correct:
  assumes ex: "lr_exact resources jobs"
    and few: "length (filter (\<lambda>e. aj_socket e = socket) (th_list jobs)) \<le> SWEEP_MAX"
  shows "\<exists>resources' jobs'.
    free_all_resources_from_socket True resources jobs socket = Some (resources', jobs') \<and>
    abs_inventory resources' jobs' = spec_drop socket (abs_inventory resources jobs) \<and>
    lr_exact resources' jobs'"
  using drop_refines [OF lr_exactD(1) [OF ex] few] free_all_exact [OF ex] by blast

theorem free_all_resources_correct_witness:
  "\<exists>J resources' jobs'. th_set J = {ej_grant} \<and>
     free_all_resources_from_socket True ej_resources J 5 = Some (resources', jobs') \<and> lr_exact resources' jobs'"
proof -
  obtain J where J: "aj_inv J" "th_set J = {ej_grant}" using ej_table by blast
  have "length (filter (\<lambda>e. aj_socket e = 5) (th_list J)) \<le> numElems J"
    using J(1) by (simp add: th_inv_def th_wf_def)
  also have "\<dots> = 1" using aj.nelems_card [OF J(1)] J(2) by simp
  finally show ?thesis
    using free_all_resources_correct [OF ej_exact [OF J], of 5] J(2) by (auto simp: SWEEP_MAX_def)
qed

text \<open>
  The sweep takes out at most 100 reservations: of a peer that holds more, all but 100 stay
  granted to the socket that is gone.
\<close>

theorem free_all_resources_limit:
  assumes inv: "lr_inv resources jobs"
    and many: "SWEEP_MAX \<le> card {e \<in> th_set jobs. aj_socket e = socket}"
    and free: "free_all_resources_from_socket True resources jobs socket = Some (resources', jobs')"
  shows "card {e \<in> th_set jobs'. aj_socket e = socket} =
    card {e \<in> th_set jobs. aj_socket e = socket} - SWEEP_MAX"
proof -
  note I = lr_invD(1) [OF inv]
  let ?L = "filter (\<lambda>e. aj_socket e = socket) (th_list jobs)"
  have dis: "distinct ?L" using aj.list_distinct [OF I] by (simp add: distinct_map)
  have L: "set ?L = {e \<in> th_set jobs. aj_socket e = socket}" by (auto simp: th_set_def)
  have "length (swept jobs socket) = SWEEP_MAX"
    using many distinct_card [OF dis, unfolded L] by (simp add: swept_def)
  moreover have "distinct (swept jobs socket)" using dis by (simp add: swept_def)
  ultimately have "card (set (swept jobs socket)) = SWEEP_MAX" by (simp add: distinct_card)
  moreover have "th_set jobs' = th_set jobs - set (swept jobs socket)"
    using free_all_spec [OF inv, of True socket] free by simp
  then have "{e \<in> th_set jobs'. aj_socket e = socket} =
      {e \<in> th_set jobs. aj_socket e = socket} - set (swept jobs socket)" by auto
  ultimately show ?thesis using swept_props(1) [OF I, of socket] by (simp add: card_Diff_subset)
qed

theorem free_all_resources_limit_witness:
  "\<exists>J resources' jobs'. card {e \<in> th_set J. aj_socket e = 5} = 120 \<and>
     free_all_resources_from_socket True ej_resources J 5 = Some (resources', jobs') \<and>
     card {e \<in> th_set jobs'. aj_socket e = 5} = 20"
proof -
  let ?e = "\<lambda>i. \<lparr>aj_job_id = of_nat i, aj_socket = 5, aj_resource_quantity = 0, aj_resource_type = CPU\<rparr>"
  let ?es = "map ?e [0..<120]"
  have inj: "inj_on (of_nat :: nat \<Rightarrow> u32) {0..<120}"
    by (rule inj_onI) (auto simp: word_of_nat_eq_iff take_bit_nat_eq_self)
  then have "distinct (map aj_key ?es)" by (simp add: distinct_map comp_inj_on_iff inj_on_def aj_key_def)
  then obtain J where J: "aj_inv J" "th_set J = set ?es" using table_with [of ?es 0] by auto
  have "{e \<in> th_set J. aj_socket e = 5} = ?e ` {0..<120}" unfolding J(2) set_map set_upt by force
  moreover have "inj_on ?e {0..<120}" using inj by (simp add: inj_on_def)
  ultimately have card: "card {e \<in> th_set J. aj_socket e = 5} = 120" by (simp add: card_image)
  have "held J r = 0" for r using J(2) by (auto simp: held_def aj_amount_def)
  then have inv: "lr_inv ej_resources J"
    using J by (auto simp: lr_inv_def ej_resources_def word_le_nat_alt)
  obtain R' J' where free: "free_all_resources_from_socket True ej_resources J 5 = Some (R', J')"
    using free_all_spec [OF inv] by blast
  from free_all_resources_limit [OF inv _ free] card free show ?thesis by (auto simp: SWEEP_MAX_def)
qed

text \<open>
  Claim C10. A second grant to the key of a live reservation loses the first one: the table replaces
  the record, so the amount of the first grant is never returned to the pool.
\<close>

theorem regrant_loses_capacity:
  assumes ex: "lr_exact resources jobs" and old: "e \<in> th_set jobs" "aj_key e = (jid, socket, type)"
    and fits: "quantity \<le> avail resources type"
    and new: "new_job_request True resources jobs jid socket quantity type = Some (c, resources', jobs')"
  shows "c = 1 \<and>
    unat (avail resources' type) + held jobs' type + unat (aj_resource_quantity e) = unat (total resources' type)"
proof -
  note inv = lr_exactD(1) [OF ex]
  note I = lr_invD(1) [OF inv]
  have type: "type \<noteq> INVALID_RES_TYPE" using new by (auto simp: new_job_request_def)
  let ?e = "\<lparr>aj_job_id = jid, aj_socket = socket, aj_resource_quantity = quantity, aj_resource_type = type\<rparr>"
  have le: "quantity \<le> total resources type"
    using fits lr_invD(3) [OF inv type] by (simp add: word_le_nat_alt)
  have ins: "tablahash_insertar jobs ?e = Some jobs'" and "c = 1" and
    R: "resources' = resources\<lparr>avail := (avail resources)(type := avail resources type - quantity)\<rparr>"
    using new new_job_request_branches(3) [OF type le fits] by auto
  have find: "tablahash_buscar jobs ?e = Some (Some e)"
    using aj.find_Some [OF I] old by (simp add: aj_key_def)
  have "held jobs' type = unat quantity + sum (aj_amount type) (th_set jobs - {e})"
    using aj.sum_ins [OF I ins, where f = "aj_amount type"] aj.contents_without [OF I find]
    by (simp add: held_def aj_amount_def)
  moreover have "held jobs type = aj_amount type e + sum (aj_amount type) (th_set jobs - {e})"
    unfolding held_def by (rule sum_filter_remove) (use old(1) in auto)
  moreover have "aj_amount type e = unat (aj_resource_quantity e)" using old(2) by (simp add: aj_amount_def aj_key_def)
  ultimately show ?thesis
    using lr_exactD(2) [OF ex type] fits \<open>c = 1\<close> by (simp add: R unat_diff_le word_le_nat_alt)
qed

theorem regrant_loses_capacity_witness:
  "\<exists>J resources' jobs'. th_set J = {ej_grant} \<and>
     new_job_request True ej_resources J 1 5 2 CPU = Some (1, resources', jobs') \<and>
     unat (avail resources' CPU) + held jobs' CPU + 3 = unat (total resources' CPU)"
proof -
  obtain J where J: "aj_inv J" "th_set J = {ej_grant}" "th_room RES_NUM J" using ej_table by blast
  obtain J' where "tablahash_insertar J \<lparr>aj_job_id = 1, aj_socket = 5, aj_resource_quantity = 2,
      aj_resource_type = CPU\<rparr> = Some J'"
    using aj.ins_total [OF J(1) th_room_mono [OF J(3), of "Suc 0"]] by (auto simp: RES_NUM_def)
  then have "\<exists>R. new_job_request True ej_resources J 1 5 2 CPU = Some (1, R, J')"
    by (simp add: new_job_request_branches(3) ej_resources_def)
  then obtain R where new: "new_job_request True ej_resources J 1 5 2 CPU = Some (1, R, J')" by blast
  have "ej_grant \<in> th_set J" "aj_key ej_grant = (1, 5, CPU)" "(2 :: u32) \<le> avail ej_resources CPU"
    using J(2) by (simp_all add: ej_grant_def aj_key_def ej_resources_def)
  from regrant_loses_capacity [OF ej_exact [OF J(1,2)] this new] new J(2) show ?thesis
    by (auto simp: ej_grant_def)
qed

end
