(* ===== verification/Owned_Jobs.thy ===== *)
theory Owned_Jobs
  imports Tablahash
begin

text \<open>
  The jobs of the local scheduler, \<^verbatim>\<open>c_agent/src/resources/owned_jobs.c\<close>. A job is an ordered list of
  petitions to other nodes, which are sent one at a time: the next RESERVE goes out when the last one
  was granted. \<open>oj_petitions\<close> is the initialised part of the array \<^verbatim>\<open>petitions\<close>, so that
  \<^verbatim>\<open>petition_count\<close> is its length; reading past it, or comparing a NULL address (from a failed
  \<^verbatim>\<open>strduplicate\<close>), is undefined. \<open>now\<close> is the value of \<^verbatim>\<open>time (NULL)\<close>, \<open>mem\<close> whether \<^verbatim>\<open>malloc\<close> succeeds.

  The invariant \<open>oj_ok\<close> is the protocol: the petitions before the last one sent are granted, those
  not sent are not.
\<close>

section \<open>Data\<close>

definition MAX_JOB_RESOURCES :: nat where
  "MAX_JOB_RESOURCES = 50"

definition JOB_TIMEOUT :: int where
  "JOB_TIMEOUT = 20"

record job_petition_t =
  jp_ip :: "string option"
  jp_port :: u32
  jp_type :: resource_t
  jp_quantity :: u32
  jp_is_granted :: int

record elem_owned_job_t =
  oj_job_id :: u32
  oj_owner_socket :: u32
  oj_grant_notified :: int
  oj_created_at :: int
  oj_next_reserve_idx :: nat
  oj_petitions :: "job_petition_t list"

type_synonym owned_jobs_t = "elem_owned_job_t TablaHash"

abbreviation petition_count :: "elem_owned_job_t \<Rightarrow> nat" where
  "petition_count job \<equiv> length (oj_petitions job)"

section \<open>Helpers of the table\<close>

definition copy_owned_job :: "elem_owned_job_t \<Rightarrow> elem_owned_job_t" where
  "copy_owned_job e = e"

definition comp_owned_job :: "elem_owned_job_t \<Rightarrow> elem_owned_job_t \<Rightarrow> int" where
  "comp_owned_job a b = (if oj_job_id a \<noteq> oj_job_id b then 1 else 0)"

definition hash_owned_job :: "elem_owned_job_t \<Rightarrow> u32" where
  "hash_owned_job e = oj_job_id e"

definition create_owned_jobs :: owned_jobs_t where
  "create_owned_jobs = tablahash_crear 11 copy_owned_job comp_owned_job hash_owned_job"

definition delete_owned_jobs :: "owned_jobs_t \<Rightarrow> elem_owned_job_t list" where
  "delete_owned_jobs jobs = tablahash_destruir jobs"

text \<open>\<^verbatim>\<open>elem_owned_job_t dummy = { .job_id = job_id }\<close>: the other fields are zero.\<close>

definition oj_dummy :: "u32 \<Rightarrow> elem_owned_job_t" where
  "oj_dummy jid = \<lparr>oj_job_id = jid, oj_owner_socket = 0, oj_grant_notified = 0, oj_created_at = 0,
     oj_next_reserve_idx = 0, oj_petitions = []\<rparr>"

section \<open>Building a job\<close>

definition add_new_owned_job ::
  "bool \<Rightarrow> int \<Rightarrow> owned_jobs_t \<Rightarrow> u32 \<Rightarrow> u32 \<Rightarrow> (int \<times> owned_jobs_t) result" where
  "add_new_owned_job mem now jobs jid owner_socket =
     (if \<not> mem then Some (0, jobs)
      else
        case tablahash_insertar jobs
            \<lparr>oj_job_id = jid, oj_owner_socket = owner_socket, oj_grant_notified = 0,
             oj_created_at = now, oj_next_reserve_idx = 0, oj_petitions = []\<rparr> of
          None \<Rightarrow> None
        | Some jobs' \<Rightarrow> Some (1, jobs'))"

definition get_job_owner_socket :: "owned_jobs_t \<Rightarrow> u32 \<Rightarrow> u32 result" where
  "get_job_owner_socket jobs jid =
     (case tablahash_buscar jobs (oj_dummy jid) of
        None \<Rightarrow> None
      | Some None \<Rightarrow> Some 0
      | Some (Some job) \<Rightarrow> Some (oj_owner_socket job))"

definition append_petition_to_job ::
  "bool \<Rightarrow> owned_jobs_t \<Rightarrow> u32 \<Rightarrow> string \<Rightarrow> u32 \<Rightarrow> resource_t \<Rightarrow> u32 \<Rightarrow> (int \<times> owned_jobs_t) result" where
  "append_petition_to_job mem jobs jid ip port type quantity =
     (case tablahash_buscar jobs (oj_dummy jid) of
        None \<Rightarrow> None
      | Some None \<Rightarrow> Some (0, jobs)
      | Some (Some job) \<Rightarrow>
          if MAX_JOB_RESOURCES \<le> petition_count job then Some (0, jobs)
          else
            case th_asignar jobs (oj_dummy jid)
                (job\<lparr>oj_petitions := oj_petitions job @
                   [\<lparr>jp_ip = (if mem then Some ip else None), jp_port = port, jp_type = type,
                     jp_quantity = quantity, jp_is_granted = 0\<rparr>]\<rparr>) of
              None \<Rightarrow> None
            | Some jobs' \<Rightarrow> Some (1, jobs'))"

section \<open>Answers of other nodes\<close>

text \<open>Whether the petition goes to the node; \<^verbatim>\<open>strcmp\<close> is only called when the ports agree.\<close>

definition jp_to :: "job_petition_t \<Rightarrow> string option \<Rightarrow> u32 \<Rightarrow> bool result" where
  "jp_to p ip port =
     (if jp_port p \<noteq> port then Some False
      else case (jp_ip p, ip) of (Some s, Some t) \<Rightarrow> Some (s = t) | _ \<Rightarrow> None)"

definition mark_petition_as_granted ::
  "owned_jobs_t \<Rightarrow> u32 \<Rightarrow> string option \<Rightarrow> u32 \<Rightarrow> (int \<times> owned_jobs_t) result" where
  "mark_petition_as_granted jobs jid ip port =
     (case tablahash_buscar jobs (oj_dummy jid) of
        None \<Rightarrow> None
      | Some None \<Rightarrow> Some (- 1, jobs)
      | Some (Some job) \<Rightarrow>
          if oj_next_reserve_idx job = 0 then Some (- 1, jobs)
          else if petition_count job \<le> oj_next_reserve_idx job - 1 then None
          else
            let idx = oj_next_reserve_idx job - 1; p = oj_petitions job ! idx
            in case jp_to p ip port of
                 None \<Rightarrow> None
               | Some False \<Rightarrow> Some (- 1, jobs)
               | Some True \<Rightarrow>
                   if jp_is_granted p \<noteq> 0 then Some (- 1, jobs)
                   else
                     let ps = (oj_petitions job)[idx := p\<lparr>jp_is_granted := 1\<rparr>];
                         all_granted = list_all (\<lambda>p. jp_is_granted p \<noteq> 0) ps;
                         job' = job\<lparr>oj_petitions := ps\<rparr>;
                         (ret, job'') = (if all_granted \<and> oj_grant_notified job = 0
                            then (1, job'\<lparr>oj_grant_notified := 1\<rparr>) else (0, job'))
                     in case th_asignar jobs (oj_dummy jid) job'' of
                          None \<Rightarrow> None
                        | Some jobs' \<Rightarrow> Some (ret, jobs'))"

text \<open>The petition to send next, if any.\<close>

definition get_next_reserve ::
  "owned_jobs_t \<Rightarrow> u32 \<Rightarrow> (job_petition_t option \<times> owned_jobs_t) result" where
  "get_next_reserve jobs jid =
     (case tablahash_buscar jobs (oj_dummy jid) of
        None \<Rightarrow> None
      | Some None \<Rightarrow> Some (None, jobs)
      | Some (Some job) \<Rightarrow>
          if petition_count job \<le> oj_next_reserve_idx job then Some (None, jobs)
          else
            case th_asignar jobs (oj_dummy jid)
                (job\<lparr>oj_next_reserve_idx := u_inc (oj_next_reserve_idx job)\<rparr>) of
              None \<Rightarrow> None
            | Some jobs' \<Rightarrow> Some (Some (oj_petitions job ! oj_next_reserve_idx job), jobs'))"

text \<open>The loop over the petitions sent; the second argument is what is left of \<^verbatim>\<open>max_size\<close>.\<close>

primrec granted_bucle :: "nat \<Rightarrow> nat \<Rightarrow> job_petition_t list \<Rightarrow> job_petition_t list result" where
  "granted_bucle 0 left ps = Some []"
| "granted_bucle (Suc n) left ps =
     (if left = 0 then Some []
      else case ps of
        [] \<Rightarrow> None
      | p # ps' \<Rightarrow>
          if jp_is_granted p = 1 then map_option (Cons p) (granted_bucle n (left - 1) ps')
          else granted_bucle n left ps')"

definition get_granted_resources :: "owned_jobs_t \<Rightarrow> u32 \<Rightarrow> nat \<Rightarrow> job_petition_t list result" where
  "get_granted_resources jobs jid max_size =
     (case tablahash_buscar jobs (oj_dummy jid) of
        None \<Rightarrow> None
      | Some None \<Rightarrow> Some []
      | Some (Some job) \<Rightarrow> granted_bucle (oj_next_reserve_idx job) max_size (oj_petitions job))"

definition remove_owned_job :: "owned_jobs_t \<Rightarrow> u32 \<Rightarrow> owned_jobs_t result" where
  "remove_owned_job jobs jid = tablahash_eliminar jobs (oj_dummy jid)"

section \<open>Collecting jobs\<close>

text \<open>The contexts of the visitors: the array with the jobs found so far, and its size.\<close>

record dead_node_ctx_t =
  dn_ip :: "string option"
  dn_port :: u32
  dn_affected_jobs :: "u32 list"
  dn_max :: nat

record timeout_ctx_t =
  to_job_ids :: "u32 list"
  to_max :: nat
  to_now :: int

record orphan_ctx_t =
  or_dead_socket :: u32
  or_orphaned_jobs :: "u32 list"
  or_max :: nat

fun dead_bucle :: "string option \<Rightarrow> u32 \<Rightarrow> job_petition_t list \<Rightarrow> bool result" where
  "dead_bucle ip port [] = Some False"
| "dead_bucle ip port (p # ps) =
     (case jp_to p ip port of
        None \<Rightarrow> None
      | Some True \<Rightarrow> Some True
      | Some False \<Rightarrow> dead_bucle ip port ps)"

definition check_job_for_dead_node ::
  "elem_owned_job_t \<Rightarrow> dead_node_ctx_t result \<Rightarrow> dead_node_ctx_t result" where
  "check_job_for_dead_node job c =
     (case c of
        None \<Rightarrow> None
      | Some ctx \<Rightarrow>
          if dn_max ctx \<le> length (dn_affected_jobs ctx) then Some ctx
          else case dead_bucle (dn_ip ctx) (dn_port ctx) (oj_petitions job) of
                 None \<Rightarrow> None
               | Some True \<Rightarrow> Some (ctx\<lparr>dn_affected_jobs := dn_affected_jobs ctx @ [oj_job_id job]\<rparr>)
               | Some False \<Rightarrow> Some ctx)"

definition get_jobs_affected_by_dead_node ::
  "owned_jobs_t \<Rightarrow> string option \<Rightarrow> u32 \<Rightarrow> nat \<Rightarrow> u32 list result" where
  "get_jobs_affected_by_dead_node jobs dead_ip dead_port max_size =
     map_option dn_affected_jobs (tablahash_visitar_extra jobs check_job_for_dead_node
       (Some \<lparr>dn_ip = dead_ip, dn_port = dead_port, dn_affected_jobs = [], dn_max = max_size\<rparr>))"

definition check_timeout_job :: "elem_owned_job_t \<Rightarrow> timeout_ctx_t \<Rightarrow> timeout_ctx_t" where
  "check_timeout_job job ctx =
     (if to_max ctx \<le> length (to_job_ids ctx) then ctx
      else if oj_grant_notified job \<noteq> 0 then ctx
      else if JOB_TIMEOUT < to_now ctx - oj_created_at job
      then ctx\<lparr>to_job_ids := to_job_ids ctx @ [oj_job_id job]\<rparr> else ctx)"

definition collect_timed_out_jobs :: "int \<Rightarrow> owned_jobs_t \<Rightarrow> nat \<Rightarrow> u32 list" where
  "collect_timed_out_jobs now jobs max_size =
     to_job_ids (tablahash_visitar_extra jobs check_timeout_job
       \<lparr>to_job_ids = [], to_max = max_size, to_now = now\<rparr>)"

definition check_orphaned_jobs :: "elem_owned_job_t \<Rightarrow> orphan_ctx_t \<Rightarrow> orphan_ctx_t" where
  "check_orphaned_jobs job ctx =
     (if or_max ctx \<le> length (or_orphaned_jobs ctx) then ctx
      else if oj_owner_socket job = or_dead_socket ctx
      then ctx\<lparr>or_orphaned_jobs := or_orphaned_jobs ctx @ [oj_job_id job]\<rparr> else ctx)"

definition get_jobs_by_owner_socket :: "owned_jobs_t \<Rightarrow> u32 \<Rightarrow> nat \<Rightarrow> u32 list" where
  "get_jobs_by_owner_socket jobs socket max_size =
     or_orphaned_jobs (tablahash_visitar_extra jobs check_orphaned_jobs
       \<lparr>or_dead_socket = socket, or_orphaned_jobs = [], or_max = max_size\<rparr>)"

section \<open>The table of jobs\<close>

abbreviation oj_tab :: "owned_jobs_t \<Rightarrow> bool" where
  "oj_tab \<equiv> th_inv oj_job_id hash_owned_job comp_owned_job"

lemma copy_owned_job_id: "copy_owned_job = (\<lambda>x. x)"
  by (rule ext) (simp add: copy_owned_job_def)

interpretation oj: tablahash oj_job_id hash_owned_job comp_owned_job
  by unfold_locales (auto simp: comp_owned_job_def hash_owned_job_def)

lemma oj_dummy_id [simp]: "oj_job_id (oj_dummy jid) = jid"
  by (simp add: oj_dummy_def)

text \<open>The job of a number.\<close>

definition oj_job :: "owned_jobs_t \<Rightarrow> u32 \<Rightarrow> elem_owned_job_t option" where
  "oj_job jobs = th_map oj_job_id jobs"

lemma oj_buscar: "oj_tab jobs \<Longrightarrow> tablahash_buscar jobs (oj_dummy jid) = Some (oj_job jobs jid)"
  by (simp add: oj.buscar_map oj_job_def)

lemma oj_job_Some: "oj_tab jobs \<Longrightarrow> oj_job jobs jid = Some job \<longleftrightarrow> job \<in> th_set jobs \<and> oj_job_id job = jid"
  by (simp add: oj.map_Some oj_job_def)

text \<open>An update of the fields of a job through its pointer.\<close>

lemma oj_asignar:
  assumes "oj_tab jobs" "oj_job jobs jid = Some job" "oj_job_id job' = jid"
  shows "\<exists>jobs'. th_asignar jobs (oj_dummy jid) job' = Some jobs' \<and> oj_tab jobs' \<and>
    oj_job jobs' = (oj_job jobs)(jid \<mapsto> job') \<and> numElems jobs' = numElems jobs \<and>
    capacidad jobs' = capacidad jobs"
proof -
  obtain jobs' where u: "th_asignar jobs (oj_dummy jid) job' = Some jobs'"
    using oj.asg_total [OF assms(1)] oj_buscar [OF assms(1), of jid] assms(2) by force
  with oj.asignar_map [OF assms(1) u] oj.asignar_spec [OF assms(1) u] assms(3) show ?thesis
    by (auto simp: oj_job_def)
qed

section \<open>The protocol of a job\<close>

text \<open>The number of petitions granted, from the first on.\<close>

definition oj_grants :: "elem_owned_job_t \<Rightarrow> nat" where
  "oj_grants job = length (takeWhile (\<lambda>p. jp_is_granted p = 1) (oj_petitions job))"

text \<open>
  At most one petition is outstanding: those before it are granted, it and those after it are not.
  The scheduler was notified exactly when all are granted.
\<close>

definition oj_ok :: "elem_owned_job_t \<Rightarrow> bool" where
  "oj_ok job \<longleftrightarrow>
     petition_count job \<le> MAX_JOB_RESOURCES \<and> list_all (\<lambda>p. jp_ip p \<noteq> None) (oj_petitions job) \<and>
     list_all (\<lambda>p. jp_is_granted p = 0) (drop (oj_grants job) (oj_petitions job)) \<and>
     oj_grants job \<le> oj_next_reserve_idx job \<and> oj_next_reserve_idx job \<le> Suc (oj_grants job) \<and>
     oj_next_reserve_idx job \<le> petition_count job \<and>
     oj_grant_notified job = (if 0 < oj_grants job \<and> oj_grants job = petition_count job then 1 else 0)"

definition oj_outstanding :: "elem_owned_job_t \<Rightarrow> bool" where
  "oj_outstanding job \<longleftrightarrow> oj_next_reserve_idx job = Suc (oj_grants job)"

text \<open>The petition that is waited for is granted.\<close>

definition oj_grant :: "elem_owned_job_t \<Rightarrow> elem_owned_job_t" where
  "oj_grant job =
     (let g = oj_grants job; ps = oj_petitions job
      in job\<lparr>oj_petitions := ps[g := (ps ! g)\<lparr>jp_is_granted := 1\<rparr>],
             oj_grant_notified := (if Suc g = length ps then 1 else oj_grant_notified job)\<rparr>)"

lemma oj_okD:
  assumes "oj_ok job"
  shows "petition_count job \<le> MAX_JOB_RESOURCES" "\<And>p. p \<in> set (oj_petitions job) \<Longrightarrow> jp_ip p \<noteq> None"
    "oj_grants job \<le> oj_next_reserve_idx job" "oj_next_reserve_idx job \<le> Suc (oj_grants job)"
    "oj_next_reserve_idx job \<le> petition_count job"
    "oj_grant_notified job = (if 0 < oj_grants job \<and> oj_grants job = petition_count job then 1 else 0)"
  using assms unfolding oj_ok_def list_all_iff by blast+

lemma oj_ok_split:
  assumes "oj_ok job"
  obtains as bs where "oj_petitions job = as @ bs" "length as = oj_grants job"
    "\<forall>p \<in> set as. jp_is_granted p = 1" "\<forall>p \<in> set bs. jp_is_granted p = 0"
proof
  let ?as = "takeWhile (\<lambda>p. jp_is_granted p = 1) (oj_petitions job)"
  let ?bs = "drop (oj_grants job) (oj_petitions job)"
  show "oj_petitions job = ?as @ ?bs"
    unfolding oj_grants_def by (metis append_take_drop_id takeWhile_eq_take)
  show "length ?as = oj_grants job" by (simp add: oj_grants_def)
  show "\<forall>p \<in> set ?as. jp_is_granted p = 1" by (auto dest: set_takeWhileD)
  show "\<forall>p \<in> set ?bs. jp_is_granted p = 0" using assms by (simp add: oj_ok_def list_all_iff)
qed

lemma oj_grantsI:
  assumes "oj_petitions job = as @ bs" "\<forall>p \<in> set as. jp_is_granted p = 1"
    "\<forall>p \<in> set bs. jp_is_granted p = 0"
  shows "oj_grants job = length as"
proof -
  have "takeWhile (\<lambda>p. jp_is_granted p = 1) (as @ bs) = as"
    using assms(2,3) by (cases bs) (simp_all add: takeWhile_append)
  then show ?thesis by (simp add: oj_grants_def assms(1))
qed

lemma oj_ok_grants_le: "oj_ok job \<Longrightarrow> oj_grants job \<le> petition_count job"
  by (simp add: oj_grants_def length_takeWhile_le)

lemma oj_grant_ok:
  assumes ok: "oj_ok job" and out: "oj_outstanding job"
  shows "oj_ok (oj_grant job) \<and> oj_grants (oj_grant job) = Suc (oj_grants job) \<and>
    \<not> oj_outstanding (oj_grant job) \<and> petition_count (oj_grant job) = petition_count job"
proof -
  obtain as bs where ps: "oj_petitions job = as @ bs" "length as = oj_grants job"
    "\<forall>p \<in> set as. jp_is_granted p = 1" "\<forall>p \<in> set bs. jp_is_granted p = 0"
    using oj_ok_split [OF ok] .
  have "oj_grants job < petition_count job" using ok out by (simp add: oj_ok_def oj_outstanding_def)
  then obtain b cs where bs: "bs = b # cs" using ps(1,2) by (cases bs) auto
  have new: "oj_petitions (oj_grant job) = (as @ [b\<lparr>jp_is_granted := 1\<rparr>]) @ cs"
    using ps(2) [symmetric] by (simp add: oj_grant_def Let_def ps(1) bs list_update_append)
  have g: "oj_grants (oj_grant job) = Suc (oj_grants job)"
    using ps(2) by (subst oj_grantsI [OF new]) (use ps(3,4) bs in auto)
  have "list_all (\<lambda>p. jp_is_granted p = 0) (drop (Suc (oj_grants job)) (oj_petitions (oj_grant job)))"
    using ps(2) [symmetric] ps(4) bs by (simp add: new list_all_iff)
  moreover have "list_all (\<lambda>p. jp_ip p \<noteq> None) (oj_petitions (oj_grant job))"
    using ok by (simp add: new oj_ok_def ps(1) bs)
  moreover have "oj_grant_notified job = 0" using ok \<open>oj_grants job < petition_count job\<close>
    by (simp add: oj_ok_def)
  ultimately show ?thesis
    using ok out by (simp add: oj_ok_def g oj_outstanding_def) (simp add: oj_grant_def Let_def)
qed

lemma mark_unknown:
  "oj_tab jobs \<Longrightarrow> oj_job jobs jid = None \<Longrightarrow> mark_petition_as_granted jobs jid ip port = Some (- 1, jobs)"
  by (simp add: mark_petition_as_granted_def oj_buscar)

text \<open>Only the answer of the node that was asked last, while it is awaited, counts.\<close>

lemma mark_ignored:
  assumes tab: "oj_tab jobs" and job: "oj_job jobs jid = Some job" and ok: "oj_ok job"
    and no: "\<not> (oj_outstanding job \<and> jp_port (oj_petitions job ! oj_grants job) = port \<and>
      jp_ip (oj_petitions job ! oj_grants job) = Some ip)"
  shows "mark_petition_as_granted jobs jid (Some ip) port = Some (- 1, jobs)"
proof (cases "oj_next_reserve_idx job")
  case 0
  then show ?thesis by (simp add: mark_petition_as_granted_def oj_buscar [OF tab] job)
next
  case (Suc idx)
  have idx: "idx < petition_count job" using oj_okD(5) [OF ok] Suc by simp
  obtain s where s: "jp_ip (oj_petitions job ! idx) = Some s"
    using oj_okD(2) [OF ok, of "oj_petitions job ! idx"] idx by auto
  have "jp_is_granted (oj_petitions job ! idx) = 1" if "\<not> oj_outstanding job"
  proof -
    have "idx < oj_grants job" using that oj_okD(3,4) [OF ok] Suc by (simp add: oj_outstanding_def)
    moreover obtain as bs where ps: "oj_petitions job = as @ bs" "length as = oj_grants job"
      "\<forall>p \<in> set as. jp_is_granted p = 1" "\<forall>p \<in> set bs. jp_is_granted p = 0"
      using oj_ok_split [OF ok] .
    ultimately show ?thesis by (simp add: nth_append)
  qed
  moreover have "idx = oj_grants job" if "oj_outstanding job"
    using that Suc by (simp add: oj_outstanding_def)
  ultimately show ?thesis
    using idx s no
    by (cases "s = ip"; cases "oj_outstanding job")
      (auto simp: mark_petition_as_granted_def oj_buscar [OF tab] job Let_def jp_to_def Suc)
qed

lemma mark_counts:
  assumes tab: "oj_tab jobs" and job: "oj_job jobs jid = Some job" and ok: "oj_ok job"
    and out: "oj_outstanding job" "jp_port (oj_petitions job ! oj_grants job) = port"
      "jp_ip (oj_petitions job ! oj_grants job) = Some ip"
  shows "\<exists>jobs'. mark_petition_as_granted jobs jid (Some ip) port =
      Some (if Suc (oj_grants job) = petition_count job then 1 else 0, jobs') \<and> oj_tab jobs' \<and>
    oj_job jobs' = (oj_job jobs)(jid \<mapsto> oj_grant job) \<and> numElems jobs' = numElems jobs \<and>
    capacidad jobs' = capacidad jobs"
proof -
  let ?g = "oj_grants job" and ?ps = "oj_petitions job"
  have g: "?g < length ?ps" using ok out(1) by (simp add: oj_ok_def oj_outstanding_def)
  obtain as bs where ps: "?ps = as @ bs" "length as = ?g"
    "\<forall>p \<in> set as. jp_is_granted p = 1" "\<forall>p \<in> set bs. jp_is_granted p = 0"
    using oj_ok_split [OF ok] .
  then obtain b cs where bs: "bs = b # cs" using g by (cases bs) auto
  have b: "?ps ! ?g = b" using ps(1,2) bs by (metis nth_append_length)
  have zero: "jp_is_granted (?ps ! ?g) = 0" using b ps(4) bs by simp
  have upd: "?ps[?g := (?ps ! ?g)\<lparr>jp_is_granted := 1\<rparr>] = as @ b\<lparr>jp_is_granted := 1\<rparr> # cs"
    using ps(1) ps(2) [symmetric] bs by (simp add: list_update_append)
  have all: "list_all (\<lambda>p. jp_is_granted p \<noteq> 0) (?ps[?g := (?ps ! ?g)\<lparr>jp_is_granted := 1\<rparr>]) \<longleftrightarrow>
      Suc ?g = length ?ps"
    unfolding upd using ps bs by (cases cs) (auto simp: list_all_iff)
  have nn: "oj_grant_notified job = 0" using ok g by (simp add: oj_ok_def)
  have "oj_job_id (oj_grant job) = jid"
    using oj_job_Some [OF tab] job by (simp add: oj_grant_def Let_def)
  from oj_asignar [OF tab job this] obtain jobs' where
    J: "th_asignar jobs (oj_dummy jid) (oj_grant job) = Some jobs'" "oj_tab jobs'"
      "oj_job jobs' = (oj_job jobs)(jid \<mapsto> oj_grant job)" "numElems jobs' = numElems jobs"
      "capacidad jobs' = capacidad jobs" by blast
  have grant: "oj_grant job = (if Suc ?g = length ?ps
      then job\<lparr>oj_petitions := ?ps[?g := (?ps ! ?g)\<lparr>jp_is_granted := 1\<rparr>], oj_grant_notified := 1\<rparr>
      else job\<lparr>oj_petitions := ?ps[?g := (?ps ! ?g)\<lparr>jp_is_granted := 1\<rparr>]\<rparr>)"
    by (cases job) (simp add: oj_grant_def Let_def)
  have "mark_petition_as_granted jobs jid (Some ip) port = Some (if Suc ?g = length ?ps then 1 else 0, jobs')"
    using J(1) out g zero nn all
    by (simp add: mark_petition_as_granted_def oj_buscar [OF tab] job Let_def jp_to_def oj_outstanding_def
        grant split: if_splits)
  with J show ?thesis by blast
qed

lemma next_none:
  assumes "oj_tab jobs" "oj_job jobs jid = None \<or> (\<exists>job. oj_job jobs jid = Some job \<and>
    petition_count job \<le> oj_next_reserve_idx job)"
  shows "get_next_reserve jobs jid = Some (None, jobs)"
  using assms by (auto simp: get_next_reserve_def oj_buscar)

definition oj_advance :: "elem_owned_job_t \<Rightarrow> elem_owned_job_t" where
  "oj_advance job = job\<lparr>oj_next_reserve_idx := Suc (oj_next_reserve_idx job)\<rparr>"

lemma oj_advance_simps [simp]:
  "oj_grants (oj_advance job) = oj_grants job" "oj_petitions (oj_advance job) = oj_petitions job"
  "oj_grant_notified (oj_advance job) = oj_grant_notified job" "oj_job_id (oj_advance job) = oj_job_id job"
  "oj_next_reserve_idx (oj_advance job) = Suc (oj_next_reserve_idx job)"
  by (simp_all add: oj_grants_def oj_advance_def)

lemma oj_advance_ok:
  assumes "oj_ok job" "\<not> oj_outstanding job" "oj_next_reserve_idx job < petition_count job"
  shows "oj_ok (oj_advance job) \<and> oj_outstanding (oj_advance job) \<and> oj_next_reserve_idx job = oj_grants job"
proof -
  have "oj_next_reserve_idx job = oj_grants job"
    using oj_okD(3,4) [OF assms(1)] assms(2) by (simp add: oj_outstanding_def)
  with assms show ?thesis
    by (simp add: oj_ok_def oj_outstanding_def)
qed

lemma next_some_bounded:
  assumes tab: "oj_tab jobs" and job: "oj_job jobs jid = Some job" and len: "petition_count job \<le> MAX_JOB_RESOURCES"
    and less: "oj_next_reserve_idx job < petition_count job"
  shows "\<exists>jobs'. get_next_reserve jobs jid =
      Some (Some (oj_petitions job ! oj_next_reserve_idx job), jobs') \<and> oj_tab jobs' \<and>
    oj_job jobs' = (oj_job jobs)(jid \<mapsto> oj_advance job) \<and> numElems jobs' = numElems jobs \<and>
    capacidad jobs' = capacidad jobs"
proof -
  have "u_inc (oj_next_reserve_idx job) = Suc (oj_next_reserve_idx job)"
    using less len by (intro u_inc_small) (simp add: MAX_JOB_RESOURCES_def)
  then have adv: "job\<lparr>oj_next_reserve_idx := u_inc (oj_next_reserve_idx job)\<rparr> = oj_advance job"
    by (simp add: oj_advance_def)
  have "oj_job_id (oj_advance job) = jid" using oj_job_Some [OF tab] job by (simp add: oj_advance_def)
  from oj_asignar [OF tab job this] less show ?thesis
    by (auto simp: get_next_reserve_def oj_buscar [OF tab] job adv)
qed

lemma next_some:
  assumes "oj_tab jobs" "oj_job jobs jid = Some job" "oj_ok job" "oj_next_reserve_idx job < petition_count job"
  shows "\<exists>jobs'. get_next_reserve jobs jid =
      Some (Some (oj_petitions job ! oj_next_reserve_idx job), jobs') \<and> oj_tab jobs' \<and>
    oj_job jobs' = (oj_job jobs)(jid \<mapsto> oj_advance job) \<and> numElems jobs' = numElems jobs \<and>
    capacidad jobs' = capacidad jobs"
  by (rule next_some_bounded [OF assms(1,2) oj_okD(1) [OF assms(3)] assms(4)])

lemma granted_bucle_eq:
  "n \<le> length ps \<Longrightarrow>
     granted_bucle n left ps = Some (take left (filter (\<lambda>p. jp_is_granted p = 1) (take n ps)))"
proof (induction n arbitrary: left ps)
  case (Suc n)
  then obtain p qs where "ps = p # qs" by (cases ps) auto
  with Suc show ?case by (cases left) auto
qed simp

lemma granted_resources_eq:
  assumes tab: "oj_tab jobs" and job: "oj_job jobs jid = Some job" and ok: "oj_ok job"
  shows "get_granted_resources jobs jid n = Some (take n (take (oj_grants job) (oj_petitions job)))"
proof -
  obtain as bs where ps: "oj_petitions job = as @ bs" "length as = oj_grants job"
    "\<forall>p \<in> set as. jp_is_granted p = 1" "\<forall>p \<in> set bs. jp_is_granted p = 0"
    using oj_ok_split [OF ok] .
  have "filter (\<lambda>p. jp_is_granted p = 1) (take k bs) = []" for k
    using ps(4) by (auto simp: filter_empty_conv dest: in_set_takeD)
  then have "filter (\<lambda>p. jp_is_granted p = 1) (take (oj_next_reserve_idx job) (as @ bs)) = as"
    using ps(2,3) oj_okD(3) [OF ok] by simp
  with ps(1) ps(2) [symmetric] oj_okD(5) [OF ok] show ?thesis
    by (simp add: get_granted_resources_def oj_buscar [OF tab] job granted_bucle_eq)
qed

lemma granted_filter:
  assumes "oj_ok job"
  shows "filter (\<lambda>p. jp_is_granted p = 1) (oj_petitions job) = take (oj_grants job) (oj_petitions job)"
proof -
  obtain as bs where ps: "oj_petitions job = as @ bs" "length as = oj_grants job"
    "\<forall>p \<in> set as. jp_is_granted p = 1" "\<forall>p \<in> set bs. jp_is_granted p = 0"
    using oj_ok_split [OF assms] .
  then show ?thesis by (simp add: filter_empty_conv)
qed

lemma append_petition_spec:
  assumes tab: "oj_tab jobs" and job: "oj_job jobs jid = Some job"
    and room: "petition_count job < MAX_JOB_RESOURCES"
  shows "\<exists>jobs'. append_petition_to_job mem jobs jid ip port type quantity = Some (1, jobs') \<and>
    oj_tab jobs' \<and> oj_job jobs' = (oj_job jobs)(jid \<mapsto> job\<lparr>oj_petitions := oj_petitions job @
      [\<lparr>jp_ip = (if mem then Some ip else None), jp_port = port, jp_type = type, jp_quantity = quantity,
        jp_is_granted = 0\<rparr>]\<rparr>) \<and> numElems jobs' = numElems jobs \<and> capacidad jobs' = capacidad jobs"
proof -
  let ?job = "job\<lparr>oj_petitions := oj_petitions job @ [\<lparr>jp_ip = (if mem then Some ip else None),
    jp_port = port, jp_type = type, jp_quantity = quantity, jp_is_granted = 0\<rparr>]\<rparr>"
  have "oj_job_id ?job = jid" using oj_job_Some [OF tab] job by simp
  from oj_asignar [OF tab job this] room show ?thesis
    by (auto simp: append_petition_to_job_def oj_buscar [OF tab] job)
qed

lemma append_petition_full:
  assumes "oj_tab jobs" "oj_job jobs jid = None \<or> (\<exists>job. oj_job jobs jid = Some job \<and>
    MAX_JOB_RESOURCES \<le> petition_count job)"
  shows "append_petition_to_job mem jobs jid ip port type quantity = Some (0, jobs)"
  using assms by (auto simp: append_petition_to_job_def oj_buscar)

text \<open>While no petition was sent, petitions can be added.\<close>

lemma oj_append_ok:
  assumes ok: "oj_ok job" and new: "oj_next_reserve_idx job = 0"
    and p: "petition_count job < MAX_JOB_RESOURCES" "jp_ip p \<noteq> None" "jp_is_granted p = 0"
  shows "oj_ok (job\<lparr>oj_petitions := oj_petitions job @ [p]\<rparr>)"
proof -
  have g: "oj_grants job = 0" using oj_okD(3) [OF ok] new by simp
  then have all: "\<forall>q \<in> set (oj_petitions job). jp_is_granted q = 0"
    using ok by (simp add: oj_ok_def list_all_iff)
  have "oj_grants (job\<lparr>oj_petitions := oj_petitions job @ [p]\<rparr>) = 0"
    using oj_grantsI [of "job\<lparr>oj_petitions := oj_petitions job @ [p]\<rparr>" "[]"] all p(3) by auto
  with ok new p all show ?thesis by (simp add: oj_ok_def g list_all_iff)
qed

lemma add_new_job_spec:
  assumes tab: "oj_tab jobs" and room: "th_room (Suc k) jobs"
  shows "\<exists>jobs'. add_new_owned_job True now jobs jid socket = Some (1, jobs') \<and> oj_tab jobs' \<and>
    th_room k jobs' \<and> oj_job jobs' = (oj_job jobs)(jid \<mapsto> (oj_dummy jid)\<lparr>oj_owner_socket := socket,
      oj_created_at := now\<rparr>)"
proof -
  let ?job = "(oj_dummy jid)\<lparr>oj_owner_socket := socket, oj_created_at := now\<rparr>"
  obtain jobs' where ins: "tablahash_insertar jobs ?job = Some jobs'" "th_room k jobs'"
    using oj.ins_total [OF tab room] by blast
  with oj.insertar_map [OF tab ins(1)] oj.insertar_spec [OF tab ins(1)] show ?thesis
    by (auto simp: add_new_owned_job_def oj_job_def oj_dummy_def)
qed

lemma oj_dummy_ok: "oj_ok ((oj_dummy jid)\<lparr>oj_owner_socket := socket, oj_created_at := now\<rparr>)"
  by (simp add: oj_ok_def oj_dummy_def oj_grants_def)

lemma remove_job_spec:
  assumes tab: "oj_tab jobs"
  shows "\<exists>jobs'. remove_owned_job jobs jid = Some jobs' \<and> oj_tab jobs' \<and>
    oj_job jobs' = (oj_job jobs)(jid := None) \<and> (th_room k jobs \<longrightarrow> th_room k jobs')"
proof -
  obtain jobs' where del: "tablahash_eliminar jobs (oj_dummy jid) = Some jobs'" "th_room k jobs \<longrightarrow> th_room k jobs'"
    using oj.del_total [OF tab] by blast
  with oj.eliminar_map [OF tab del(1)] oj.eliminar_spec [OF tab del(1)] show ?thesis
    by (simp add: remove_owned_job_def oj_job_def)
qed

section \<open>The collectors\<close>

text \<open>Each returns the first jobs, in the order of the table, that its test selects.\<close>

lemma dead_bucle_eq:
  "\<forall>p \<in> set ps. jp_ip p \<noteq> None \<Longrightarrow>
     dead_bucle (Some ip) port ps = Some (\<exists>p \<in> set ps. jp_port p = port \<and> jp_ip p = Some ip)"
  by (induction ps) (auto simp: jp_to_def split: option.splits bool.splits)

lemma affected_jobs_eq:
  assumes tab: "oj_tab jobs" and ips: "\<And>job p. job \<in> th_set jobs \<Longrightarrow> p \<in> set (oj_petitions job) \<Longrightarrow> jp_ip p \<noteq> None"
  shows "get_jobs_affected_by_dead_node jobs (Some ip) port n = Some (take n (map oj_job_id
    (filter (\<lambda>job. \<exists>p \<in> set (oj_petitions job). jp_port p = port \<and> jp_ip p = Some ip) (th_list jobs))))"
proof -
  let ?c = "\<lparr>dn_ip = Some ip, dn_port = port, dn_affected_jobs = [], dn_max = n\<rparr>"
  let ?I = "\<lambda>c :: dead_node_ctx_t result. \<exists>ctx. c = Some ctx \<and> dn_ip ctx = Some ip \<and> dn_port ctx = port \<and> dn_max ctx = n"
  let ?P = "\<lambda>job. \<exists>p \<in> set (oj_petitions job). jp_port p = port \<and> jp_ip p = Some ip"
  have "?I (fold check_job_for_dead_node (th_list jobs) (Some ?c)) \<and>
      dn_affected_jobs (the (fold check_job_for_dead_node (th_list jobs) (Some ?c))) =
      dn_affected_jobs (the (Some ?c)) @
        take (n - length (dn_affected_jobs (the (Some ?c)))) (map oj_job_id (filter ?P (th_list jobs)))"
  proof (rule fold_collect [where found = "\<lambda>c. dn_affected_jobs (the c)" and I = ?I])
    fix job c assume "job \<in> set (th_list jobs)" and I: "?I c"
    then have "\<forall>p \<in> set (oj_petitions job). jp_ip p \<noteq> None" using ips [of job] by (auto simp: th_set_def)
    with I show "?I (check_job_for_dead_node job c) \<and> dn_affected_jobs (the (check_job_for_dead_node job c)) =
        (if n \<le> length (dn_affected_jobs (the c)) then dn_affected_jobs (the c)
         else if ?P job then dn_affected_jobs (the c) @ [oj_job_id job] else dn_affected_jobs (the c))"
      by (auto simp: check_job_for_dead_node_def dead_bucle_eq split: bool.splits)
  qed simp
  then show ?thesis
    by (auto simp: get_jobs_affected_by_dead_node_def oj.visitar [OF tab])
qed

lemma timed_out_eq:
  assumes tab: "oj_tab jobs"
  shows "collect_timed_out_jobs now jobs n = take n (map oj_job_id
    (filter (\<lambda>job. oj_grant_notified job = 0 \<and> JOB_TIMEOUT < now - oj_created_at job) (th_list jobs)))"
  using fold_collect [where xs = "th_list jobs" and g = check_timeout_job and found = to_job_ids and
      I = "\<lambda>c. to_max c = n \<and> to_now c = now" and m = n and f = oj_job_id and
      c = "\<lparr>to_job_ids = [], to_max = n, to_now = now\<rparr>" and
      P = "\<lambda>job. oj_grant_notified job = 0 \<and> JOB_TIMEOUT < now - oj_created_at job"]
  by (auto simp: collect_timed_out_jobs_def oj.visitar [OF tab] check_timeout_job_def)

lemma orphans_eq:
  assumes tab: "oj_tab jobs"
  shows "get_jobs_by_owner_socket jobs socket n = take n (map oj_job_id
    (filter (\<lambda>job. oj_owner_socket job = socket) (th_list jobs)))"
  using fold_collect [where xs = "th_list jobs" and g = check_orphaned_jobs and found = or_orphaned_jobs and
      I = "\<lambda>c. or_max c = n \<and> or_dead_socket c = socket" and m = n and f = oj_job_id and
      c = "\<lparr>or_dead_socket = socket, or_orphaned_jobs = [], or_max = n\<rparr>" and
      P = "\<lambda>job. oj_owner_socket job = socket"]
  by (auto simp: get_jobs_by_owner_socket_def oj.visitar [OF tab] check_orphaned_jobs_def)

section \<open>Negotiating a job\<close>

text \<open>The table is well formed and every job in it satisfies \<open>ok\<close>.\<close>

definition oj_inv_for :: "(elem_owned_job_t \<Rightarrow> bool) \<Rightarrow> owned_jobs_t \<Rightarrow> bool" where
  "oj_inv_for ok jobs \<longleftrightarrow> oj_tab jobs \<and> (\<forall>job \<in> th_set jobs. ok job)"

abbreviation oj_inv :: "owned_jobs_t \<Rightarrow> bool" where
  "oj_inv \<equiv> oj_inv_for oj_ok"

lemma oj_invD:
  assumes "oj_inv_for ok jobs"
  shows "oj_tab jobs" "\<And>jid job. oj_job jobs jid = Some job \<Longrightarrow> ok job"
  using assms by (auto simp: oj_inv_for_def oj_job_Some)

lemma oj_invI: "oj_tab jobs \<Longrightarrow> (\<And>jid job. oj_job jobs jid = Some job \<Longrightarrow> ok job) \<Longrightarrow> oj_inv_for ok jobs"
  by (auto simp: oj_inv_for_def oj_job_Some)

lemma create_owned_jobs_inv:
  "oj_inv_for ok create_owned_jobs \<and> oj_job create_owned_jobs = Map.empty \<and>
     (10 * k \<le> 7 * 2 ^ 30 \<longrightarrow> th_room k create_owned_jobs)"
proof -
  have c: "oj_tab create_owned_jobs" "th_set create_owned_jobs = {}"
    using oj.crear_inv [of 11] by (simp_all add: create_owned_jobs_def copy_owned_job_id)
  then have "th_list create_owned_jobs = []" by (simp add: th_set_def)
  with c show ?thesis
    by (simp add: oj_inv_for_def oj_job_def th_map_def th_room_def create_owned_jobs_def tablahash_crear_def)
qed

text \<open>Rounds in which the next petition is sent and granted: the petitions and the results of the grants.\<close>

primrec oj_negotiate ::
  "nat \<Rightarrow> u32 \<Rightarrow> owned_jobs_t \<Rightarrow> ((job_petition_t \<times> int) list \<times> owned_jobs_t) result" where
  "oj_negotiate 0 jid jobs = Some ([], jobs)"
| "oj_negotiate (Suc n) jid jobs =
     (case get_next_reserve jobs jid of
        Some (Some p, jobs1) \<Rightarrow>
          (case mark_petition_as_granted jobs1 jid (jp_ip p) (jp_port p) of
             Some (ret, jobs2) \<Rightarrow>
               (case oj_negotiate n jid jobs2 of
                  Some (log, jobs3) \<Rightarrow> Some ((p, ret) # log, jobs3)
                | None \<Rightarrow> None)
           | None \<Rightarrow> None)
      | _ \<Rightarrow> None)"

lemma negotiate_round:
  assumes tab: "oj_tab jobs" and job: "oj_job jobs jid = Some job" and ok: "oj_ok job"
    and idle: "\<not> oj_outstanding job" and more: "oj_grants job < petition_count job"
  defines "p \<equiv> oj_petitions job ! oj_grants job"
  shows "\<exists>jobs1 jobs2. get_next_reserve jobs jid = Some (Some p, jobs1) \<and>
    mark_petition_as_granted jobs1 jid (jp_ip p) (jp_port p) =
      Some (if Suc (oj_grants job) = petition_count job then 1 else 0, jobs2) \<and>
    oj_tab jobs2 \<and> oj_job jobs2 jid = Some (oj_grant (oj_advance job))"
proof -
  have idx: "oj_next_reserve_idx job = oj_grants job"
    using oj_okD(3,4) [OF ok] idle by (simp add: oj_outstanding_def)
  with more have less: "oj_next_reserve_idx job < petition_count job" by simp
  from next_some [OF tab job ok less] obtain jobs1 where n: "get_next_reserve jobs jid = Some (Some p, jobs1)"
    "oj_tab jobs1" "oj_job jobs1 = (oj_job jobs)(jid \<mapsto> oj_advance job)" by (auto simp: p_def idx)
  note adv = oj_advance_ok [OF ok idle less]
  have "oj_petitions job ! oj_grants job \<in> set (oj_petitions job)" using more by simp
  then obtain s where "jp_ip p = Some s" using oj_okD(2) [OF ok] by (auto simp: p_def)
  with mark_counts [OF n(2), of jid "oj_advance job" "jp_port p" s] adv n(1,3) show ?thesis
    by (auto simp: p_def)
qed

lemma negotiate_from:
  assumes "oj_tab jobs" "oj_job jobs jid = Some job" "oj_ok job" "\<not> oj_outstanding job"
    and "drop (oj_grants job) (oj_petitions job) = qs"
  shows "\<exists>log jobs' job'. oj_negotiate (length qs) jid jobs = Some (log, jobs') \<and>
    log = zip qs (if qs = [] then [] else replicate (length qs - 1) 0 @ [1]) \<and>
    oj_tab jobs' \<and> oj_job jobs' jid = Some job' \<and> oj_ok job' \<and> \<not> oj_outstanding job' \<and>
    oj_grants job' = petition_count job' \<and>
    oj_petitions job' = take (oj_grants job) (oj_petitions job) @ map (\<lambda>p. p\<lparr>jp_is_granted := 1\<rparr>) qs"
  using assms
proof (induction qs arbitrary: jobs job)
  case Nil
  then have "oj_grants job = petition_count job" using oj_ok_grants_le [of job] by simp
  with Nil show ?case by simp
next
  case (Cons q qs)
  let ?g = "oj_grants job" and ?ps = "oj_petitions job" and ?job = "oj_grant (oj_advance job)"
  have more: "?g < length ?ps" using Cons.prems(5) by (cases "?g < length ?ps") simp_all
  have q: "?ps ! ?g = q" "drop (Suc ?g) ?ps = qs"
    using Cons.prems(5) Cons_nth_drop_Suc [OF more] by simp_all
  have idx: "oj_next_reserve_idx job = ?g"
    using oj_okD(3,4) [OF Cons.prems(3)] Cons.prems(4) by (simp add: oj_outstanding_def)
  have adv: "oj_ok (oj_advance job)" "oj_outstanding (oj_advance job)"
    using oj_advance_ok [OF Cons.prems(3,4)] idx more by simp_all
  obtain jobs1 jobs2 where r: "get_next_reserve jobs jid = Some (Some q, jobs1)"
    "mark_petition_as_granted jobs1 jid (jp_ip q) (jp_port q) =
      Some (if Suc ?g = length ?ps then 1 else 0, jobs2)"
    "oj_tab jobs2" "oj_job jobs2 jid = Some ?job"
    using negotiate_round [OF Cons.prems(1-4) more] by (auto simp: q)
  have G: "oj_ok ?job" "oj_grants ?job = Suc ?g" "\<not> oj_outstanding ?job"
    using oj_grant_ok [OF adv] by simp_all
  have ps: "oj_petitions ?job = ?ps[?g := q\<lparr>jp_is_granted := 1\<rparr>]"
    by (simp add: oj_grant_def Let_def q(1))
  have "drop (oj_grants ?job) (oj_petitions ?job) = qs" using q(2) by (simp add: ps G(2))
  from Cons.IH [OF r(3,4) G(1,3) this] obtain log jobs' job' where
    IH: "oj_negotiate (length qs) jid jobs2 = Some (log, jobs')"
      "log = zip qs (if qs = [] then [] else replicate (length qs - 1) 0 @ [1])"
      "oj_tab jobs'" "oj_job jobs' jid = Some job'" "oj_ok job'" "\<not> oj_outstanding job'"
      "oj_grants job' = petition_count job'"
      "oj_petitions job' = take (oj_grants ?job) (oj_petitions ?job) @ map (\<lambda>p. p\<lparr>jp_is_granted := 1\<rparr>) qs"
    by blast
  have "take (oj_grants ?job) (oj_petitions ?job) = take ?g ?ps @ [q\<lparr>jp_is_granted := 1\<rparr>]"
    using more by (simp add: ps G(2) take_Suc_conv_app_nth)
  moreover have "(Suc ?g = length ?ps) = (qs = [])" using q(2) more by auto
  moreover have "zip (q # qs) (replicate (length qs) 0 @ [1]) =
      (q, if qs = [] then 1 else 0) # zip qs (if qs = [] then [] else replicate (length qs - 1) 0 @ [1 :: int])"
    by (cases qs) simp_all
  ultimately show ?case using r IH by simp
qed

section \<open>Contracts of a job\<close>

text \<open>The weaker invariant: indices stay in their arrays and addresses are there.\<close>

definition oj_bounded :: "elem_owned_job_t \<Rightarrow> bool" where
  "oj_bounded job \<longleftrightarrow> petition_count job \<le> MAX_JOB_RESOURCES \<and> list_all (\<lambda>p. jp_ip p \<noteq> None) (oj_petitions job) \<and>
     oj_next_reserve_idx job \<le> petition_count job"

lemma oj_boundedD:
  assumes "oj_bounded job"
  shows "petition_count job \<le> MAX_JOB_RESOURCES" "\<And>p. p \<in> set (oj_petitions job) \<Longrightarrow> jp_ip p \<noteq> None"
    "oj_next_reserve_idx job \<le> petition_count job"
  using assms unfolding oj_bounded_def list_all_iff by blast+

lemma oj_ok_bounded: "oj_ok job \<Longrightarrow> oj_bounded job"
  by (simp add: oj_ok_def oj_bounded_def)

text \<open>The job after a GRANTED for the petition sent last was accepted.\<close>

definition oj_mark :: "elem_owned_job_t \<Rightarrow> elem_owned_job_t" where
  "oj_mark job =
     (let i = oj_next_reserve_idx job - 1;
          ps = (oj_petitions job)[i := (oj_petitions job ! i)\<lparr>jp_is_granted := 1\<rparr>]
      in job\<lparr>oj_petitions := ps, oj_grant_notified :=
           (if list_all (\<lambda>p. jp_is_granted p \<noteq> 0) ps \<and> oj_grant_notified job = 0 then 1 else oj_grant_notified job)\<rparr>)"

lemma mark_bounded:
  assumes tab: "oj_tab jobs" and job: "oj_job jobs jid = Some job" and ok: "oj_bounded job"
  shows "mark_petition_as_granted jobs jid (Some ip) port = Some (- 1, jobs) \<or>
    (0 < oj_next_reserve_idx job \<and> jp_is_granted (oj_petitions job ! (oj_next_reserve_idx job - 1)) = 0 \<and>
     (\<exists>r jobs'. mark_petition_as_granted jobs jid (Some ip) port = Some (r, jobs') \<and> r \<in> {0, 1} \<and> oj_tab jobs' \<and>
        oj_job jobs' = (oj_job jobs)(jid \<mapsto> oj_mark job) \<and> numElems jobs' = numElems jobs \<and> capacidad jobs' = capacidad jobs))"
proof (cases "oj_next_reserve_idx job")
  case 0
  then show ?thesis by (simp add: mark_petition_as_granted_def oj_buscar [OF tab] job)
next
  case (Suc idx)
  have idx: "idx < petition_count job" using oj_boundedD(3) [OF ok] Suc by simp
  obtain s where s: "jp_ip (oj_petitions job ! idx) = Some s"
    using oj_boundedD(2) [OF ok, of "oj_petitions job ! idx"] idx by auto
  have "oj_job_id (oj_mark job) = jid" using oj_job_Some [OF tab] job by (simp add: oj_mark_def Let_def)
  from oj_asignar [OF tab job this] obtain jobs' where
    J: "th_asignar jobs (oj_dummy jid) (oj_mark job) = Some jobs'" "oj_tab jobs'"
      "oj_job jobs' = (oj_job jobs)(jid \<mapsto> oj_mark job)" "numElems jobs' = numElems jobs" "capacidad jobs' = capacidad jobs"
    by blast
  let ?ps = "(oj_petitions job)[idx := (oj_petitions job ! idx)\<lparr>jp_is_granted := 1\<rparr>]"
  have mark: "oj_mark job = (if list_all (\<lambda>p. jp_is_granted p \<noteq> 0) ?ps \<and> oj_grant_notified job = 0
      then job\<lparr>oj_petitions := ?ps, oj_grant_notified := 1\<rparr> else job\<lparr>oj_petitions := ?ps\<rparr>)"
    using Suc by (cases job) (simp add: oj_mark_def Let_def)
  show ?thesis
  proof (cases "jp_port (oj_petitions job ! idx) = port \<and> s = ip \<and> jp_is_granted (oj_petitions job ! idx) = 0")
    case False
    then have "mark_petition_as_granted jobs jid (Some ip) port = Some (- 1, jobs)"
      using idx s by (cases "s = ip") (auto simp: mark_petition_as_granted_def oj_buscar [OF tab] job Let_def jp_to_def Suc)
    then show ?thesis by blast
  next
    case True
    let ?all = "list_all (\<lambda>p. jp_is_granted p \<noteq> 0) ?ps \<and> oj_grant_notified job = 0"
    have "mark_petition_as_granted jobs jid (Some ip) port = Some (if ?all then 1 else 0, jobs')"
      using True idx s J(1) by (cases ?all) (auto simp: mark_petition_as_granted_def oj_buscar [OF tab] job Let_def jp_to_def Suc mark)
    with J(2-) True Suc show ?thesis by (intro disjI2) auto
  qed
qed

lemma mark_outstanding:
  assumes ok: "oj_ok job" and idx: "0 < oj_next_reserve_idx job" "jp_is_granted (oj_petitions job ! (oj_next_reserve_idx job - 1)) = 0"
  shows "oj_outstanding job \<and> oj_mark job = oj_grant job"
proof -
  obtain as bs where ps: "oj_petitions job = as @ bs" "length as = oj_grants job"
    "\<forall>p \<in> set as. jp_is_granted p = 1" "\<forall>p \<in> set bs. jp_is_granted p = 0"
    using oj_ok_split [OF ok] .
  have "\<not> oj_next_reserve_idx job - 1 < oj_grants job"
  proof
    assume less: "oj_next_reserve_idx job - 1 < oj_grants job"
    then have "oj_petitions job ! (oj_next_reserve_idx job - 1) \<in> set as" using ps(1,2) by (simp add: nth_append)
    with ps(3) idx(2) show False by auto
  qed
  then have out: "oj_outstanding job" using oj_okD(4) [OF ok] idx(1) by (simp add: oj_outstanding_def)
  have g: "oj_grants job < length (oj_petitions job)" using ok out by (simp add: oj_ok_def oj_outstanding_def)
  then obtain b cs where bs: "bs = b # cs" using ps(1,2) by (cases bs) auto
  have upd: "(oj_petitions job)[oj_grants job := (oj_petitions job ! oj_grants job)\<lparr>jp_is_granted := 1\<rparr>] =
      as @ b\<lparr>jp_is_granted := 1\<rparr> # cs"
    using ps(1) ps(2) [symmetric] bs by (simp add: list_update_append)
  have "list_all (\<lambda>p. jp_is_granted p \<noteq> 0) (as @ b\<lparr>jp_is_granted := 1\<rparr> # cs) \<longleftrightarrow> Suc (oj_grants job) = length (oj_petitions job)"
    using ps bs by (cases cs) (auto simp: list_all_iff)
  moreover have "oj_grant_notified job = 0" using ok g by (simp add: oj_ok_def)
  ultimately have "oj_mark job = oj_grant job"
    using out upd by (simp add: oj_mark_def oj_grant_def Let_def oj_outstanding_def)
  with out show ?thesis by blast
qed

text \<open>
  What the handlers need of an invariant \<open>ok\<close> of the jobs: it gives the bounds, new jobs have it and
  the operations keep it. Sending the next petition may need a further condition \<open>idle\<close>, which holds
  at the start and after each grant.
\<close>

locale job_contract =
  fixes ok :: "elem_owned_job_t \<Rightarrow> bool"
    and idle :: "elem_owned_job_t \<Rightarrow> bool"
  assumes ok_bounds: "ok job \<Longrightarrow> oj_bounded job"
    and ok_new: "ok ((oj_dummy jid)\<lparr>oj_owner_socket := socket, oj_created_at := now\<rparr>)"
    and ok_append: "ok job \<Longrightarrow> oj_next_reserve_idx job = 0 \<Longrightarrow> petition_count job < MAX_JOB_RESOURCES \<Longrightarrow>
      jp_ip p \<noteq> None \<Longrightarrow> jp_is_granted p = 0 \<Longrightarrow> ok (job\<lparr>oj_petitions := oj_petitions job @ [p]\<rparr>)"
    and idle_start: "oj_next_reserve_idx job = 0 \<Longrightarrow> idle job"
    and ok_advance: "ok job \<Longrightarrow> idle job \<Longrightarrow> oj_next_reserve_idx job < petition_count job \<Longrightarrow> ok (oj_advance job)"
    and ok_mark: "ok job \<Longrightarrow> 0 < oj_next_reserve_idx job \<Longrightarrow>
      jp_is_granted (oj_petitions job ! (oj_next_reserve_idx job - 1)) = 0 \<Longrightarrow> ok (oj_mark job) \<and> idle (oj_mark job)"

text \<open>The protocol, for one handler at a time; the bounds, whatever the order.\<close>

interpretation ojp: job_contract oj_ok "\<lambda>job. \<not> oj_outstanding job"
proof
  fix job p
  assume ok: "oj_ok job"
  show "oj_bounded job" by (rule oj_ok_bounded [OF ok])
  show "oj_ok (job\<lparr>oj_petitions := oj_petitions job @ [p]\<rparr>)"
    if "oj_next_reserve_idx job = 0" "petition_count job < MAX_JOB_RESOURCES" "jp_ip p \<noteq> None" "jp_is_granted p = 0"
    by (rule oj_append_ok [OF ok that])
  show "oj_ok (oj_advance job)" if "\<not> oj_outstanding job" "oj_next_reserve_idx job < petition_count job"
    using oj_advance_ok [OF ok that] by blast
  show "oj_ok (oj_mark job) \<and> \<not> oj_outstanding (oj_mark job)"
    if "0 < oj_next_reserve_idx job" "jp_is_granted (oj_petitions job ! (oj_next_reserve_idx job - 1)) = 0"
    using mark_outstanding [OF ok that] oj_grant_ok [OF ok] by metis
next
  show "oj_ok ((oj_dummy jid)\<lparr>oj_owner_socket := socket, oj_created_at := now\<rparr>)" for jid socket now by (rule oj_dummy_ok)
  show "\<not> oj_outstanding job" if "oj_next_reserve_idx job = 0" for job using that by (simp add: oj_outstanding_def)
qed

interpretation ojb: job_contract oj_bounded "\<lambda>_. True"
proof
  fix job assume ok: "oj_bounded job" and idx: "0 < oj_next_reserve_idx job"
  let ?p = "oj_petitions job ! (oj_next_reserve_idx job - 1)"
  have "?p \<in> set (oj_petitions job)" using oj_boundedD(3) [OF ok] idx by simp
  then have "jp_ip ?p \<noteq> None" by (rule oj_boundedD(2) [OF ok])
  with ok show "oj_bounded (oj_mark job) \<and> True"
    by (auto simp: oj_bounded_def oj_mark_def Let_def list_all_iff dest!: set_update_subset_insert [THEN subsetD])
qed (auto simp: oj_bounded_def oj_dummy_def oj_advance_def)

text \<open>A table with one job of two petitions, for the examples below.\<close>

lemma oj_table:
  assumes "oj_job_id job = jid" "oj_ok job"
  shows "\<exists>jobs. oj_inv jobs \<and> oj_job jobs = [jid \<mapsto> job] \<and> numElems jobs \<le> 1"
proof -
  have c: "oj_tab create_owned_jobs" "oj_job create_owned_jobs = Map.empty" "th_room 1 create_owned_jobs"
    using create_owned_jobs_inv [of oj_ok 1] by (simp_all add: oj_inv_for_def)
  obtain jobs where ins: "tablahash_insertar create_owned_jobs job = Some jobs"
    using oj.ins_total [OF c(1), of 0] c(3) by auto
  have "oj_tab jobs" "numElems jobs \<le> 1"
    using oj.insertar_spec [OF c(1) ins] by (simp_all add: create_owned_jobs_def tablahash_crear_def)
  moreover have "oj_job jobs = [jid \<mapsto> job]"
    using oj.insertar_map [OF c(1) ins] c(2) assms(1) by (simp add: oj_job_def)
  ultimately show ?thesis using assms(2) by (intro exI [of _ jobs]) (auto intro: oj_invI split: if_splits)
qed

definition ej_job :: "bool \<Rightarrow> elem_owned_job_t" where
  "ej_job sent = \<lparr>oj_job_id = 7, oj_owner_socket = 4, oj_grant_notified = 0, oj_created_at = 100,
     oj_next_reserve_idx = (if sent then 1 else 0),
     oj_petitions =
       [\<lparr>jp_ip = Some ''10.0.0.1'', jp_port = 9000, jp_type = CPU, jp_quantity = 2, jp_is_granted = 0\<rparr>,
        \<lparr>jp_ip = Some ''10.0.0.2'', jp_port = 9000, jp_type = GPU, jp_quantity = 1, jp_is_granted = 0\<rparr>]\<rparr>"

lemma ej_job_ok: "oj_ok (ej_job sent) \<and> oj_job_id (ej_job sent) = 7 \<and> oj_grants (ej_job sent) = 0"
  by (simp add: oj_ok_def ej_job_def oj_grants_def MAX_JOB_RESOURCES_def)

section \<open>Properties\<close>

text \<open>
  A job is negotiated in order and reported once. From a job whose petitions have not been
  sent, rounds of sending the next petition and receiving its grant send the petitions in the order
  of the request, the grant reports 1 (the job is complete) for the last petition and 0 for all
  others, nothing is left to send, and the resources to release are exactly all petitions.
\<close>

theorem negotiation_in_order:
  assumes inv: "oj_inv jobs" and job: "oj_job jobs jid = Some job"
    and new: "oj_next_reserve_idx job = 0" and ne: "oj_petitions job \<noteq> []"
  shows "\<exists>jobs'. oj_negotiate (petition_count job) jid jobs =
      Some (zip (oj_petitions job) (replicate (petition_count job - 1) 0 @ [1]), jobs') \<and>
    get_next_reserve jobs' jid = Some (None, jobs') \<and>
    get_granted_resources jobs' jid MAX_JOB_RESOURCES =
      Some (map (\<lambda>p. p\<lparr>jp_is_granted := 1\<rparr>) (oj_petitions job))"
proof -
  note D = oj_invD [OF inv]
  have g: "oj_grants job = 0" using oj_okD(3) [OF D(2) [OF job]] new by simp
  have "\<not> oj_outstanding job" using new by (simp add: oj_outstanding_def)
  from negotiate_from [OF D(1) job D(2) [OF job] this refl] ne obtain jobs' job' where
    N: "oj_negotiate (petition_count job) jid jobs =
      Some (zip (oj_petitions job) (replicate (petition_count job - 1) 0 @ [1]), jobs')"
      "oj_tab jobs'" "oj_job jobs' jid = Some job'" "oj_ok job'" "oj_grants job' = petition_count job'"
      "oj_petitions job' = map (\<lambda>p. p\<lparr>jp_is_granted := 1\<rparr>) (oj_petitions job)"
    by (auto simp: g)
  have "get_next_reserve jobs' jid = Some (None, jobs')"
    using N(3,5) oj_okD(3) [OF N(4)] by (intro next_none [OF N(2)]) auto
  with N granted_resources_eq [OF N(2,3,4), of MAX_JOB_RESOURCES] oj_okD(1) [OF N(4)] show ?thesis by simp
qed

theorem negotiation_in_order_witness:
  "\<exists>jobs jobs'. oj_job jobs 7 = Some (ej_job False) \<and>
     oj_negotiate 2 7 jobs = Some (zip (oj_petitions (ej_job False)) [0, 1], jobs')"
proof -
  obtain jobs where J: "oj_inv jobs" "oj_job jobs = [7 \<mapsto> ej_job False]"
    using oj_table [of "ej_job False" 7] ej_job_ok by auto
  have len: "petition_count (ej_job False) = 2" "oj_next_reserve_idx (ej_job False) = 0" "oj_petitions (ej_job False) \<noteq> []"
    by (simp_all add: ej_job_def)
  have job: "oj_job jobs 7 = Some (ej_job False)" using J(2) by simp
  from negotiation_in_order [OF J(1) job len(2,3)] obtain jobs' where
    "oj_negotiate 2 7 jobs = Some (zip (oj_petitions (ej_job False)) [0, 1], jobs')"
    unfolding len(1) by auto
  with job show ?thesis by blast
qed

text \<open>
  \<^verbatim>\<open>mark_petition_as_granted\<close> accepts a GRANTED only for the petition that was sent last
  and is not granted, from the node it was sent to; every other answer (unknown job, nothing sent,
  another node, a repeated grant) returns -1 and changes nothing. An accepted grant returns 1 exactly
  when it was the last of the job, and the job keeps to the protocol.
\<close>

theorem mark_petition_correct:
  assumes inv: "oj_inv jobs"
  shows "(\<exists>job. oj_job jobs jid = Some job \<and> oj_outstanding job \<and>
      jp_port (oj_petitions job ! oj_grants job) = port \<and> jp_ip (oj_petitions job ! oj_grants job) = Some ip \<and>
      (\<exists>jobs'. mark_petition_as_granted jobs jid (Some ip) port =
          Some (if Suc (oj_grants job) = petition_count job then 1 else 0, jobs') \<and> oj_inv jobs' \<and>
        oj_job jobs' = (oj_job jobs)(jid \<mapsto> oj_grant job) \<and> oj_grants (oj_grant job) = Suc (oj_grants job))) \<or>
    (mark_petition_as_granted jobs jid (Some ip) port = Some (- 1, jobs) \<and>
     (\<forall>job. oj_job jobs jid = Some job \<longrightarrow> \<not> (oj_outstanding job \<and>
      jp_port (oj_petitions job ! oj_grants job) = port \<and> jp_ip (oj_petitions job ! oj_grants job) = Some ip)))"
proof (cases "oj_job jobs jid")
  case None
  then show ?thesis using mark_unknown [OF oj_invD(1) [OF inv]] by simp
next
  case (Some job)
  note D = oj_invD [OF inv]
  note ok = D(2) [OF Some]
  show ?thesis
  proof (cases "oj_outstanding job \<and> jp_port (oj_petitions job ! oj_grants job) = port \<and>
      jp_ip (oj_petitions job ! oj_grants job) = Some ip")
    case True
    with mark_counts [OF D(1) Some ok] obtain jobs' where
      m: "mark_petition_as_granted jobs jid (Some ip) port =
          Some (if Suc (oj_grants job) = petition_count job then 1 else 0, jobs')" "oj_tab jobs'"
        "oj_job jobs' = (oj_job jobs)(jid \<mapsto> oj_grant job)" by blast
    have "oj_ok (oj_grant job) \<and> oj_grants (oj_grant job) = Suc (oj_grants job)"
      using oj_grant_ok [OF ok] True by blast
    moreover from this have "oj_inv jobs'" using m(3) D(2) by (intro oj_invI m(2)) (auto split: if_splits)
    ultimately show ?thesis using True m Some by blast
  next
    case False
    with mark_ignored [OF D(1) Some ok] Some show ?thesis by auto
  qed
qed

theorem mark_petition_correct_witness:
  "\<exists>jobs jobs'. oj_job jobs 7 = Some (ej_job True) \<and>
     mark_petition_as_granted jobs 7 (Some ''10.0.0.1'') 9000 = Some (0, jobs') \<and> oj_inv jobs' \<and>
     mark_petition_as_granted jobs 7 (Some ''10.0.0.2'') 9000 = Some (- 1, jobs)"
proof -
  obtain jobs where J: "oj_inv jobs" "oj_job jobs = [7 \<mapsto> ej_job True]"
    using oj_table [of "ej_job True" 7] ej_job_ok by auto
  let ?job = "ej_job True"
  have job: "oj_job jobs 7 = Some ?job" using J(2) by simp
  have p: "petition_count ?job = 2" "oj_grants ?job = 0" "oj_outstanding ?job"
    "jp_port (oj_petitions ?job ! 0) = 9000" "jp_ip (oj_petitions ?job ! 0) = Some ''10.0.0.1''"
    by (simp_all add: ej_job_def oj_outstanding_def oj_grants_def)
  obtain jobs' where "mark_petition_as_granted jobs 7 (Some ''10.0.0.1'') 9000 = Some (0, jobs')" "oj_inv jobs'"
    using mark_petition_correct [OF J(1), of 7 9000 "''10.0.0.1''"] by (auto simp: job p)
  moreover have "mark_petition_as_granted jobs 7 (Some ''10.0.0.2'') 9000 = Some (- 1, jobs)"
    using mark_petition_correct [OF J(1), of 7 9000 "''10.0.0.2''"] by (auto simp: job p)
  ultimately show ?thesis using job by blast
qed

text \<open>
  \<^verbatim>\<open>get_granted_resources\<close> returns, in order, exactly the petitions granted so far (at most
  \<^verbatim>\<open>max_size\<close>): what has to be released when a job is aborted, and never one that is outstanding.
\<close>

theorem granted_resources_correct:
  assumes inv: "oj_inv jobs" and job: "oj_job jobs jid = Some job"
  shows "get_granted_resources jobs jid n =
      Some (take n (filter (\<lambda>p. jp_is_granted p = 1) (oj_petitions job))) \<and>
    filter (\<lambda>p. jp_is_granted p = 1) (oj_petitions job) = take (oj_grants job) (oj_petitions job)"
  using granted_resources_eq [OF oj_invD(1) [OF inv] job oj_invD(2) [OF inv job]] granted_filter [OF oj_invD(2) [OF inv job]]
  by simp

theorem granted_resources_correct_witness:
  "\<exists>jobs. oj_job jobs 7 = Some (ej_job True) \<and> get_granted_resources jobs 7 50 = Some []"
proof -
  obtain jobs where J: "oj_inv jobs" "oj_job jobs = [7 \<mapsto> ej_job True]"
    using oj_table [of "ej_job True" 7] ej_job_ok by auto
  have job: "oj_job jobs 7 = Some (ej_job True)" using J(2) by simp
  have "filter (\<lambda>p. jp_is_granted p = 1) (oj_petitions (ej_job True)) = []" by (simp add: ej_job_def)
  with granted_resources_correct [OF J(1) job, of 50] job show ?thesis by auto
qed



end
