(* ===== verification/Known_Nodes.thy ===== *)
theory Known_Nodes
  imports Tablahash C_Strings
begin

text \<open>
  The directory of other nodes, \<^verbatim>\<open>c_agent/src/resources/known_nodes.c\<close>: entries keyed by address and
  port, refreshed by UDP announcements, dropped after 15 seconds of silence, and printed for the
  scheduler. \<open>now\<close> is the value of \<^verbatim>\<open>time (NULL)\<close>. A failed allocation in \<^verbatim>\<open>create_elem_known_node\<close>
  (the element or the copy of the address) is dereferenced by the hash function in the same call, so
  that a stored entry always has an address.
\<close>

section \<open>Data\<close>

definition ANNOUNCE_TIMEOUT :: int where
  "ANNOUNCE_TIMEOUT = 15"

record elem_known_nodes_t =
  kn_node_ip :: string
  kn_node_port :: u32
  kn_avail :: "resource_t \<Rightarrow> u32"
  kn_time_stamp :: int

type_synonym known_nodes_t = "elem_known_nodes_t TablaHash"

record payload_ctx_t =
  pl_buffer :: string
  pl_max_size :: nat
  pl_current_offset :: nat

text \<open>\<open>gc_dead\<close> holds \<^verbatim>\<open>dead_ips\<close> (\<open>None\<close> for a failed copy) and \<^verbatim>\<open>dead_ports\<close>.\<close>

record gc_ctx_t =
  gc_dead :: "(string option \<times> u32) list"
  gc_to_delete :: "elem_known_nodes_t list"
  gc_max :: nat
  gc_now :: int

section \<open>Helpers of the table\<close>

definition copy_known_node :: "elem_known_nodes_t \<Rightarrow> elem_known_nodes_t" where
  "copy_known_node e = e"

definition comp_known_node :: "elem_known_nodes_t \<Rightarrow> elem_known_nodes_t \<Rightarrow> int" where
  "comp_known_node a b =
     (if kn_node_ip a \<noteq> kn_node_ip b \<or> kn_node_port a \<noteq> kn_node_port b then 1 else 0)"

definition hash_step :: "u32 \<Rightarrow> u32 \<Rightarrow> u32" where
  "hash_step c hash = (push_bit 5 hash + hash) + c"

definition hash_known_node :: "elem_known_nodes_t \<Rightarrow> u32" where
  "hash_known_node e =
     hash_step (kn_node_port e) (fold (\<lambda>c. hash_step (of_char c)) (kn_node_ip e) 5381)"

definition create_elem_known_node ::
  "bool \<Rightarrow> int \<Rightarrow> string \<Rightarrow> u32 \<Rightarrow> u32 \<Rightarrow> u32 \<Rightarrow> u32 \<Rightarrow> elem_known_nodes_t option" where
  "create_elem_known_node mem now ip port cpu ram gpu =
     (if \<not> mem then None
      else Some \<lparr>kn_node_ip = ip, kn_node_port = port,
                 kn_avail = (\<lambda>_. 0)(CPU := cpu, RAM := ram, GPU := gpu), kn_time_stamp = now\<rparr>)"

definition create_known_nodes :: known_nodes_t where
  "create_known_nodes = tablahash_crear 11 copy_known_node comp_known_node hash_known_node"

definition delete_known_nodes :: "known_nodes_t \<Rightarrow> elem_known_nodes_t list" where
  "delete_known_nodes nodes = tablahash_destruir nodes"

section \<open>Operations\<close>

definition update_known_node ::
  "bool \<Rightarrow> int \<Rightarrow> known_nodes_t \<Rightarrow> string \<Rightarrow> u32 \<Rightarrow> u32 \<Rightarrow> u32 \<Rightarrow> u32 \<Rightarrow> known_nodes_t result" where
  "update_known_node mem now nodes ip port cpu ram gpu =
     (case create_elem_known_node mem now ip port cpu ram gpu of
        None \<Rightarrow> None
      | Some e \<Rightarrow> tablahash_insertar nodes e)"

text \<open>\<^verbatim>\<open>snprintf (buffer + off, n, ...)\<close>: what the buffer holds up to its first NUL then.\<close>

definition snprintf_at :: "string \<Rightarrow> nat \<Rightarrow> nat \<Rightarrow> string \<Rightarrow> string" where
  "snprintf_at buffer off n s = (if n = 0 then buffer else take off buffer @ snprintf n s)"

definition node_text :: "elem_known_nodes_t \<Rightarrow> string" where
  "node_text node =
     kn_node_ip node @ '':'' @ fmt_u (kn_node_port node) @ '':cpu:'' @ fmt_u (kn_avail node CPU) @
     '':mem:'' @ fmt_u (kn_avail node RAM) @ '':gpu:'' @ fmt_u (kn_avail node GPU) @ '';''"

definition append_node_to_payload :: "elem_known_nodes_t \<Rightarrow> payload_ctx_t \<Rightarrow> payload_ctx_t" where
  "append_node_to_payload node ctx =
     (if pl_max_size ctx \<le> pl_current_offset ctx then ctx
      else
        let left = pl_max_size ctx - pl_current_offset ctx;
            written = int (length (node_text node));
            ctx' = ctx\<lparr>pl_buffer := snprintf_at (pl_buffer ctx) (pl_current_offset ctx) left (node_text node)\<rparr>
        in if 0 < written \<and> written < int_of_u32 (of_nat left)
           then ctx'\<lparr>pl_current_offset := pl_current_offset ctx + nat written\<rparr> else ctx')"

text \<open>What is in the buffer at the end, for what it held before.\<close>

definition get_known_nodes_payload :: "known_nodes_t \<Rightarrow> string \<Rightarrow> nat \<Rightarrow> string" where
  "get_known_nodes_payload nodes buffer max_size =
     (let ctx = tablahash_visitar_extra nodes append_node_to_payload
            \<lparr>pl_buffer = snprintf_at buffer 0 max_size ''NODES '', pl_max_size = max_size,
             pl_current_offset = 6\<rparr>
      in if 6 < pl_current_offset ctx \<and> pl_current_offset ctx < max_size
         then take (pl_current_offset ctx - 1) (pl_buffer ctx) @ ''\<newline>''
         else snprintf_at (pl_buffer ctx) 0 max_size ''NODES \<newline>'')"

text \<open>\<open>dup i\<close> says whether the copy of the \<open>i\<close>-th address succeeds.\<close>

definition check_inactive_node :: "(nat \<Rightarrow> bool) \<Rightarrow> elem_known_nodes_t \<Rightarrow> gc_ctx_t \<Rightarrow> gc_ctx_t" where
  "check_inactive_node dup node ctx =
     (if gc_max ctx \<le> length (gc_dead ctx) then ctx
      else if ANNOUNCE_TIMEOUT < gc_now ctx - kn_time_stamp node
      then ctx\<lparr>gc_dead := gc_dead ctx @
                 [(if dup (length (gc_dead ctx)) then Some (kn_node_ip node) else None, kn_node_port node)],
               gc_to_delete := gc_to_delete ctx @ [node]\<rparr>
      else ctx)"

fun remove_bucle :: "elem_known_nodes_t list \<Rightarrow> known_nodes_t \<Rightarrow> known_nodes_t result" where
  "remove_bucle [] nodes = Some nodes"
| "remove_bucle (n # ns) nodes =
     (case tablahash_eliminar nodes n of None \<Rightarrow> None | Some nodes' \<Rightarrow> remove_bucle ns nodes')"

definition remove_inactive_nodes :: "bool \<Rightarrow> (nat \<Rightarrow> bool) \<Rightarrow> int \<Rightarrow> known_nodes_t \<Rightarrow> nat \<Rightarrow>
    ((string option \<times> u32) list \<times> known_nodes_t) result" where
  "remove_inactive_nodes mem dup now nodes max_size =
     (if tablahash_nelems nodes = 0 then Some ([], nodes)
      else if \<not> mem then Some ([], nodes)
      else
        let ctx = tablahash_visitar_extra nodes (check_inactive_node dup)
              \<lparr>gc_dead = [], gc_to_delete = [], gc_max = max_size, gc_now = now\<rparr>
        in map_option (\<lambda>nodes'. (gc_dead ctx, nodes')) (remove_bucle (gc_to_delete ctx) nodes))"

section \<open>The table of nodes\<close>

definition kn_key :: "elem_known_nodes_t \<Rightarrow> string \<times> u32" where
  "kn_key e = (kn_node_ip e, kn_node_port e)"

abbreviation kn_tab :: "known_nodes_t \<Rightarrow> bool" where
  "kn_tab \<equiv> th_inv kn_key hash_known_node comp_known_node"

lemma copy_known_node_id: "copy_known_node = (\<lambda>x. x)"
  by (rule ext) (simp add: copy_known_node_def)

interpretation kn: tablahash kn_key hash_known_node comp_known_node
  by unfold_locales (auto simp: comp_known_node_def hash_known_node_def kn_key_def)

definition kn_map :: "known_nodes_t \<Rightarrow> string \<times> u32 \<rightharpoonup> elem_known_nodes_t" where
  "kn_map nodes = th_map kn_key nodes"

lemma create_known_nodes_inv:
  "kn_tab create_known_nodes \<and> th_set create_known_nodes = {} \<and>
     (10 * k \<le> 7 * 2 ^ 30 \<longrightarrow> th_room k create_known_nodes)"
  using kn.crear_contract [of 11 k] kn.crear_inv [of 11]
  by (auto simp: create_known_nodes_def copy_known_node_id)

section \<open>The payload\<close>

text \<open>The entries that are printed: those that fit into what is left, from first to last.\<close>

fun kn_fit :: "nat \<Rightarrow> elem_known_nodes_t list \<Rightarrow> elem_known_nodes_t list" where
  "kn_fit left [] = []"
| "kn_fit left (n # ns) =
     (if length (node_text n) < left then n # kn_fit (left - length (node_text n)) ns
      else kn_fit left ns)"

lemma node_text_ne: "0 < length (node_text n)"
  by (simp add: node_text_def)

lemma kn_fit_length: "0 < left \<Longrightarrow> length (concat (map node_text (kn_fit left ns))) < left"
proof (induction ns arbitrary: left)
  case (Cons n ns)
  show ?case
  proof (cases "length (node_text n) < left")
    case True
    with Cons.IH [of "left - length (node_text n)"] show ?thesis by simp
  qed (use Cons in simp)
qed simp

lemma payload_fold:
  assumes "pl_current_offset ctx < pl_max_size ctx" "pl_max_size ctx < 2 ^ 31"
    and "pl_current_offset ctx \<le> length (pl_buffer ctx)"
  shows "let ctx' = fold append_node_to_payload ns ctx;
      text = concat (map node_text (kn_fit (pl_max_size ctx - pl_current_offset ctx) ns))
    in pl_current_offset ctx' = pl_current_offset ctx + length text \<and> pl_max_size ctx' = pl_max_size ctx \<and>
      pl_current_offset ctx' \<le> length (pl_buffer ctx') \<and>
      take (pl_current_offset ctx') (pl_buffer ctx') = take (pl_current_offset ctx) (pl_buffer ctx) @ text"
  using assms
proof (induction ns arbitrary: ctx)
  case (Cons n ns)
  let ?off = "pl_current_offset ctx" and ?max = "pl_max_size ctx" and ?t = "node_text n"
  let ?left = "?max - ?off"
  let ?ctx = "append_node_to_payload n ctx"
  have left: "int_of_u32 (of_nat ?left) = int ?left" using Cons.prems(2) by (intro int_of_u32_small) simp
  show ?case
  proof (cases "length ?t < ?left")
    case True
    have c: "?ctx = ctx\<lparr>pl_buffer := take ?off (pl_buffer ctx) @ ?t, pl_current_offset := ?off + length ?t\<rparr>"
      using True Cons.prems node_text_ne [of n]
      by (simp add: append_node_to_payload_def Let_def left snprintf_at_def snprintf_def
          del: of_nat_diff)
    have "?off + length ?t < ?max" using True by simp
    with Cons.IH [of ?ctx] Cons.prems True show ?thesis by (auto simp: c Let_def add.assoc)
  next
    case False
    have c: "?ctx = ctx\<lparr>pl_buffer := take ?off (pl_buffer ctx) @ snprintf ?left ?t\<rparr>"
      using False Cons.prems by (simp add: append_node_to_payload_def Let_def left snprintf_at_def del: of_nat_diff)
    with Cons.IH [of ?ctx] Cons.prems False show ?thesis by (auto simp: c Let_def)
  qed
qed (simp add: Let_def)

text \<open>The message: the complete entries that fit, separated by semicolons, with a final newline.\<close>

definition nodes_message :: "elem_known_nodes_t list \<Rightarrow> string" where
  "nodes_message ns = ''NODES '' @ butlast (concat (map node_text ns)) @ ''\<newline>''"

lemma kn_fit_all: "length (concat (map node_text ns)) < left \<Longrightarrow> kn_fit left ns = ns"
proof (induction ns arbitrary: left)
  case (Cons n ns)
  then have "length (concat (map node_text ns)) < left - length (node_text n)" by simp
  with Cons show ?case by simp
qed simp

lemma kn_fit_subseq: "\<exists>P. kn_fit left ns = nths ns P"
proof (induction ns arbitrary: left)
  case (Cons n ns)
  obtain P where P: "kn_fit (left - length (node_text n)) ns = nths ns P" using Cons.IH by blast
  obtain Q where Q: "kn_fit left ns = nths ns Q" using Cons.IH by blast
  show ?case
  proof (cases "length (node_text n) < left")
    case True
    have "kn_fit left (n # ns) = nths (n # ns) (insert 0 (Suc ` P))"
      using True P by (simp add: nths_Cons inj_image_mem_iff)
    then show ?thesis by blast
  next
    case False
    have "kn_fit left (n # ns) = nths (n # ns) (Suc ` Q)"
      using False Q by (simp add: nths_Cons inj_image_mem_iff)
    then show ?thesis by blast
  qed
qed simp

lemma payload_eq:
  assumes tab: "kn_tab nodes" and size: "7 < max_size" "max_size < 2 ^ 31"
  shows "get_known_nodes_payload nodes buffer max_size =
    nodes_message (kn_fit (max_size - 6) (th_list nodes))"
proof -
  let ?ns = "kn_fit (max_size - 6) (th_list nodes)"
  let ?ctx = "\<lparr>pl_buffer = snprintf_at buffer 0 max_size ''NODES '', pl_max_size = max_size,
    pl_current_offset = 6\<rparr>"
  define ctx where "ctx = fold append_node_to_payload (th_list nodes) ?ctx"
  have start: "snprintf_at buffer 0 max_size ''NODES '' = ''NODES ''"
    using size(1) by (simp add: snprintf_at_def snprintf_def)
  have F: "pl_current_offset ctx = 6 + length (concat (map node_text ?ns))"
    "take (pl_current_offset ctx) (pl_buffer ctx) = ''NODES '' @ concat (map node_text ?ns)"
    "pl_current_offset ctx \<le> length (pl_buffer ctx)"
    using payload_fold [of ?ctx "th_list nodes"] size unfolding ctx_def start by (auto simp: Let_def)
  have less: "pl_current_offset ctx < max_size"
    using kn_fit_length [of "max_size - 6" "th_list nodes"] size(1) F(1) by simp
  have P: "get_known_nodes_payload nodes buffer max_size =
      (if 6 < pl_current_offset ctx \<and> pl_current_offset ctx < max_size
       then take (pl_current_offset ctx - 1) (pl_buffer ctx) @ ''\<newline>''
       else snprintf_at (pl_buffer ctx) 0 max_size ''NODES \<newline>'')"
    by (simp only: get_known_nodes_payload_def Let_def kn.visitar [OF tab] ctx_def)
  show ?thesis
  proof (cases "?ns = []")
    case True
    then show ?thesis
      using F(1) size(1) by (simp add: P nodes_message_def snprintf_at_def snprintf_def)
  next
    case False
    then have ne: "concat (map node_text ?ns) \<noteq> []" using node_text_ne by (cases ?ns) auto
    have "take (pl_current_offset ctx - 1) (pl_buffer ctx) =
        butlast (take (pl_current_offset ctx) (pl_buffer ctx))"
      by (rule butlast_take [OF F(3), symmetric])
    also have "\<dots> = ''NODES '' @ butlast (concat (map node_text ?ns))"
      unfolding F(2) using ne by (simp add: butlast_append)
    finally show ?thesis using less F(1) ne by (simp add: P nodes_message_def)
  qed
qed

section \<open>The garbage collector\<close>

text \<open>The silent nodes that are dropped: the first \<open>max_size\<close> of them, in table order.\<close>

definition kn_silent :: "int \<Rightarrow> elem_known_nodes_t \<Rightarrow> bool" where
  "kn_silent now node \<longleftrightarrow> ANNOUNCE_TIMEOUT < now - kn_time_stamp node"

definition kn_report :: "(nat \<Rightarrow> bool) \<Rightarrow> elem_known_nodes_t list \<Rightarrow> (string option \<times> u32) list" where
  "kn_report dup ns =
     map (\<lambda>(i, n). (if dup i then Some (kn_node_ip n) else None, kn_node_port n)) (enumerate 0 ns)"

lemma gc_fold:
  defines "c0 \<equiv> \<lambda>m now. \<lparr>gc_dead = [], gc_to_delete = [], gc_max = m, gc_now = now\<rparr>"
  shows "gc_to_delete (fold (check_inactive_node dup) ns (c0 m now)) = take m (filter (kn_silent now) ns) \<and>
    gc_dead (fold (check_inactive_node dup) ns (c0 m now)) =
      kn_report dup (take m (filter (kn_silent now) ns))"
proof -
  let ?I = "\<lambda>c. gc_max c = m \<and> gc_now c = now \<and> gc_dead c = kn_report dup (gc_to_delete c)"
  have len: "length (kn_report dup xs) = length xs" for xs by (simp add: kn_report_def)
  have "?I (fold (check_inactive_node dup) ns (c0 m now)) \<and>
    gc_to_delete (fold (check_inactive_node dup) ns (c0 m now)) =
      gc_to_delete (c0 m now) @ take (m - length (gc_to_delete (c0 m now))) (map (\<lambda>x. x) (filter (kn_silent now) ns))"
    by (rule fold_collect [where I = ?I])
      (auto simp: c0_def check_inactive_node_def kn_silent_def len, simp_all add: kn_report_def enumerate_append_eq)
  then show ?thesis by (auto simp: c0_def)
qed

lemma remove_bucle_spec:
  assumes "kn_tab nodes"
  shows "\<exists>nodes'. remove_bucle ns nodes = Some nodes' \<and> kn_tab nodes' \<and>
    kn_map nodes' = (\<lambda>k. if k \<in> kn_key ` set ns then None else kn_map nodes k) \<and>
    (th_room j nodes \<longrightarrow> th_room j nodes')"
  using assms
proof (induction ns arbitrary: nodes)
  case (Cons n ns)
  obtain nodes1 where d: "tablahash_eliminar nodes n = Some nodes1" "th_room j nodes \<longrightarrow> th_room j nodes1"
    using kn.del_total [OF Cons.prems] by blast
  have tab1: "kn_tab nodes1" and m1: "kn_map nodes1 = (kn_map nodes)(kn_key n := None)"
    using kn.eliminar_spec [OF Cons.prems d(1)] kn.eliminar_map [OF Cons.prems d(1)] by (simp_all add: kn_map_def)
  have "(\<lambda>k. if k \<in> kn_key ` set ns then None else kn_map nodes1 k) =
      (\<lambda>k. if k \<in> kn_key ` set (n # ns) then None else kn_map nodes k)" unfolding m1 by (rule ext) simp
  with Cons.IH [OF tab1] d show ?case by auto
qed simp

lemma remove_inactive_spec:
  fixes m :: nat and now :: int
  assumes tab: "kn_tab nodes" and small: "numElems nodes < 2 ^ 31"
  defines "dead \<equiv> take m (filter (kn_silent now) (th_list nodes))"
  shows "\<exists>nodes'. remove_inactive_nodes True dup now nodes m = Some (kn_report dup dead, nodes') \<and>
    kn_tab nodes' \<and> kn_map nodes' = (\<lambda>k. if k \<in> kn_key ` set dead then None else kn_map nodes k) \<and>
    (th_room j nodes \<longrightarrow> th_room j nodes')"
proof (cases "tablahash_nelems nodes = 0")
  case True
  then have "th_list nodes = []"
    using small kn.nelems_length [OF tab] by (simp add: tablahash_nelems_def int_of_u32_small)
  with True tab show ?thesis
    by (auto simp: remove_inactive_nodes_def dead_def kn_report_def)
next
  case False
  obtain nodes' where "remove_bucle dead nodes = Some nodes'" "kn_tab nodes'"
    "kn_map nodes' = (\<lambda>k. if k \<in> kn_key ` set dead then None else kn_map nodes k)"
    "th_room j nodes \<longrightarrow> th_room j nodes'"
    using remove_bucle_spec [OF tab] by blast
  with False gc_fold [of dup "th_list nodes" m now] show ?thesis
    by (simp add: remove_inactive_nodes_def Let_def kn.visitar [OF tab] dead_def)
qed

text \<open>A directory with given entries, for the examples below.\<close>

definition ej_node :: "string \<Rightarrow> int \<Rightarrow> elem_known_nodes_t" where
  "ej_node ip t = \<lparr>kn_node_ip = ip, kn_node_port = 9000, kn_avail = (\<lambda>_. 0)(CPU := 8, GPU := 1, RAM := 64),
     kn_time_stamp = t\<rparr>"

lemma kn_table: "\<exists>nodes. kn_tab nodes \<and> kn_map nodes = [kn_key e \<mapsto> e] \<and> th_list nodes = [e] \<and> th_room 5 nodes"
proof -
  have c: "kn_tab create_known_nodes" "th_set create_known_nodes = {}" "th_room (Suc 5) create_known_nodes"
    using create_known_nodes_inv [of 6] by simp_all
  obtain nodes where ins: "tablahash_insertar create_known_nodes e = Some nodes" "th_room 5 nodes"
    using kn.ins_total [OF c(1,3)] by blast
  have tab: "kn_tab nodes" "th_set nodes = {e}" using kn.ins_spec [OF c(1) ins(1)] c(2) by auto
  have "kn_map nodes = [kn_key e \<mapsto> e]"
    using tab(2) unfolding kn_map_def by (intro kn.map_eqI [OF tab(1)]) auto
  moreover have "length (th_list nodes) = 1"
    using kn.nelems_length [OF tab(1)] kn.nelems_card [OF tab(1)] tab(2) by simp
  then have "th_list nodes = [e]" using tab(2) by (cases "th_list nodes") (auto simp: th_set_def)
  ultimately show ?thesis using tab(1) ins(2) by blast
qed

lemma update_known_spec:
  assumes tab: "kn_tab nodes" and room: "th_room (Suc k) nodes"
  shows "\<exists>nodes'. update_known_node True now nodes ip port cpu ram gpu = Some nodes' \<and> kn_tab nodes' \<and>
    th_room k nodes' \<and> kn_map nodes' = (kn_map nodes)((ip, port) \<mapsto>
      \<lparr>kn_node_ip = ip, kn_node_port = port, kn_avail = (\<lambda>_. 0)(CPU := cpu, RAM := ram, GPU := gpu),
       kn_time_stamp = now\<rparr>)"
proof -
  let ?e = "\<lparr>kn_node_ip = ip, kn_node_port = port, kn_avail = (\<lambda>_. 0)(CPU := cpu, RAM := ram, GPU := gpu),
       kn_time_stamp = now\<rparr>"
  obtain nodes' where ins: "tablahash_insertar nodes ?e = Some nodes'" "th_room k nodes'"
    using kn.ins_total [OF tab room] by blast
  with kn.insertar_map [OF tab ins(1)] kn.insertar_spec [OF tab ins(1)] show ?thesis
    by (auto simp: update_known_node_def create_elem_known_node_def kn_map_def kn_key_def)
qed

section \<open>Properties\<close>

text \<open>
  Claim C17. An announcement updates the directory like a map: the entry of the address and port is
  the announced one with the current time, whether the node was known or not, and no other entry
  changes.
\<close>

theorem update_known_node_correct:
  assumes "kn_tab nodes" "th_room (Suc k) nodes"
  shows "\<exists>nodes'. update_known_node True now nodes ip port cpu ram gpu = Some nodes' \<and> kn_tab nodes' \<and>
    th_room k nodes' \<and> kn_map nodes' = (kn_map nodes)((ip, port) \<mapsto>
      \<lparr>kn_node_ip = ip, kn_node_port = port, kn_avail = (\<lambda>_. 0)(CPU := cpu, RAM := ram, GPU := gpu),
       kn_time_stamp = now\<rparr>)"
  using assms by (rule update_known_spec)

theorem update_known_node_correct_witness:
  "\<exists>nodes nodes'. kn_map nodes (''10.0.0.1'', 9000) = Some (ej_node ''10.0.0.1'' 50) \<and>
     update_known_node True 60 nodes ''10.0.0.1'' 9000 7 32 0 = Some nodes' \<and>
     map_option kn_time_stamp (kn_map nodes' (''10.0.0.1'', 9000)) = Some 60"
proof -
  obtain nodes where N: "kn_tab nodes" "kn_map nodes = [(''10.0.0.1'', 9000) \<mapsto> ej_node ''10.0.0.1'' 50]"
    "th_room (Suc 4) nodes"
    using kn_table [of "ej_node ''10.0.0.1'' 50"] by (auto simp: kn_key_def ej_node_def)
  from update_known_node_correct [OF N(1,3), of 60 "''10.0.0.1''" 9000 7 32 0] N(2)
  show ?thesis by - (rule exI [of _ nodes], auto)
qed

text \<open>
  Claim C18. \<^verbatim>\<open>remove_inactive_nodes\<close> drops silent nodes only, and reports exactly what it drops, by
  address and port: the first \<^verbatim>\<open>max_size\<close> nodes, in table order, from which nothing was heard for more
  than 15 seconds. When fewer than \<^verbatim>\<open>max_size\<close> are reported, no silent node remains.
\<close>

theorem remove_inactive_nodes_correct:
  assumes tab: "kn_tab nodes" and small: "numElems nodes < 2 ^ 31"
  shows "\<exists>dead nodes'. remove_inactive_nodes True (\<lambda>_. True) now nodes m =
      Some (map (\<lambda>k. (Some (fst k), snd k)) dead, nodes') \<and> kn_tab nodes' \<and> distinct dead \<and>
    (\<forall>k \<in> set dead. \<exists>n. kn_map nodes k = Some n \<and> kn_silent now n) \<and>
    kn_map nodes' = (\<lambda>k. if k \<in> set dead then None else kn_map nodes k) \<and>
    (length dead < m \<longrightarrow> (\<forall>k n. kn_map nodes' k = Some n \<longrightarrow> \<not> kn_silent now n))"
proof -
  let ?L = "filter (kn_silent now) (th_list nodes)"
  let ?ns = "take m ?L"
  let ?dead = "map kn_key ?ns"
  obtain nodes' where R: "remove_inactive_nodes True (\<lambda>_. True) now nodes m = Some (kn_report (\<lambda>_. True) ?ns, nodes')"
    "kn_tab nodes'" "kn_map nodes' = (\<lambda>k. if k \<in> kn_key ` set ?ns then None else kn_map nodes k)"
    using remove_inactive_spec [OF tab small, where now = now and dup = "\<lambda>_. True" and m = m] by blast
  have rep: "kn_report (\<lambda>_. True) ns = map (\<lambda>k. (Some (fst k), snd k)) (map kn_key ns)" for ns
    unfolding kn_report_def by (rule nth_equalityI) (simp_all add: nth_enumerate_eq kn_key_def)
  have dist: "distinct ?dead"
    using kn.list_distinct [OF tab] by (simp add: distinct_map_filter flip: take_map)
  have sil: "\<forall>k \<in> set ?dead. \<exists>n. kn_map nodes k = Some n \<and> kn_silent now n"
    using kn.map_Some [OF tab] by (auto simp: kn_map_def th_set_def dest!: in_set_takeD)
  have none: "\<not> kn_silent now n" if "length ?dead < m" "kn_map nodes' k = Some n" for k n
  proof
    assume "kn_silent now n"
    moreover have "n \<in> set (th_list nodes)" "kn_key n = k"
      using that(2) R(3) kn.map_Some [OF tab, of k n] by (auto simp: kn_map_def th_set_def split: if_splits)
    moreover have "?ns = ?L" using that(1) by simp
    ultimately have "k \<in> kn_key ` set ?ns" by auto
    with that(2) R(3) show False by simp
  qed
  have map: "kn_map nodes' = (\<lambda>k. if k \<in> set ?dead then None else kn_map nodes k)"
    using R(3) unfolding set_map .
  have run: "remove_inactive_nodes True (\<lambda>_. True) now nodes m =
      Some (map (\<lambda>k. (Some (fst k), snd k)) ?dead, nodes')"
    using R(1) unfolding rep .
  from run R(2) dist sil map none show ?thesis by blast
qed

theorem remove_inactive_nodes_correct_witness:
  "\<exists>nodes nodes'. kn_map nodes (''10.0.0.1'', 9000) = Some (ej_node ''10.0.0.1'' 50) \<and>
     remove_inactive_nodes True (\<lambda>_. True) 66 nodes 10 = Some ([(Some ''10.0.0.1'', 9000)], nodes')"
proof -
  obtain nodes where N: "kn_tab nodes" "kn_map nodes = [(''10.0.0.1'', 9000) \<mapsto> ej_node ''10.0.0.1'' 50]"
    "th_list nodes = [ej_node ''10.0.0.1'' 50]"
    using kn_table [of "ej_node ''10.0.0.1'' 50"] by (auto simp: kn_key_def ej_node_def)
  have small: "numElems nodes < 2 ^ 31" using kn.nelems_length [OF N(1)] N(3) by simp
  from remove_inactive_nodes_correct [OF N(1) small, of 66 10] obtain dead nodes' where
    D: "remove_inactive_nodes True (\<lambda>_. True) 66 nodes 10 = Some (map (\<lambda>k. (Some (fst k), snd k)) dead, nodes')"
      "distinct dead" "\<forall>k \<in> set dead. \<exists>n. kn_map nodes k = Some n"
      "kn_map nodes' = (\<lambda>k. if k \<in> set dead then None else kn_map nodes k)"
      "length dead < 10 \<longrightarrow> (\<forall>k n. kn_map nodes' k = Some n \<longrightarrow> \<not> kn_silent 66 n)" by blast
  have sub: "set dead \<subseteq> {(''10.0.0.1'', 9000)}" using D(3) N(2) by (auto split: if_splits)
  have "length dead < 10"
    using distinct_card [OF D(2)] card_mono [OF _ sub] by simp
  moreover have "kn_silent 66 (ej_node ''10.0.0.1'' 50)"
    by (simp add: kn_silent_def ANNOUNCE_TIMEOUT_def ej_node_def)
  ultimately have "(''10.0.0.1'', 9000) \<in> set dead" using D(4,5) N(2) by (auto split: if_splits)
  with sub have set: "set dead = {(''10.0.0.1'', 9000)}" by blast
  with distinct_card [OF D(2)] have "length dead = 1" by simp
  with set have "dead = [(''10.0.0.1'', 9000)]" by (cases dead) auto
  with D(1) N(2) show ?thesis by - (rule exI [of _ nodes], auto)
qed

text \<open>
  Claim C19. The answer to GET\_NODES is always a well formed line that fits the buffer: the header,
  then complete entries \<^verbatim>\<open>ip:port:cpu:n:mem:n:gpu:n\<close> separated by semicolons, then a newline. Entries
  that do not fit are left out as a whole; when all fit, all are listed. The text and its NUL never
  pass \<^verbatim>\<open>max_size\<close> bytes.
\<close>

theorem known_nodes_payload_correct:
  assumes tab: "kn_tab nodes" and size: "7 < max_size" "max_size < 2 ^ 31"
  shows "\<exists>P. get_known_nodes_payload nodes buffer max_size = nodes_message (nths (th_list nodes) P) \<and>
    length (get_known_nodes_payload nodes buffer max_size) < max_size \<and>
    (6 + length (concat (map node_text (th_list nodes))) < max_size \<longrightarrow>
       get_known_nodes_payload nodes buffer max_size = nodes_message (th_list nodes))"
proof -
  let ?ns = "kn_fit (max_size - 6) (th_list nodes)"
  note eq = payload_eq [OF tab size, of buffer]
  obtain P where P: "?ns = nths (th_list nodes) P" using kn_fit_subseq by blast
  have "length (nodes_message ?ns) < max_size"
    using kn_fit_length [of "max_size - 6" "th_list nodes"] size(1) by (auto simp: nodes_message_def)
  moreover have "?ns = th_list nodes" if "6 + length (concat (map node_text (th_list nodes))) < max_size"
    using that by (intro kn_fit_all) simp
  ultimately show ?thesis using eq P by (intro exI [of _ P]) auto
qed

theorem known_nodes_payload_correct_witness:
  "\<exists>nodes. th_list nodes = [ej_node ''10.0.0.1'' 50] \<and>
     get_known_nodes_payload nodes [] 4096 = ''NODES 10.0.0.1:9000:cpu:8:mem:64:gpu:1\<newline>''"
proof -
  obtain nodes where N: "kn_tab nodes" "th_list nodes = [ej_node ''10.0.0.1'' 50]"
    using kn_table [of "ej_node ''10.0.0.1'' 50"] by auto
  have t: "node_text (ej_node ''10.0.0.1'' 50) = ''10.0.0.1:9000:cpu:8:mem:64:gpu:1;''"
    by (simp add: node_text_def ej_node_def fmt_u_def dec_of_nat.simps)
  from known_nodes_payload_correct [OF N(1), of 4096 "[]"]
  have "get_known_nodes_payload nodes [] 4096 = nodes_message [ej_node ''10.0.0.1'' 50]"
    by (auto simp: N(2) t)
  then show ?thesis using N(2) by (auto simp: nodes_message_def t)
qed

end
