(* ===== verification/Node_Structures.thy ===== *)
theory Node_Structures
  imports Inventory Owned_Jobs Known_Nodes
begin

text \<open>
  The state of a node, \<^verbatim>\<open>c_agent/src/resources/node_structures.c\<close>: the inventory with its table of
  granted reservations, the directory and the table of jobs. The three mutexes of the struct have no
  value here; every operation of the model is a critical section of the code. The constructors of the
  tables assert that their allocation succeeds.
\<close>

record node_data_t =
  active_jobs :: active_jobs_t
  resources :: local_resources_t
  known_nodes :: known_nodes_t
  owned_jobs :: owned_jobs_t

text \<open>\<open>mem\<close> and \<open>mem_res\<close> say whether the allocations of the node and of the inventory succeed.\<close>

definition init_node :: "bool \<Rightarrow> bool \<Rightarrow> u32 \<Rightarrow> u32 \<Rightarrow> u32 \<Rightarrow> node_data_t option" where
  "init_node mem mem_res cpu ram gpu =
     (if \<not> mem then None
      else case create_local_resource mem_res cpu gpu ram of
             None \<Rightarrow> None
           | Some r \<Rightarrow> Some \<lparr>active_jobs = create_active_jobs_table, resources = r,
               known_nodes = create_known_nodes, owned_jobs = create_owned_jobs\<rparr>)"

text \<open>What is handed to the destructors.\<close>

definition dest_node :: "node_data_t option \<Rightarrow>
    elem_job_request_t list \<times> elem_active_job_t list \<times> elem_known_nodes_t list \<times> elem_owned_job_t list" where
  "dest_node n =
     (case n of
        None \<Rightarrow> ([], [], [], [])
      | Some node \<Rightarrow> (delete_local_resource (resources node), tablahash_destruir (active_jobs node),
          delete_known_nodes (known_nodes node), delete_owned_jobs (owned_jobs node)))"

section \<open>The invariant of a node\<close>

text \<open>The parts have their invariants; for the jobs it is a parameter.\<close>

definition node_inv_for :: "(elem_owned_job_t \<Rightarrow> bool) \<Rightarrow> node_data_t \<Rightarrow> bool" where
  "node_inv_for ok node \<longleftrightarrow> lr_inv (resources node) (active_jobs node) \<and> oj_inv_for ok (owned_jobs node) \<and>
     kn_tab (known_nodes node)"

abbreviation node_inv :: "node_data_t \<Rightarrow> bool" where
  "node_inv \<equiv> node_inv_for oj_ok"

lemma node_invD:
  assumes "node_inv_for ok node"
  shows "lr_inv (resources node) (active_jobs node)" "oj_inv_for ok (owned_jobs node)" "kn_tab (known_nodes node)"
  using assms by (simp_all add: node_inv_for_def)

text \<open>Room for \<open>k\<close> more elements in the three tables, and for all the requests that wait.\<close>

definition node_room :: "nat \<Rightarrow> node_data_t \<Rightarrow> bool" where
  "node_room k node \<longleftrightarrow> th_room (k + lr_waiting (resources node)) (active_jobs node) \<and>
     th_room k (owned_jobs node) \<and> th_room k (known_nodes node)"

lemma node_room_mono: "node_room k node \<Longrightarrow> j \<le> k \<Longrightarrow> node_room j node"
  by (auto simp: node_room_def intro: th_room_mono)

lemma init_node_inv:
  assumes "init_node mem mem_res cpu ram gpu = Some node"
  shows "node_inv_for ok node \<and> (10 * k \<le> 7 * 2 ^ 30 \<longrightarrow> node_room k node) \<and>
    total (resources node) = (\<lambda>_. 0)(CPU := cpu, GPU := gpu, RAM := ram)"
proof -
  have mem: "mem" "mem_res"
    using assms by (auto simp: init_node_def create_local_resource_def split: if_splits)
  have node: "node = \<lparr>active_jobs = snd (lr_init cpu gpu ram), resources = fst (lr_init cpu gpu ram),
      known_nodes = create_known_nodes, owned_jobs = create_owned_jobs\<rparr>"
    using assms mem by (simp add: init_node_def lr_init_def create_local_resource_eq)
  show ?thesis
    using lr_exactD(1) [OF lr_init_exact, of cpu gpu ram] create_owned_jobs_inv [of ok k]
      create_known_nodes_inv [of k] lr_init_room [of k cpu gpu ram]
    by (auto simp: node node_inv_for_def node_room_def total_lr_init lr_waiting_def)
      (simp_all add: lr_init_def create_local_resource_eq)
qed

end
