(* ===== verification/Connections.thy ===== *)
theory Connections
  imports C_Strings
begin

text \<open>
  The table of open connections of \<^verbatim>\<open>c_agent/src/comms/event_handler.c\<close>: \<^verbatim>\<open>active_connections\<close>, indexed
  by file descriptor. A connection this node opened has the port of the peer, one it accepted has
  port 0. The table is a list of \<open>MAX_FDS\<close> entries; the read-write lock has no value here
  (theory \<open>Concurrency\<close> has the locks).
\<close>

section \<open>The table\<close>

definition MAX_FDS :: nat where
  "MAX_FDS = 1024"

definition BUFFER_SIZE :: nat where
  "BUFFER_SIZE = 1024"

record ConnectionState =
  is_active :: int
  cn_ip :: string
  cn_port :: u32
  pending_message :: string
  cn_job_id :: u32

type_synonym connections = "ConnectionState list"

definition active_connections_init :: connections where
  "active_connections_init =
     replicate MAX_FDS \<lparr>is_active = 0, cn_ip = [], cn_port = 0, pending_message = [], cn_job_id = 0\<rparr>"

text \<open>The loop over the descriptors from \<open>i\<close> on; \<open>None\<close> as address is a NULL pointer.\<close>

fun find_bucle :: "int \<Rightarrow> connections \<Rightarrow> string option \<Rightarrow> u32 \<Rightarrow> int result" where
  "find_bucle i [] target_ip target_port = Some (- 1)"
| "find_bucle i (c # cs) target_ip target_port =
     (if is_active c \<noteq> 0 \<and> cn_port c = target_port then
        (case target_ip of
           None \<Rightarrow> None
         | Some ip \<Rightarrow> if strncmp_eq 15 (cn_ip c) ip then Some i else find_bucle (i + 1) cs target_ip target_port)
      else find_bucle (i + 1) cs target_ip target_port)"

definition find_fd_by_ip_port :: "connections \<Rightarrow> string option \<Rightarrow> u32 \<Rightarrow> int result" where
  "find_fd_by_ip_port conns target_ip target_port = find_bucle 0 conns target_ip target_port"

definition get_connection_port :: "connections \<Rightarrow> int \<Rightarrow> u32" where
  "get_connection_port conns fd =
     (if fd < 0 \<or> int MAX_FDS \<le> fd then 0
      else if is_active (conns ! nat fd) \<noteq> 0 then cn_port (conns ! nat fd) else 0)"

section \<open>What the search finds\<close>

definition cn_matches :: "string \<Rightarrow> u32 \<Rightarrow> ConnectionState \<Rightarrow> bool" where
  "cn_matches ip port c \<longleftrightarrow> is_active c \<noteq> 0 \<and> cn_port c = port \<and> take 15 (cn_ip c) = take 15 ip"

lemma find_bucle_spec:
  "\<exists>r. find_bucle i cs (Some ip) port = Some r \<and>
     (r = - 1 \<and> (\<forall>c \<in> set cs. \<not> cn_matches ip port c) \<or>
      (\<exists>k < length cs. r = i + int k \<and> cn_matches ip port (cs ! k) \<and>
         (\<forall>j < k. \<not> cn_matches ip port (cs ! j))))"
proof (induction cs arbitrary: i)
  case (Cons c cs)
  show ?case
  proof (cases "cn_matches ip port c")
    case True
    then have "find_bucle i (c # cs) (Some ip) port = Some i"
      by (simp add: cn_matches_def strncmp_eq_def)
    with True show ?thesis by (intro exI [of _ i]) auto
  next
    case False
    then have step: "find_bucle i (c # cs) (Some ip) port = find_bucle (i + 1) cs (Some ip) port"
      by (auto simp: cn_matches_def strncmp_eq_def)
    from Cons.IH [of "i + 1"] obtain r where r: "find_bucle (i + 1) cs (Some ip) port = Some r"
      "r = - 1 \<and> (\<forall>c \<in> set cs. \<not> cn_matches ip port c) \<or> (\<exists>k < length cs. r = i + 1 + int k \<and>
        cn_matches ip port (cs ! k) \<and> (\<forall>j < k. \<not> cn_matches ip port (cs ! j)))" by blast
    from r(2) show ?thesis
    proof (elim disjE exE conjE)
      fix k assume k: "k < length cs" "r = i + 1 + int k" "cn_matches ip port (cs ! k)"
        "\<forall>j < k. \<not> cn_matches ip port (cs ! j)"
      then have "\<not> cn_matches ip port ((c # cs) ! j)" if "j < Suc k" for j
        using that False by (cases j) auto
      with k r(1) step show ?thesis by (intro exI [of _ r] conjI disjI2 exI [of _ "Suc k"]) auto
    qed (use r(1) step False in auto)
  qed
qed simp

section \<open>Properties\<close>

text \<open>
  \<^verbatim>\<open>find_fd_by_ip_port\<close> returns the first descriptor of an active connection to the port
  whose address agrees in the first 15 characters, which is then a valid index of the table and has
  that port as its connection port; it returns -1 exactly when there is none.
\<close>

theorem find_fd_correct:
  assumes "length conns = MAX_FDS"
  shows "\<exists>fd. find_fd_by_ip_port conns (Some ip) port = Some fd \<and>
    (fd = - 1 \<longleftrightarrow> (\<forall>c \<in> set conns. \<not> cn_matches ip port c)) \<and>
    (fd \<noteq> - 1 \<longrightarrow> 0 \<le> fd \<and> fd < int MAX_FDS \<and> cn_matches ip port (conns ! nat fd) \<and>
       get_connection_port conns fd = port \<and> (\<forall>j < nat fd. \<not> cn_matches ip port (conns ! j)))"
proof -
  obtain r where r: "find_bucle 0 conns (Some ip) port = Some r"
    "r = - 1 \<and> (\<forall>c \<in> set conns. \<not> cn_matches ip port c) \<or>
      (\<exists>k < length conns. r = int k \<and> cn_matches ip port (conns ! k) \<and>
         (\<forall>j < k. \<not> cn_matches ip port (conns ! j)))"
    using find_bucle_spec [of 0 conns ip port] by auto
  from r(2) show ?thesis
  proof (elim disjE exE conjE)
    fix k assume k: "k < length conns" "r = int k" "cn_matches ip port (conns ! k)"
      "\<forall>j < k. \<not> cn_matches ip port (conns ! j)"
    have "\<exists>c \<in> set conns. cn_matches ip port c" using k(1,3) nth_mem by blast
    with k r(1) assms show ?thesis
      by (intro exI [of _ r]) (auto simp: find_fd_by_ip_port_def get_connection_port_def cn_matches_def)
  qed (use r(1) in \<open>auto simp: find_fd_by_ip_port_def\<close>)
qed

theorem find_fd_correct_witness:
  "\<exists>fd. find_fd_by_ip_port (active_connections_init[7 := \<lparr>is_active = 1, cn_ip = ''10.0.0.1'', cn_port = 9000,
      pending_message = [], cn_job_id = 0\<rparr>]) (Some ''10.0.0.1'') 9000 = Some fd \<and> fd \<noteq> - 1"
proof -
  let ?c = "\<lparr>is_active = 1, cn_ip = ''10.0.0.1'', cn_port = 9000, pending_message = [], cn_job_id = 0\<rparr>"
  let ?cs = "active_connections_init[7 := ?c]"
  have len: "length ?cs = MAX_FDS" by (simp add: active_connections_init_def)
  then have "?c \<in> set ?cs" by (intro set_update_memI) (simp add: MAX_FDS_def)
  moreover have "cn_matches ''10.0.0.1'' 9000 ?c" by (simp add: cn_matches_def)
  ultimately show ?thesis using find_fd_correct [OF len, of "''10.0.0.1''" 9000] by blast
qed

end
