(* ===== verification/Resource_Adapter.thy ===== *)
theory Resource_Adapter
  imports Node_Structures Connections
begin

text \<open>
  The protocol of the agent, \<^verbatim>\<open>c_agent/src/comms/resource_adapter.c\<close>: each event is turned into changes
  of the node and messages in the outbox. The handlers are functions from the node and the outbox to
  the new ones; \<open>None\<close> is undefined behaviour (in the containers, a NULL address, or the overflow of
  \<^verbatim>\<open>res\<close> in \<^verbatim>\<open>handle_reserve\<close>). The outbox is the list of its \<^verbatim>\<open>count\<close> messages.

  \<open>env\<close> is the environment of one event: the time, the values of \<^verbatim>\<open>rand ()\<close> in the order of the calls
  of \<^verbatim>\<open>chk_job_request\<close>, and which allocations succeed, numbered as each handler says.
\<close>

section \<open>Messages\<close>

definition MAX_OUTBOX :: nat where
  "MAX_OUTBOX = 128"

record out_msg_t =
  target_ip :: string
  target_port :: int
  target_fd :: int
  message :: string

type_synonym outbox_t = "out_msg_t list"

record env =
  env_now :: int
  env_rnd :: "nat \<Rightarrow> nat"
  env_mem :: "nat \<Rightarrow> bool"

datatype JuaniAction = ACTION_RESPOND | ACTION_CHECK_DEADNODES | ACTION_GET_RESOURCES
  | ACTION_NEW_NODE_DISCOVERED | ACTION_DISCONNECTED | ACTION_NONE

definition add_to_outbox :: "outbox_t \<Rightarrow> string \<Rightarrow> int \<Rightarrow> string option \<Rightarrow> u32 \<Rightarrow> outbox_t" where
  "add_to_outbox outbox msg fd ip port =
     (if MAX_OUTBOX \<le> length outbox then outbox
      else outbox @ [\<lparr>target_ip = (case ip of None \<Rightarrow> [] | Some s \<Rightarrow> strncpy 15 s),
                      target_port = int_of_u32 port, target_fd = fd, message = snprintf BUFFER_SIZE msg\<rparr>])"

definition res_text :: "resource_t \<Rightarrow> string" where
  "res_text type = (if type = CPU then ''cpu'' else if type = RAM then ''mem'' else ''gpu'')"

text \<open>The format \<^verbatim>\<open><word> %u %s %u\<close> of RESERVE and RELEASE, and \<^verbatim>\<open><word> %u\<close> of the others.\<close>

definition petition_msg :: "string \<Rightarrow> u32 \<Rightarrow> job_petition_t \<Rightarrow> string" where
  "petition_msg word job_id p = snprintf 128
     (word @ '' '' @ fmt_u job_id @ '' '' @ res_text (jp_type p) @ '' '' @ fmt_u (jp_quantity p) @ ''\<newline>'')"

definition job_msg :: "string \<Rightarrow> u32 \<Rightarrow> string" where
  "job_msg word job_id = snprintf 64 (word @ '' '' @ fmt_u job_id @ ''\<newline>'')"

definition lits :: "string \<Rightarrow> fmt list" where
  "lits s = map Lit s"

text \<open>The loops that send a RELEASE to every node of \<open>ps\<close>.\<close>

definition send_releases :: "u32 \<Rightarrow> job_petition_t list \<Rightarrow> outbox_t \<Rightarrow> outbox_t" where
  "send_releases job_id ps outbox =
     fold (\<lambda>p ob. add_to_outbox ob (petition_msg ''RELEASE'' job_id p) (- 1) (jp_ip p) (jp_port p)) ps outbox"

section \<open>Requests of the local scheduler\<close>

definition handle_get_nodes_response :: "node_data_t \<Rightarrow> u32 \<Rightarrow> outbox_t \<Rightarrow> node_data_t \<times> outbox_t" where
  "handle_get_nodes_response node socket outbox =
     (let msg = get_known_nodes_payload (known_nodes node) [] BUFFER_SIZE;
          final_msg = snprintf (BUFFER_SIZE + 1) msg
      in (node, add_to_outbox outbox final_msg (int_of_u32 socket) None 0))"

text \<open>\<^verbatim>\<open>"@%15[^:]:%u:%9[^:]:%u"\<close>\<close>

definition petition_fmt :: "fmt list" where
  "petition_fmt = [Lit CHR ''@'', Fnot 15 CHR '':'', Lit CHR '':'', Fu, Lit CHR '':'',
     Fnot 9 CHR '':'', Lit CHR '':'', Fu]"

definition petition_type :: "string \<Rightarrow> resource_t" where
  "petition_type res = (if res = ''cpu'' then CPU else if res = ''mem'' then RAM else GPU)"

text \<open>The loop over the tokens; \<open>mem i\<close> is the allocation for the \<open>i\<close>-th of them.\<close>

fun peticiones_bucle :: "(nat \<Rightarrow> bool) \<Rightarrow> nat \<Rightarrow> u32 \<Rightarrow> string list \<Rightarrow> owned_jobs_t \<Rightarrow> owned_jobs_t result" where
  "peticiones_bucle mem i job_id [] jobs = Some jobs"
| "peticiones_bucle mem i job_id (token # tokens) jobs =
     (case sscanf petition_fmt token of
        [VS ip, VU port, VS res, VU cant] \<Rightarrow>
          do {
            (_, jobs') \<leftarrow> append_petition_to_job (mem i) jobs job_id ip port (petition_type res) cant;
            peticiones_bucle mem (Suc i) job_id tokens jobs'
          }
      | _ \<Rightarrow> peticiones_bucle mem (Suc i) job_id tokens jobs)"

text \<open>Sends the next RESERVE of the job, if one is left.\<close>

definition send_next_reserve :: "owned_jobs_t \<Rightarrow> u32 \<Rightarrow> outbox_t \<Rightarrow> (owned_jobs_t \<times> outbox_t) result" where
  "send_next_reserve jobs job_id outbox =
     do {
       (next, jobs') \<leftarrow> get_next_reserve jobs job_id;
       Some (jobs', case next of
          None \<Rightarrow> outbox
        | Some p \<Rightarrow> add_to_outbox outbox (petition_msg ''RESERVE'' job_id p) (- 1) (jp_ip p) (jp_port p))
     }"

text \<open>Allocations: 0 the copy of the line, 1 the job, \<open>2 + i\<close> the address of the \<open>i\<close>-th token.\<close>

definition handle_job_request ::
  "env \<Rightarrow> node_data_t \<Rightarrow> u32 \<Rightarrow> string \<Rightarrow> outbox_t \<Rightarrow> (node_data_t \<times> outbox_t) result" where
  "handle_job_request env node socket buffer outbox =
     (case sscanf (lits ''JOB_REQUEST'' @ [Ws, Fu]) buffer of
        [VU job_id] \<Rightarrow>
          if \<not> env_mem env 0 then Some (node, outbox)
          else do {
            (_, jobs1) \<leftarrow> add_new_owned_job (env_mem env 1) (env_now env) (owned_jobs node) job_id socket;
            jobs2 \<leftarrow> peticiones_bucle (\<lambda>i. env_mem env (2 + i)) 0 job_id (drop 2 (strtok CHR '' '' buffer)) jobs1;
            (jobs3, outbox') \<leftarrow> send_next_reserve jobs2 job_id outbox;
            Some (node\<lparr>owned_jobs := jobs3\<rparr>, outbox')
          }
      | _ \<Rightarrow> Some (node, outbox))"

definition handle_job_release :: "node_data_t \<Rightarrow> string \<Rightarrow> outbox_t \<Rightarrow> (node_data_t \<times> outbox_t) result" where
  "handle_job_release node buffer outbox =
     (case sscanf (lits ''JOB_RELEASE'' @ [Ws, Fu]) buffer of
        [VU job_id] \<Rightarrow>
          do {
            ps \<leftarrow> get_granted_resources (owned_jobs node) job_id MAX_JOB_RESOURCES;
            jobs' \<leftarrow> remove_owned_job (owned_jobs node) job_id;
            Some (node\<lparr>owned_jobs := jobs'\<rparr>, send_releases job_id ps outbox)
          }
      | _ \<Rightarrow> Some (node, outbox))"

section \<open>Messages of other nodes\<close>

definition reserve_type :: "string \<Rightarrow> resource_t" where
  "reserve_type res = (if res = ''cpu'' then CPU else if res = ''mem'' then RAM
     else if res = ''gpu'' then GPU else INVALID_RES_TYPE)"

text \<open>\<^verbatim>\<open>char res[256]\<close>: a word that does not fit, with its NUL, is written past the array.\<close>

definition handle_reserve ::
  "env \<Rightarrow> node_data_t \<Rightarrow> u32 \<Rightarrow> string \<Rightarrow> outbox_t \<Rightarrow> (node_data_t \<times> outbox_t) result" where
  "handle_reserve env node socket buffer outbox =
     (case sscanf (lits ''RESERVE'' @ [Ws, Fu, Ws, Fs None, Ws, Fu]) buffer of
        VU job_id # VS res # rest \<Rightarrow>
          if 256 \<le> length res then None
          else
            (case rest of
               [VU cant] \<Rightarrow>
                 let valid_length = (length res = 3); type = reserve_type res
                 in if type \<noteq> INVALID_RES_TYPE \<and> valid_length then
                      do {
                        (result, r', j') \<leftarrow> new_job_request (env_mem env 0) (resources node) (active_jobs node)
                           job_id socket cant type;
                        Some (node\<lparr>resources := r', active_jobs := j'\<rparr>,
                          if result = 1 then add_to_outbox outbox (job_msg ''GRANTED'' job_id) (int_of_u32 socket) None 0
                          else if result = - 1
                          then add_to_outbox outbox (job_msg ''DENIED'' job_id) (int_of_u32 socket) None 0
                          else outbox)
                      }
                    else Some (node, add_to_outbox outbox (job_msg ''DENIED'' job_id) (int_of_u32 socket) None 0)
             | _ \<Rightarrow> Some (node, outbox))
      | _ \<Rightarrow> Some (node, outbox))"

definition handle_granted :: "node_data_t \<Rightarrow> string option \<Rightarrow> u32 \<Rightarrow> string \<Rightarrow> outbox_t \<Rightarrow>
    (node_data_t \<times> outbox_t) result" where
  "handle_granted node sender_ip sender_port buffer outbox =
     (case sscanf (lits ''GRANTED'' @ [Ws, Fu]) buffer of
        [VU job_id] \<Rightarrow>
          if sender_port = 0 then Some (node, outbox)
          else do {
            (grant_result, jobs1) \<leftarrow> mark_petition_as_granted (owned_jobs node) job_id sender_ip sender_port;
            (if grant_result = 1 then
               do {
                 owner_socket \<leftarrow> get_job_owner_socket jobs1 job_id;
                 Some (node\<lparr>owned_jobs := jobs1\<rparr>,
                   add_to_outbox outbox (job_msg ''JOB_GRANTED'' job_id) (int_of_u32 owner_socket) None 0)
               }
             else if grant_result = 0 then
               do {
                 (jobs2, outbox') \<leftarrow> send_next_reserve jobs1 job_id outbox;
                 Some (node\<lparr>owned_jobs := jobs2\<rparr>, outbox')
               }
             else Some (node\<lparr>owned_jobs := jobs1\<rparr>, outbox))
          }
      | _ \<Rightarrow> Some (node, outbox))"

text \<open>Gives the job up: releases what was granted, reports \<open>word\<close> to its owner and forgets it.\<close>

definition abort_job :: "string \<Rightarrow> u32 \<Rightarrow> owned_jobs_t \<Rightarrow> outbox_t \<Rightarrow> (owned_jobs_t \<times> outbox_t) result" where
  "abort_job word job_id jobs outbox =
     do {
       ps \<leftarrow> get_granted_resources jobs job_id MAX_JOB_RESOURCES;
       owner_socket \<leftarrow> get_job_owner_socket jobs job_id;
       jobs' \<leftarrow> remove_owned_job jobs job_id;
       Some (jobs', add_to_outbox (send_releases job_id ps outbox) (job_msg word job_id) (int_of_u32 owner_socket) None 0)
     }"

definition handle_denied :: "node_data_t \<Rightarrow> string \<Rightarrow> outbox_t \<Rightarrow> (node_data_t \<times> outbox_t) result" where
  "handle_denied node buffer outbox =
     (case sscanf (lits ''DENIED'' @ [Ws, Fu]) buffer of
        [VU job_id] \<Rightarrow>
          do {
            (jobs', outbox') \<leftarrow> abort_job ''JOB_DENIED'' job_id (owned_jobs node) outbox;
            Some (node\<lparr>owned_jobs := jobs'\<rparr>, outbox')
          }
      | _ \<Rightarrow> Some (node, outbox))"

text \<open>
  Every pass of the loop of \<^verbatim>\<open>handle_release\<close> takes a request out of a queue, so that it ends. Pass \<open>k\<close>
  uses the \<open>k\<close>-th random value and the allocations from \<open>3 + 3 * k\<close> on (0 to 2 are those of
  \<^verbatim>\<open>del_active_job\<close>).
\<close>

function release_bucle :: "env \<Rightarrow> nat \<Rightarrow> local_resources_t \<Rightarrow> active_jobs_t \<Rightarrow> string \<Rightarrow> u32 \<Rightarrow> outbox_t \<Rightarrow>
    (local_resources_t \<times> active_jobs_t \<times> outbox_t) result" where
  "release_bucle env k R J msg queued_socket outbox =
     (case chk_job_request (env_rnd env k) (\<lambda>i. env_mem env (3 + 3 * k + i)) R J msg 64 (Some queued_socket) of
        None \<Rightarrow> None
      | Some (out, msg', sock', R', J') \<Rightarrow>
          if out \<noteq> - 1
          then release_bucle env (Suc k) R' J' msg' (the sock')
                 (add_to_outbox outbox msg' (int_of_u32 (the sock')) None 0)
          else Some (R', J', outbox))"
  by pat_completeness auto
termination
  by (relation "measure (\<lambda>(env, k, R, J, msg, s, ob). lr_waiting R)") (auto dest: chk_waiting)

declare release_bucle.simps [simp del]

definition handle_release ::
  "env \<Rightarrow> node_data_t \<Rightarrow> u32 \<Rightarrow> string \<Rightarrow> outbox_t \<Rightarrow> (node_data_t \<times> outbox_t) result" where
  "handle_release env node socket buffer outbox =
     (case sscanf (lits ''RELEASE'' @ [Ws, Fu, Ws, Fs (Some 9), Ws, Fu]) buffer of
        [VU job_id, VS res, VU cant] \<Rightarrow>
          do {
            (r1, j1) \<leftarrow> del_active_job (\<lambda>t. env_mem env (res_index t)) (resources node) (active_jobs node) job_id socket;
            (r2, j2, outbox') \<leftarrow> release_bucle env 0 r1 j1 [] 0 outbox;
            Some (node\<lparr>resources := r2, active_jobs := j2\<rparr>, outbox')
          }
      | _ \<Rightarrow> Some (node, outbox))"

section \<open>Maintenance\<close>

fun abort_bucle :: "string \<Rightarrow> u32 list \<Rightarrow> owned_jobs_t \<Rightarrow> outbox_t \<Rightarrow> (owned_jobs_t \<times> outbox_t) result" where
  "abort_bucle word [] jobs outbox = Some (jobs, outbox)"
| "abort_bucle word (job_id # ids) jobs outbox =
     do {
       (jobs', outbox') \<leftarrow> abort_job word job_id jobs outbox;
       abort_bucle word ids jobs' outbox'
     }"

text \<open>
  The loop over the dead nodes; the last component of the state are the descriptors closed.
  Allocations: 0 the array of \<^verbatim>\<open>remove_inactive_nodes\<close>, \<open>1 + i\<close> the copy of the \<open>i\<close>-th address,
  \<open>11 + i\<close> the array of \<^verbatim>\<open>free_all_resources_from_socket\<close> for it.
\<close>

fun dead_nodes_bucle :: "env \<Rightarrow> connections \<Rightarrow> nat \<Rightarrow> (string option \<times> u32) list \<Rightarrow>
    node_data_t \<times> outbox_t \<times> int list \<Rightarrow> (node_data_t \<times> outbox_t \<times> int list) result" where
  "dead_nodes_bucle env conns i [] s = Some s"
| "dead_nodes_bucle env conns i ((ip, port) # dead) (node, outbox, closed) =
     do {
       zombie_fd \<leftarrow> find_fd_by_ip_port conns ip port;
       (node1, closed1) \<leftarrow>
         (if zombie_fd \<noteq> - 1 then
            do {
              (r, j) \<leftarrow> free_all_resources_from_socket (env_mem env (11 + i)) (resources node) (active_jobs node)
                 (u32_of_int zombie_fd);
              Some (node\<lparr>resources := r, active_jobs := j\<rparr>, closed @ [zombie_fd])
            }
          else Some (node, closed));
       affected \<leftarrow> get_jobs_affected_by_dead_node (owned_jobs node1) ip port 20;
       (jobs', outbox') \<leftarrow> abort_bucle ''JOB_DENIED'' affected (owned_jobs node1) outbox;
       dead_nodes_bucle env conns (Suc i) dead (node1\<lparr>owned_jobs := jobs'\<rparr>, outbox', closed1)
     }"

fun timeout_bucle :: "u32 list \<Rightarrow> owned_jobs_t \<Rightarrow> outbox_t \<Rightarrow> (owned_jobs_t \<times> outbox_t) result" where
  "timeout_bucle [] jobs outbox = Some (jobs, outbox)"
| "timeout_bucle (job_id # ids) jobs outbox =
     do {
       ps \<leftarrow> get_granted_resources jobs job_id MAX_JOB_RESOURCES;
       (if MAX_OUTBOX < length outbox + length ps + 1 then Some (jobs, outbox)
        else do {
          (jobs', outbox') \<leftarrow> abort_job ''JOB_TIMEOUT'' job_id jobs outbox;
          timeout_bucle ids jobs' outbox'
        })
     }"

definition handle_check_deadnodes :: "env \<Rightarrow> connections \<Rightarrow> node_data_t \<Rightarrow> outbox_t \<Rightarrow>
    (node_data_t \<times> outbox_t \<times> int list) result" where
  "handle_check_deadnodes env conns node outbox =
     do {
       (dead, known') \<leftarrow> remove_inactive_nodes (env_mem env 0) (\<lambda>i. env_mem env (1 + i)) (env_now env) (known_nodes node) 10;
       (node1, outbox1, closed) \<leftarrow> dead_nodes_bucle env conns 0 dead (node\<lparr>known_nodes := known'\<rparr>, outbox, []);
       (jobs', outbox2) \<leftarrow> timeout_bucle (collect_timed_out_jobs (env_now env) (owned_jobs node1) 20)
          (owned_jobs node1) outbox1;
       Some (node1\<lparr>owned_jobs := jobs'\<rparr>, outbox2, closed)
     }"

text \<open>The resources of an announcement, in any order.\<close>

fun announce_bucle :: "string list \<Rightarrow> u32 \<times> u32 \<times> u32 \<Rightarrow> u32 \<times> u32 \<times> u32" where
  "announce_bucle [] (cpu, ram, gpu) = (cpu, ram, gpu)"
| "announce_bucle (token # tokens) (cpu, ram, gpu) =
     announce_bucle tokens
       (if strncmp_eq 4 token ''cpu:'' then (u32_of_int (atoi (drop 4 token)), ram, gpu)
        else if strncmp_eq 4 token ''mem:'' \<or> strncmp_eq 4 token ''ram:''
        then (cpu, u32_of_int (atoi (drop 4 token)), gpu)
        else if strncmp_eq 4 token ''gpu:'' then (cpu, ram, u32_of_int (atoi (drop 4 token)))
        else (cpu, ram, gpu))"

text \<open>Allocations: 0 the copy of the line, 1 the entry. A NULL sender is undefined in \<^verbatim>\<open>strduplicate\<close>.\<close>

definition handle_node_announced :: "env \<Rightarrow> node_data_t \<Rightarrow> string option \<Rightarrow> string \<Rightarrow> node_data_t result" where
  "handle_node_announced env node sender_ip buffer =
     (if \<not> env_mem env 0 then Some node
      else
        (case strtok CHR '' '' buffer of
           token # port_token # tokens \<Rightarrow>
             if token = ''ANNOUNCE'' then
               let port = u32_of_int (atoi port_token);
                   (cpu, ram, gpu) = announce_bucle tokens (0, 0, 0)
               in if 0 < port then
                    do {
                      ip \<leftarrow> sender_ip;
                      known' \<leftarrow> update_known_node (env_mem env 1) (env_now env) (known_nodes node) ip port cpu ram gpu;
                      Some (node\<lparr>known_nodes := known'\<rparr>)
                    }
                  else Some node
             else Some node
         | _ \<Rightarrow> Some node))"

definition announce_msg :: "int \<Rightarrow> u32 \<Rightarrow> u32 \<Rightarrow> u32 \<Rightarrow> string" where
  "announce_msg port cpu ram gpu = snprintf 128 (''ANNOUNCE '' @ fmt_d port @ '' cpu:'' @ fmt_u cpu @
     '' mem:'' @ fmt_u ram @ '' gpu:'' @ fmt_u gpu)"

definition handle_get_resources :: "int \<Rightarrow> node_data_t \<Rightarrow> outbox_t \<Rightarrow> outbox_t" where
  "handle_get_resources ctx_port node outbox =
     (let (cpu, gpu, ram) = get_local_resources (resources node)
      in add_to_outbox outbox (announce_msg ctx_port cpu ram gpu) (- 1) None 0)"

section \<open>Disconnections and the dispatcher\<close>

fun orphans_bucle :: "u32 list \<Rightarrow> owned_jobs_t \<Rightarrow> outbox_t \<Rightarrow> (owned_jobs_t \<times> outbox_t) result" where
  "orphans_bucle [] jobs outbox = Some (jobs, outbox)"
| "orphans_bucle (job_id # ids) jobs outbox =
     do {
       ps \<leftarrow> get_granted_resources jobs job_id MAX_JOB_RESOURCES;
       jobs' \<leftarrow> remove_owned_job jobs job_id;
       orphans_bucle ids jobs' (send_releases job_id ps outbox)
     }"

text \<open>The releases of a job, except to the node that is gone; \<^verbatim>\<open>strcmp\<close> comes before the port.\<close>

fun releases_except :: "string \<Rightarrow> u32 \<Rightarrow> u32 \<Rightarrow> job_petition_t list \<Rightarrow> outbox_t \<Rightarrow> outbox_t result" where
  "releases_except ip port job_id [] outbox = Some outbox"
| "releases_except ip port job_id (p # ps) outbox =
     (case jp_ip p of
        None \<Rightarrow> None
      | Some s \<Rightarrow>
          if s = ip \<and> jp_port p = port then releases_except ip port job_id ps outbox
          else releases_except ip port job_id ps
                 (add_to_outbox outbox (petition_msg ''RELEASE'' job_id p) (- 1) (jp_ip p) (jp_port p)))"

fun affected_bucle :: "string \<Rightarrow> u32 \<Rightarrow> u32 list \<Rightarrow> owned_jobs_t \<Rightarrow> outbox_t \<Rightarrow> (owned_jobs_t \<times> outbox_t) result" where
  "affected_bucle ip port [] jobs outbox = Some (jobs, outbox)"
| "affected_bucle ip port (job_id # ids) jobs outbox =
     do {
       ps \<leftarrow> get_granted_resources jobs job_id MAX_JOB_RESOURCES;
       owner_socket \<leftarrow> get_job_owner_socket jobs job_id;
       outbox1 \<leftarrow> releases_except ip port job_id ps outbox;
       jobs' \<leftarrow> remove_owned_job jobs job_id;
       affected_bucle ip port ids jobs'
         (add_to_outbox outbox1 (job_msg ''JOB_DENIED'' job_id) (int_of_u32 owner_socket) None 0)
     }"

text \<open>The case \<^verbatim>\<open>ACTION_DISCONNECTED\<close>. Allocation 0 is the array of the sweep.\<close>

definition handle_disconnected :: "env \<Rightarrow> connections \<Rightarrow> node_data_t \<Rightarrow> string option \<Rightarrow> u32 \<Rightarrow> outbox_t \<Rightarrow>
    (node_data_t \<times> outbox_t) result" where
  "handle_disconnected env conns node sender_ip socket outbox =
     do {
       (r, j) \<leftarrow> free_all_resources_from_socket (env_mem env 0) (resources node) (active_jobs node) socket;
       (jobs1, outbox1) \<leftarrow> orphans_bucle (get_jobs_by_owner_socket (owned_jobs node) socket 50) (owned_jobs node) outbox;
       let port = get_connection_port conns (int_of_u32 socket);
       (jobs2, outbox2) \<leftarrow>
         (case sender_ip of
            Some ip \<Rightarrow>
              if 0 < port then
                do {
                  affected \<leftarrow> get_jobs_affected_by_dead_node jobs1 (Some ip) port 20;
                  affected_bucle ip port affected jobs1 outbox1
                }
              else Some (jobs1, outbox1)
          | None \<Rightarrow> Some (jobs1, outbox1));
       Some (node\<lparr>resources := r, active_jobs := j, owned_jobs := jobs2\<rparr>, outbox2)
     }"

definition handle_respond :: "env \<Rightarrow> connections \<Rightarrow> node_data_t \<Rightarrow> string option \<Rightarrow> u32 \<Rightarrow> string \<Rightarrow> outbox_t \<Rightarrow>
    (node_data_t \<times> outbox_t) result" where
  "handle_respond env conns node sender_ip socket buffer outbox =
     (if strncmp_eq 9 buffer ''GET_NODES'' then Some (handle_get_nodes_response node socket outbox)
      else if strncmp_eq 11 buffer ''JOB_REQUEST'' then handle_job_request env node socket buffer outbox
      else if strncmp_eq 7 buffer ''RESERVE'' then handle_reserve env node socket buffer outbox
      else if strncmp_eq 7 buffer ''GRANTED'' then
        handle_granted node sender_ip (get_connection_port conns (int_of_u32 socket)) buffer outbox
      else if strncmp_eq 6 buffer ''DENIED'' then handle_denied node buffer outbox
      else if strncmp_eq 7 buffer ''RELEASE'' then handle_release env node socket buffer outbox
      else if strncmp_eq 11 buffer ''JOB_RELEASE'' then handle_job_release node buffer outbox
      else Some (node, outbox))"

text \<open>The node, the outbox and the descriptors closed after the event.\<close>

definition resource_adapter_patch :: "env \<Rightarrow> connections \<Rightarrow> int \<Rightarrow> node_data_t option \<Rightarrow> string option \<Rightarrow> u32 \<Rightarrow>
    string option \<Rightarrow> outbox_t \<Rightarrow> JuaniAction \<Rightarrow> (node_data_t option \<times> outbox_t \<times> int list) result" where
  "resource_adapter_patch env conns ctx_port mynode SENDER_IP SOCKET BUFFER outbox action =
     (case mynode of
        None \<Rightarrow> Some (None, outbox, [])
      | Some node \<Rightarrow>
          (case action of
             ACTION_GET_RESOURCES \<Rightarrow> Some (Some node, handle_get_resources ctx_port node [], [])
           | ACTION_NEW_NODE_DISCOVERED \<Rightarrow>
               (case BUFFER of
                  None \<Rightarrow> Some (Some node, [], [])
                | Some buffer \<Rightarrow>
                    map_option (\<lambda>node'. (Some node', [], [])) (handle_node_announced env node SENDER_IP buffer))
           | ACTION_CHECK_DEADNODES \<Rightarrow>
               map_option (\<lambda>(node', ob, closed). (Some node', ob, closed)) (handle_check_deadnodes env conns node [])
           | ACTION_DISCONNECTED \<Rightarrow>
               map_option (\<lambda>(node', ob). (Some node', ob, [])) (handle_disconnected env conns node SENDER_IP SOCKET [])
           | ACTION_RESPOND \<Rightarrow>
               (case BUFFER of
                  None \<Rightarrow> Some (Some node, [], [])
                | Some buffer \<Rightarrow>
                    map_option (\<lambda>(node', ob). (Some node', ob, []))
                      (handle_respond env conns node SENDER_IP SOCKET buffer []))
           | ACTION_NONE \<Rightarrow> Some (Some node, [], [])))"

section \<open>Messages are read back\<close>

lemma sscanf_lits [simp]: "sscanf (lits s @ f) (s @ r) = sscanf f r"
  by (induction s) (simp_all add: lits_def)

lemma length_job_msg_le:
  assumes "length word \<le> 20"
  shows "job_msg word jid = word @ '' '' @ fmt_u jid @ ''\<newline>''"
  using assms length_fmt_u [of jid] by (simp add: job_msg_def snprintf_def)

lemma length_res_text [simp]: "length (res_text t) = 3"
  by (simp add: res_text_def)

lemma petition_msg_eq:
  assumes "length word \<le> 20"
  shows "petition_msg word jid p = word @ '' '' @ fmt_u jid @ '' '' @ res_text (jp_type p) @ '' '' @
    fmt_u (jp_quantity p) @ ''\<newline>''"
  using assms length_fmt_u [of jid] length_fmt_u [of "jp_quantity p"]
  by (simp add: petition_msg_def snprintf_def)

lemma fmt_u_Cons: "\<exists>c s. fmt_u w = c # s \<and> is_digit c"
  using dec_of_nat_ne [of "unat w"] dec_of_nat_digits [of _ "unat w"]
  by (cases "dec_of_nat (unat w)") (auto simp: fmt_u_def)

lemma fmt_u_space: "dropWhile is_space (fmt_u w @ r) = fmt_u w @ r"
  using fmt_u_Cons [of w] digit_not_space by auto

lemma is_space_blank [simp]: "is_space CHR '' ''"
  by (simp add: is_space_def)

lemma is_digit_blank [simp]: "\<not> is_digit CHR '' ''"
  by (simp add: is_digit_def)

lemma sscanf_Ws_Fu:
  assumes "r = [] \<or> \<not> is_digit (hd r)"
  shows "sscanf (Ws # Fu # f) ('' '' @ fmt_u w @ r) = VU w # sscanf f r"
  using assms by (simp add: fmt_u_space)

lemma res_text_chars: "\<forall>c \<in> set (res_text t). \<not> is_space c"
  by (simp add: res_text_def is_space_def)

lemma scan_s_word:
  assumes "w \<noteq> []" "\<forall>c \<in> set w. \<not> is_space c" "n = None \<or> (\<exists>k. n = Some k \<and> length w \<le> k)"
  shows "scan_s n (w @ CHR '' '' # r) = Some (w, CHR '' '' # r)"
proof -
  have "takeWhile (\<lambda>c. \<not> is_space c) (w @ CHR '' '' # r) = w"
    using takeWhile_all_stop [of w "\<lambda>c. \<not> is_space c" "CHR '' '' # r"] assms(2) by simp
  moreover have "dropWhile is_space (w @ CHR '' '' # r) = w @ CHR '' '' # r"
    using assms(1,2) by (cases w) auto
  ultimately show ?thesis using assms(1,3) by (auto simp: scan_s_def Let_def)
qed

lemma petition_parse:
  assumes "n = None \<or> (\<exists>k. n = Some k \<and> 3 \<le> k)"
  shows "sscanf [Ws, Fu, Ws, Fs n, Ws, Fu] ('' '' @ fmt_u jid @ '' '' @ res_text t @ '' '' @ fmt_u q) =
    [VU jid, VS (res_text t), VU q]"
proof -
  have "res_text t \<noteq> []" by (simp add: res_text_def)
  moreover have "dropWhile is_space (res_text t @ r) = res_text t @ r" for r
    by (simp add: res_text_def is_space_def)
  ultimately have "sscanf [Ws, Fs n, Ws, Fu] ('' '' @ res_text t @ '' '' @ fmt_u q) = [VS (res_text t), VU q]"
    using scan_s_word [of "res_text t" n "fmt_u q"] res_text_chars [of t] assms scan_u_fmt_u [of "[]" q]
      fmt_u_space [of q "[]"]
    by (auto simp del: scan_u_fmt_u)
  then show ?thesis
    using sscanf_Ws_Fu [of "'' '' @ res_text t @ '' '' @ fmt_u q" "[Ws, Fs n, Ws, Fu]" jid] by simp
qed

lemma reserve_type_text: "t \<noteq> INVALID_RES_TYPE \<Longrightarrow> reserve_type (res_text t) = t"
  by (cases t) (simp_all add: reserve_type_def res_text_def)

lemma strncmp_prefix [simp]: "strncmp_eq (length w) (w @ r) w"
  by (simp add: strncmp_eq_def)

end
