(* ===== verification/Adapter_Safety.thy ===== *)
theory Adapter_Safety
  imports Resource_Adapter
begin

text \<open>
  Safety of the protocol: every handler of \<^verbatim>\<open>resource_adapter.c\<close> returns, keeps the invariant of the
  node and fills the outbox within its bounds. \<open>adapter_run\<close> is a history of events; its lemma gives
  the property of the whole agent.
\<close>

section \<open>The outbox\<close>

definition outbox_ok :: "outbox_t \<Rightarrow> bool" where
  "outbox_ok outbox \<longleftrightarrow> length outbox \<le> MAX_OUTBOX \<and>
     list_all (\<lambda>m. length (message m) < BUFFER_SIZE \<and> length (target_ip m) \<le> 15) outbox"

lemma outbox_ok_Nil [simp]: "outbox_ok []"
  by (simp add: outbox_ok_def)

lemma add_to_outbox_ok [simp]: "outbox_ok outbox \<Longrightarrow> outbox_ok (add_to_outbox outbox msg fd ip port)"
  by (auto simp: outbox_ok_def add_to_outbox_def snprintf_def strncpy_def BUFFER_SIZE_def split: option.split)

lemma send_releases_ok [simp]: "outbox_ok outbox \<Longrightarrow> outbox_ok (send_releases jid ps outbox)"
  unfolding send_releases_def by (induction ps arbitrary: outbox) simp_all

section \<open>Jobs under the handlers\<close>

text \<open>
  What the handlers do to the table of jobs and the outbox: they return, and keep the invariants.
\<close>

definition jobs_safe :: "(elem_owned_job_t \<Rightarrow> bool) \<Rightarrow> nat \<Rightarrow> (owned_jobs_t \<times> outbox_t) result \<Rightarrow> bool" where
  "jobs_safe ok k res \<longleftrightarrow> (\<exists>jobs outbox. res = Some (jobs, outbox) \<and> oj_inv_for ok jobs \<and> th_room k jobs \<and> outbox_ok outbox)"

lemma jobs_safe_bind:
  assumes "jobs_safe ok k m"
    and "\<And>jobs outbox. oj_inv_for ok jobs \<Longrightarrow> th_room k jobs \<Longrightarrow> outbox_ok outbox \<Longrightarrow> jobs_safe ok j (f (jobs, outbox))"
  shows "jobs_safe ok j (m \<bind> f)"
  using assms by (auto simp: jobs_safe_def)

lemma releases_except_ok:
  "\<forall>p \<in> set ps. jp_ip p \<noteq> None \<Longrightarrow> outbox_ok outbox \<Longrightarrow>
     \<exists>outbox'. releases_except ip port jid ps outbox = Some outbox' \<and> outbox_ok outbox'"
  by (induction ps arbitrary: outbox) auto

definition node_safe :: "(elem_owned_job_t \<Rightarrow> bool) \<Rightarrow> nat \<Rightarrow> (resource_t \<Rightarrow> u32) \<Rightarrow> (node_data_t \<times> outbox_t) result \<Rightarrow> bool" where
  "node_safe ok k tot res \<longleftrightarrow> (\<exists>node outbox. res = Some (node, outbox) \<and> node_inv_for ok node \<and> node_room k node \<and>
     total (resources node) = tot \<and> outbox_ok outbox)"

text \<open>All allocations of an event succeed.\<close>

definition env_ok :: "env \<Rightarrow> bool" where
  "env_ok env \<longleftrightarrow> (\<forall>i. env_mem env i)"

lemma node_safeI:
  "node_inv_for ok node \<Longrightarrow> node_room k node \<Longrightarrow> total (resources node) = tot \<Longrightarrow> outbox_ok outbox \<Longrightarrow>
     node_safe ok k tot (Some (node, outbox))"
  by (simp add: node_safe_def)

definition reserve_fits :: "string \<Rightarrow> bool" where
  "reserve_fits buffer \<longleftrightarrow>
     (case sscanf (lits ''RESERVE'' @ [Ws, Fu, Ws, Fs None, Ws, Fu]) buffer of
        VU job_id # VS res # rest \<Rightarrow> length res < 256
      | _ \<Rightarrow> True)"

lemma release_bucle_safe:
  "lr_inv R J \<Longrightarrow> th_room (k + lr_waiting R) J \<Longrightarrow> (\<And>i. env_mem env i) \<Longrightarrow> outbox_ok outbox \<Longrightarrow>
     \<exists>R' J' outbox'. release_bucle env n R J msg s outbox = Some (R', J', outbox') \<and> lr_inv R' J' \<and>
       total R' = total R \<and> th_room (k + lr_waiting R') J' \<and> outbox_ok outbox'"
proof (induction env n R J msg s outbox rule: release_bucle.induct)
  case (1 env n R J msg s outbox)
  obtain out msg' s' R1 J1 where c: "chk_job_request (env_rnd env n) (\<lambda>i. env_mem env (3 + 3 * n + i)) R J msg 64 (Some s) =
      Some (out, msg', Some s', R1, J1)" "lr_inv R1 J1" "total R1 = total R" "th_room (k + lr_waiting R1) J1"
    using chk_job_request_room [OF 1(2,3), where mem = "\<lambda>i. env_mem env (3 + 3 * n + i)" and
        rnd = "env_rnd env n" and OUT = msg and n = 64 and s = s] 1(4) by blast
  show ?case
  proof (cases "out = - 1")
    case True
    with c 1 show ?thesis by (simp add: release_bucle.simps [of env n R J])
  next
    case False
    with 1(1) [OF c(1)] c 1(4,5) show ?thesis
      by (simp add: release_bucle.simps [of env n R J])
  qed
qed

lemma kn_report_ip: "(\<And>i. dup i) \<Longrightarrow> e \<in> set (kn_report dup ns) \<Longrightarrow> fst e \<noteq> None"
  by (auto simp: kn_report_def)

text \<open>An event: what the dispatcher is called with, and the connections at that time.\<close>

record event =
  ev_env :: env
  ev_conns :: connections
  ev_sender :: "string option"
  ev_socket :: u32
  ev_buffer :: "string option"
  ev_action :: JuaniAction

text \<open>
  Events without undefined behaviour: the allocations succeed, a message or disconnection has a
  sender, and the second word of a RESERVE fits its buffer.
\<close>

definition event_ok :: "event \<Rightarrow> bool" where
  "event_ok e \<longleftrightarrow> env_ok (ev_env e) \<and>
     (ev_action e \<in> {ACTION_RESPOND, ACTION_NEW_NODE_DISCOVERED, ACTION_DISCONNECTED} \<longrightarrow> ev_sender e \<noteq> None) \<and>
     (ev_action e = ACTION_RESPOND \<longrightarrow> pred_option reserve_fits (ev_buffer e))"

definition adapter_step :: "int \<Rightarrow> event \<Rightarrow> node_data_t option \<Rightarrow> (node_data_t option \<times> outbox_t \<times> int list) result" where
  "adapter_step ctx_port e mynode = resource_adapter_patch (ev_env e) (ev_conns e) ctx_port mynode (ev_sender e)
     (ev_socket e) (ev_buffer e) [] (ev_action e)"

section \<open>Every handler keeps the node's invariant\<close>

text \<open>For every invariant of the jobs that satisfies the contract.\<close>

context job_contract
begin

lemma granted_total:
  assumes "oj_inv_for ok jobs"
  shows "\<exists>ps. get_granted_resources jobs jid n = Some ps \<and> (\<forall>p \<in> set ps. jp_ip p \<noteq> None)"
proof (cases "oj_job jobs jid")
  case None
  then show ?thesis by (simp add: get_granted_resources_def oj_buscar [OF oj_invD(1) [OF assms]])
next
  case (Some job)
  note B = oj_boundedD [OF ok_bounds [OF oj_invD(2) [OF assms Some]]]
  from B(2,3) show ?thesis
    by (auto simp: get_granted_resources_def oj_buscar [OF oj_invD(1) [OF assms]] Some granted_bucle_eq dest!: in_set_takeD)
qed

lemma owner_total: "oj_inv_for ok jobs \<Longrightarrow> \<exists>s. get_job_owner_socket jobs jid = Some s"
  by (auto simp: get_job_owner_socket_def oj_buscar oj_invD(1) split: option.split)

lemma remove_job_inv:
  assumes "oj_inv_for ok jobs"
  shows "\<exists>jobs'. remove_owned_job jobs jid = Some jobs' \<and> oj_inv_for ok jobs' \<and>
    oj_job jobs' = (oj_job jobs)(jid := None) \<and> (th_room k jobs \<longrightarrow> th_room k jobs')"
proof -
  obtain jobs' where r: "remove_owned_job jobs jid = Some jobs'" "oj_tab jobs'"
    "oj_job jobs' = (oj_job jobs)(jid := None)" "th_room k jobs \<longrightarrow> th_room k jobs'"
    using remove_job_spec [OF oj_invD(1) [OF assms]] by blast
  have "oj_inv_for ok jobs'" using r(3) oj_invD(2) [OF assms] by (intro oj_invI r(2)) (auto split: if_splits)
  with r show ?thesis by blast
qed

lemma abort_job_safe:
  assumes "oj_inv_for ok jobs" "th_room k jobs" "outbox_ok outbox"
  shows "jobs_safe ok k (abort_job word jid jobs outbox)"
  using assms granted_total [OF assms(1), of jid MAX_JOB_RESOURCES] owner_total [OF assms(1), of jid]
    remove_job_inv [OF assms(1), of jid k]
  by (auto simp: jobs_safe_def abort_job_def)

lemma abort_bucle_safe:
  "oj_inv_for ok jobs \<Longrightarrow> th_room k jobs \<Longrightarrow> outbox_ok outbox \<Longrightarrow> jobs_safe ok k (abort_bucle word ids jobs outbox)"
proof (induction ids arbitrary: jobs outbox)
  case (Cons jid ids)
  from jobs_safe_bind [OF abort_job_safe [OF Cons.prems]] Cons.IH show ?case by simp
qed (simp add: jobs_safe_def)

lemma timeout_bucle_safe:
  "oj_inv_for ok jobs \<Longrightarrow> th_room k jobs \<Longrightarrow> outbox_ok outbox \<Longrightarrow> jobs_safe ok k (timeout_bucle ids jobs outbox)"
proof (induction ids arbitrary: jobs outbox)
  case (Cons jid ids)
  obtain ps where ps: "get_granted_resources jobs jid MAX_JOB_RESOURCES = Some ps"
    using granted_total [OF Cons.prems(1)] by blast
  have "jobs_safe ok k (abort_job ''JOB_TIMEOUT'' jid jobs outbox \<bind> (\<lambda>(jobs', outbox'). timeout_bucle ids jobs' outbox'))"
    using jobs_safe_bind [OF abort_job_safe [OF Cons.prems]] Cons.IH by simp
  with ps Cons.prems show ?case by (simp add: jobs_safe_def)
qed (simp add: jobs_safe_def)

lemma orphans_bucle_safe:
  "oj_inv_for ok jobs \<Longrightarrow> th_room k jobs \<Longrightarrow> outbox_ok outbox \<Longrightarrow> jobs_safe ok k (orphans_bucle ids jobs outbox)"
proof (induction ids arbitrary: jobs outbox)
  case (Cons jid ids)
  obtain ps where "get_granted_resources jobs jid MAX_JOB_RESOURCES = Some ps"
    using granted_total [OF Cons.prems(1)] by blast
  moreover obtain jobs' where "remove_owned_job jobs jid = Some jobs'" "oj_inv_for ok jobs'" "th_room k jobs'"
    using remove_job_inv [OF Cons.prems(1)] Cons.prems(2) by blast
  ultimately show ?case using Cons.IH [of jobs'] Cons.prems(3) by simp
qed (simp add: jobs_safe_def)

lemma affected_bucle_safe:
  "oj_inv_for ok jobs \<Longrightarrow> th_room k jobs \<Longrightarrow> outbox_ok outbox \<Longrightarrow> jobs_safe ok k (affected_bucle ip port ids jobs outbox)"
proof (induction ids arbitrary: jobs outbox)
  case (Cons jid ids)
  obtain ps where ps: "get_granted_resources jobs jid MAX_JOB_RESOURCES = Some ps" "\<forall>p \<in> set ps. jp_ip p \<noteq> None"
    using granted_total [OF Cons.prems(1)] by blast
  moreover obtain s where "get_job_owner_socket jobs jid = Some s" using owner_total [OF Cons.prems(1)] by blast
  moreover obtain jobs' where "remove_owned_job jobs jid = Some jobs'" "oj_inv_for ok jobs'" "th_room k jobs'"
    using remove_job_inv [OF Cons.prems(1)] Cons.prems(2) by blast
  moreover obtain ob where "releases_except ip port jid ps outbox = Some ob" "outbox_ok ob"
    using releases_except_ok [OF ps(2) Cons.prems(3)] by blast
  ultimately show ?case using Cons.IH [of jobs'] by simp
qed (simp add: jobs_safe_def)

text \<open>An idle job can go on.\<close>

lemma send_next_reserve_safe:
  assumes inv: "oj_inv_for ok jobs" and room: "th_room k jobs" and ob: "outbox_ok outbox"
    and idle: "\<And>job. oj_job jobs jid = Some job \<Longrightarrow> idle job"
  shows "jobs_safe ok k (send_next_reserve jobs jid outbox)"
proof (cases "\<exists>job. oj_job jobs jid = Some job \<and> oj_next_reserve_idx job < petition_count job")
  case False
  then have "get_next_reserve jobs jid = Some (None, jobs)"
    by (intro next_none [OF oj_invD(1) [OF inv]]) (cases "oj_job jobs jid", auto simp: not_less)
  with inv room ob show ?thesis by (simp add: send_next_reserve_def jobs_safe_def)
next
  case True
  then obtain job where job: "oj_job jobs jid = Some job" and less: "oj_next_reserve_idx job < petition_count job"
    by blast
  note good = oj_invD(2) [OF inv job]
  from next_some_bounded [OF oj_invD(1) [OF inv] job oj_boundedD(1) [OF ok_bounds [OF good]] less] obtain p jobs' where
    n: "get_next_reserve jobs jid = Some (Some p, jobs')" "oj_tab jobs'"
      "oj_job jobs' = (oj_job jobs)(jid \<mapsto> oj_advance job)" "numElems jobs' = numElems jobs"
      "capacidad jobs' = capacidad jobs" by blast
  have "oj_inv_for ok jobs'"
    using n(3) oj_invD(2) [OF inv] ok_advance [OF good idle [OF job] less]
    by (intro oj_invI n(2)) (auto split: if_splits)
  moreover have "th_room k jobs'" using room n(4,5) by (simp add: th_room_def)
  ultimately show ?thesis using n(1) ob by (simp add: send_next_reserve_def jobs_safe_def)
qed

text \<open>Adding the petitions of a request keeps the new job at its start.\<close>

lemma peticiones_bucle_inv:
  assumes "oj_inv_for ok jobs" "th_room k jobs" "\<And>i. mem i"
    and "\<And>job. oj_job jobs jid = Some job \<Longrightarrow> oj_next_reserve_idx job = 0"
  shows "\<exists>jobs'. peticiones_bucle mem i jid tokens jobs = Some jobs' \<and> oj_inv_for ok jobs' \<and> th_room k jobs' \<and>
    (\<forall>job. oj_job jobs' jid = Some job \<longrightarrow> oj_next_reserve_idx job = 0)"
  using assms
proof (induction tokens arbitrary: i jobs)
  case (Cons token tokens)
  show ?case
  proof (cases "\<exists>ip port res cant. sscanf petition_fmt token = [VS ip, VU port, VS res, VU cant]")
    case False
    then have eq: "peticiones_bucle mem i jid (token # tokens) jobs = peticiones_bucle mem (Suc i) jid tokens jobs"
      by (auto split: list.split fval.split)
    show ?thesis unfolding eq by (rule Cons.IH) (use Cons.prems in auto)
  next
    case True
    then obtain ip port res cant where tok: "sscanf petition_fmt token = [VS ip, VU port, VS res, VU cant]" by blast
    note tab = oj_invD(1) [OF Cons.prems(1)]
    have "\<exists>r jobs1. append_petition_to_job (mem i) jobs jid ip port (petition_type res) cant = Some (r, jobs1) \<and>
        oj_inv_for ok jobs1 \<and> th_room k jobs1 \<and> (\<forall>job. oj_job jobs1 jid = Some job \<longrightarrow> oj_next_reserve_idx job = 0)"
    proof (cases "\<exists>job. oj_job jobs jid = Some job \<and> petition_count job < MAX_JOB_RESOURCES")
      case False
      then have "append_petition_to_job (mem i) jobs jid ip port (petition_type res) cant = Some (0, jobs)"
        by (intro append_petition_full [OF tab]) (cases "oj_job jobs jid", auto simp: not_less)
      with Cons.prems show ?thesis by blast
    next
      case True
      then obtain job where job: "oj_job jobs jid = Some job" "petition_count job < MAX_JOB_RESOURCES" by blast
      let ?p = "\<lparr>jp_ip = Some ip, jp_port = port, jp_type = petition_type res, jp_quantity = cant, jp_is_granted = 0\<rparr>"
      obtain jobs1 where a: "append_petition_to_job (mem i) jobs jid ip port (petition_type res) cant = Some (1, jobs1)"
        "oj_tab jobs1" "oj_job jobs1 = (oj_job jobs)(jid \<mapsto> job\<lparr>oj_petitions := oj_petitions job @ [?p]\<rparr>)"
        "numElems jobs1 = numElems jobs" "capacidad jobs1 = capacidad jobs"
        using append_petition_spec [OF tab job, of "mem i" ip port "petition_type res" cant] Cons.prems(3) [of i] by auto
      have "ok (job\<lparr>oj_petitions := oj_petitions job @ [?p]\<rparr>)"
        using ok_append [OF oj_invD(2) [OF Cons.prems(1) job(1)] Cons.prems(4) [OF job(1)] job(2), of ?p] by simp
      then have "oj_inv_for ok jobs1"
        using a(3) oj_invD(2) [OF Cons.prems(1)] by (intro oj_invI a(2)) (auto split: if_splits)
      moreover have "th_room k jobs1" using Cons.prems(2) a(4,5) by (simp add: th_room_def)
      ultimately show ?thesis using a Cons.prems(4) [OF job(1)] by auto
    qed
    then obtain r jobs1 where A: "append_petition_to_job (mem i) jobs jid ip port (petition_type res) cant = Some (r, jobs1)"
      "oj_inv_for ok jobs1" "th_room k jobs1" "\<And>job. oj_job jobs1 jid = Some job \<Longrightarrow> oj_next_reserve_idx job = 0" by blast
    have eq: "peticiones_bucle mem i jid (token # tokens) jobs = peticiones_bucle mem (Suc i) jid tokens jobs1"
      using A(1) tok by simp
    show ?thesis unfolding eq by (rule Cons.IH) (use A Cons.prems in auto)
  qed
qed simp

text \<open>A handler that only changes the jobs, or only the inventory.\<close>

lemma node_safe_jobs:
  assumes "node_inv_for ok node" "node_room k node" "jobs_safe ok j res" "j \<le> k"
  shows "node_safe ok j (total (resources node)) (res \<bind> (\<lambda>(jobs', outbox'). Some (node\<lparr>owned_jobs := jobs'\<rparr>, outbox')))"
  using assms node_room_mono [OF assms(2,4)]
  by (auto simp: jobs_safe_def node_safe_def node_inv_for_def node_room_def)

lemma node_safe_inventory:
  assumes "node_inv_for ok node" "node_room k node" "lr_inv R J" "th_room (j + lr_waiting R) J" "j \<le> k"
    and "total R = total (resources node)" "outbox_ok outbox"
  shows "node_safe ok j (total (resources node)) (Some (node\<lparr>resources := R, active_jobs := J\<rparr>, outbox))"
  using assms node_room_mono [OF assms(2,5)] by (simp add: node_safe_def node_inv_for_def node_room_def)

lemma get_nodes_safe:
  "node_inv_for ok node \<Longrightarrow> node_room k node \<Longrightarrow> outbox_ok outbox \<Longrightarrow>
     node_safe ok k (total (resources node)) (Some (handle_get_nodes_response node socket outbox))"
  by (simp add: node_safe_def handle_get_nodes_response_def Let_def)

text \<open>Registering a job with its petitions, up to the first RESERVE.\<close>

lemma register_job_safe:
  assumes oj: "oj_inv_for ok jobs" and room: "th_room (Suc k) jobs" and mem: "\<And>i. mem i"
  shows "\<exists>jobs1 jobs2. add_new_owned_job True now jobs jid socket = Some (1, jobs1) \<and>
    peticiones_bucle mem 0 jid tokens jobs1 = Some jobs2 \<and> oj_inv_for ok jobs2 \<and> th_room k jobs2 \<and>
    (\<forall>job. oj_job jobs2 jid = Some job \<longrightarrow> oj_next_reserve_idx job = 0)"
proof -
  obtain jobs1 where a: "add_new_owned_job True now jobs jid socket = Some (1, jobs1)" "oj_tab jobs1" "th_room k jobs1"
    "oj_job jobs1 = (oj_job jobs)(jid \<mapsto> (oj_dummy jid)\<lparr>oj_owner_socket := socket, oj_created_at := now\<rparr>)"
    using add_new_job_spec [OF oj_invD(1) [OF oj] room] by blast
  have inv1: "oj_inv_for ok jobs1"
    using a(4) oj_invD(2) [OF oj] ok_new by (intro oj_invI a(2)) (auto split: if_splits)
  have start: "oj_next_reserve_idx job = 0" if "oj_job jobs1 jid = Some job" for job
    using that a(4) by (auto simp: oj_dummy_def)
  from peticiones_bucle_inv [OF inv1 a(3), of mem jid 0 tokens] start mem a(1) show ?thesis by blast
qed

lemma job_request_safe:
  assumes inv: "node_inv_for ok node" and room: "node_room (Suc k) node" and ob: "outbox_ok outbox" and env: "env_ok env"
  shows "node_safe ok k (total (resources node)) (handle_job_request env node socket buffer outbox)"
proof (cases "\<exists>jid. sscanf (lits ''JOB_REQUEST'' @ [Ws, Fu]) buffer = [VU jid]")
  case False
  then have "handle_job_request env node socket buffer outbox = Some (node, outbox)"
    by (auto simp: handle_job_request_def split: list.split fval.split)
  with inv ob node_room_mono [OF room, of k] show ?thesis by (simp add: node_safe_def)
next
  case True
  then obtain jid where jid: "sscanf (lits ''JOB_REQUEST'' @ [Ws, Fu]) buffer = [VU jid]" by blast
  have mem: "env_mem env i" for i using env by (simp add: env_ok_def)
  have room': "th_room (Suc k) (owned_jobs node)" using room by (simp add: node_room_def)
  obtain jobs1 jobs2 where b: "add_new_owned_job True (env_now env) (owned_jobs node) jid socket = Some (1, jobs1)"
    "peticiones_bucle (\<lambda>i. env_mem env (2 + i)) 0 jid (drop 2 (strtok CHR '' '' buffer)) jobs1 = Some jobs2"
    "oj_inv_for ok jobs2" "th_room k jobs2" "\<And>job. oj_job jobs2 jid = Some job \<Longrightarrow> oj_next_reserve_idx job = 0"
    using register_job_safe [OF node_invD(2) [OF inv] room', of "\<lambda>i. env_mem env (2 + i)"] mem by blast
  have "jobs_safe ok k (send_next_reserve jobs2 jid outbox)"
    using b(5) idle_start by (intro send_next_reserve_safe b(3,4) ob) blast
  from node_safe_jobs [OF inv room this] b(1,2) show ?thesis
    by (simp add: handle_job_request_def jid mem)
qed

lemma job_release_safe:
  assumes inv: "node_inv_for ok node" and room: "node_room k node" and ob: "outbox_ok outbox"
  shows "node_safe ok k (total (resources node)) (handle_job_release node buffer outbox)"
proof (cases "\<exists>jid. sscanf (lits ''JOB_RELEASE'' @ [Ws, Fu]) buffer = [VU jid]")
  case False
  then have "handle_job_release node buffer outbox = Some (node, outbox)"
    by (auto simp: handle_job_release_def split: list.split fval.split)
  with inv ob room show ?thesis by (simp add: node_safe_def)
next
  case True
  then obtain jid where jid: "sscanf (lits ''JOB_RELEASE'' @ [Ws, Fu]) buffer = [VU jid]" by blast
  have room': "th_room k (owned_jobs node)" using room by (simp add: node_room_def)
  have "jobs_safe ok k (orphans_bucle [jid] (owned_jobs node) outbox)"
    by (rule orphans_bucle_safe [OF node_invD(2) [OF inv] room' ob])
  from node_safe_jobs [OF inv room this] show ?thesis
    by (simp add: handle_job_release_def jid)
qed

lemma reserve_safe:
  assumes inv: "node_inv_for ok node" and room: "node_room (Suc k) node" and ob: "outbox_ok outbox" and env: "env_ok env"
    and fits: "reserve_fits buffer"
  shows "node_safe ok k (total (resources node)) (handle_reserve env node socket buffer outbox)"
proof (cases "\<exists>jid res cant. sscanf (lits ''RESERVE'' @ [Ws, Fu, Ws, Fs None, Ws, Fu]) buffer = [VU jid, VS res, VU cant] \<and>
    reserve_type res \<noteq> INVALID_RES_TYPE \<and> length res = 3")
  case False
  have "\<exists>outbox'. handle_reserve env node socket buffer outbox = Some (node, outbox') \<and> outbox_ok outbox'"
    using False fits ob
    by (auto simp: handle_reserve_def reserve_fits_def Let_def split: list.splits fval.splits if_splits)
  with inv node_room_mono [OF room, of k] show ?thesis by (auto simp: node_safe_def)
next
  case True
  then obtain jid res cant where s: "sscanf (lits ''RESERVE'' @ [Ws, Fu, Ws, Fs None, Ws, Fu]) buffer = [VU jid, VS res, VU cant]"
    "reserve_type res \<noteq> INVALID_RES_TYPE" "length res = 3" by blast
  have mem: "env_mem env 0" using env by (simp add: env_ok_def)
  have r: "th_room (Suc k + lr_waiting (resources node)) (active_jobs node)" using room by (simp add: node_room_def)
  obtain c R J where new: "new_job_request True (resources node) (active_jobs node) jid socket cant (reserve_type res) = Some (c, R, J)"
    "lr_inv R J" "total R = total (resources node)" "th_room (k + lr_waiting R) J"
    using new_job_request_room [OF node_invD(1) [OF inv] r s(2)] by blast
  from node_safe_inventory [OF inv room new(2,4) _ new(3)] ob new(1) s mem show ?thesis
    by (simp add: handle_reserve_def Let_def)
qed

lemma granted_safe:
  assumes inv: "node_inv_for ok node" and room: "node_room k node" and ob: "outbox_ok outbox"
  shows "node_safe ok k (total (resources node)) (handle_granted node (Some ip) port buffer outbox)"
proof (cases "\<exists>jid. sscanf (lits ''GRANTED'' @ [Ws, Fu]) buffer = [VU jid] \<and> port \<noteq> 0")
  case False
  then have "handle_granted node (Some ip) port buffer outbox = Some (node, outbox)"
    by (auto simp: handle_granted_def split: list.split fval.split)
  with inv ob room show ?thesis by (simp add: node_safe_def)
next
  case True
  then obtain jid where jid: "sscanf (lits ''GRANTED'' @ [Ws, Fu]) buffer = [VU jid]" "port \<noteq> 0" by blast
  note oj = node_invD(2) [OF inv]
  have room': "th_room k (owned_jobs node)" using room by (simp add: node_room_def)
  consider (ignored) "mark_petition_as_granted (owned_jobs node) jid (Some ip) port = Some (- 1, owned_jobs node)"
    | (counts) job c jobs1 where "oj_job (owned_jobs node) jid = Some job"
      "mark_petition_as_granted (owned_jobs node) jid (Some ip) port = Some (c, jobs1)" "c \<in> {0, 1}" "oj_tab jobs1"
      "oj_job jobs1 = (oj_job (owned_jobs node))(jid \<mapsto> oj_mark job)" "ok (oj_mark job)" "idle (oj_mark job)"
      "numElems jobs1 = numElems (owned_jobs node)" "capacidad jobs1 = capacidad (owned_jobs node)"
  proof (cases "oj_job (owned_jobs node) jid")
    case None
    with mark_unknown [OF oj_invD(1) [OF oj], of jid] ignored show ?thesis by simp
  next
    case (Some job)
    note good = oj_invD(2) [OF oj Some]
    from mark_bounded [OF oj_invD(1) [OF oj] Some ok_bounds [OF good], of ip port] show ?thesis
      using ignored counts [OF Some] ok_mark [OF good] by blast
  qed
  then show ?thesis
  proof cases
    case ignored
    with jid inv ob room show ?thesis by (simp add: handle_granted_def node_safe_def)
  next
    case counts
    have inv1: "oj_inv_for ok jobs1" using counts(5,6) oj_invD(2) [OF oj] by (intro oj_invI counts(4)) (auto split: if_splits)
    have room1: "th_room k jobs1" using room' counts(8,9) by (simp add: th_room_def)
    have "jobs_safe ok k (send_next_reserve jobs1 jid outbox)"
      using counts(5,7) by (intro send_next_reserve_safe inv1 room1 ob) auto
    moreover obtain s where "get_job_owner_socket jobs1 jid = Some s" using owner_total [OF inv1] by blast
    moreover have "jobs_safe ok k (Some (jobs1, add_to_outbox outbox (job_msg ''JOB_GRANTED'' jid) (int_of_u32 s) None 0))" for s
      using inv1 room1 ob by (simp add: jobs_safe_def)
    ultimately show ?thesis
      using node_safe_jobs [OF inv room] jid counts(2,3) by (fastforce simp: handle_granted_def)
  qed
qed

lemma denied_safe:
  assumes inv: "node_inv_for ok node" and room: "node_room k node" and ob: "outbox_ok outbox"
  shows "node_safe ok k (total (resources node)) (handle_denied node buffer outbox)"
proof (cases "\<exists>jid. sscanf (lits ''DENIED'' @ [Ws, Fu]) buffer = [VU jid]")
  case False
  then have "handle_denied node buffer outbox = Some (node, outbox)"
    by (auto simp: handle_denied_def split: list.split fval.split)
  with inv ob room show ?thesis by (simp add: node_safe_def)
next
  case True
  then obtain jid where jid: "sscanf (lits ''DENIED'' @ [Ws, Fu]) buffer = [VU jid]" by blast
  have room': "th_room k (owned_jobs node)" using room by (simp add: node_room_def)
  from node_safe_jobs [OF inv room abort_job_safe [OF node_invD(2) [OF inv] room' ob]] show ?thesis
    by (simp add: handle_denied_def jid)
qed

lemma release_safe:
  assumes inv: "node_inv_for ok node" and room: "node_room k node" and ob: "outbox_ok outbox" and env: "env_ok env"
  shows "node_safe ok k (total (resources node)) (handle_release env node socket buffer outbox)"
proof (cases "\<exists>jid res cant. sscanf (lits ''RELEASE'' @ [Ws, Fu, Ws, Fs (Some 9), Ws, Fu]) buffer = [VU jid, VS res, VU cant]")
  case False
  then have "handle_release env node socket buffer outbox = Some (node, outbox)"
    by (auto simp: handle_release_def split: list.split fval.split)
  with inv ob room show ?thesis by (simp add: node_safe_def)
next
  case True
  then obtain jid res cant where s: "sscanf (lits ''RELEASE'' @ [Ws, Fu, Ws, Fs (Some 9), Ws, Fu]) buffer = [VU jid, VS res, VU cant]"
    by blast
  have mem: "env_mem env i" for i using env by (simp add: env_ok_def)
  have r: "th_room (k + lr_waiting (resources node)) (active_jobs node)" using room by (simp add: node_room_def)
  obtain R1 J1 where d: "del_active_job (\<lambda>t. env_mem env (res_index t)) (resources node) (active_jobs node) jid socket = Some (R1, J1)"
    "lr_inv R1 J1" "total R1 = total (resources node)" "th_room (k + lr_waiting R1) J1"
    using del_active_job_room [OF node_invD(1) [OF inv] r] by blast
  obtain R2 J2 ob' where c: "release_bucle env 0 R1 J1 [] 0 outbox = Some (R2, J2, ob')" "lr_inv R2 J2"
    "total R2 = total R1" "th_room (k + lr_waiting R2) J2" "outbox_ok ob'"
    using release_bucle_safe [OF d(2,4) mem ob] by blast
  from node_safe_inventory [OF inv room c(2,4) _ _ c(5)] c(3) d(3) show ?thesis
    by (simp add: handle_release_def s d(1) c(1))
qed

lemma affected_total:
  assumes "oj_inv_for ok jobs"
  shows "\<exists>ids. get_jobs_affected_by_dead_node jobs (Some ip) port n = Some ids"
proof -
  have ips: "jp_ip p \<noteq> None" if "job \<in> th_set jobs" "p \<in> set (oj_petitions job)" for job p
    using assms that oj_boundedD(2) [OF ok_bounds, of job p] by (auto simp: oj_inv_for_def)
  show ?thesis using ips by (simp add: affected_jobs_eq [OF oj_invD(1) [OF assms]])
qed

lemma dead_nodes_bucle_safe:
  assumes "node_inv_for ok node" "node_room k node" "outbox_ok outbox" "\<forall>e \<in> set dead. fst e \<noteq> None"
  shows "\<exists>node' outbox' closed'. dead_nodes_bucle env conns i dead (node, outbox, closed) = Some (node', outbox', closed') \<and>
    node_safe ok k (total (resources node)) (Some (node', outbox'))"
  using assms
proof (induction dead arbitrary: i node outbox closed)
  case (Cons e dead)
  obtain ip port where e: "e = (Some ip, port)" using Cons.prems(4) by (cases e) auto
  obtain fd where fd: "find_fd_by_ip_port conns (Some ip) port = Some fd"
    using find_bucle_spec [of 0 conns ip port] by (auto simp: find_fd_by_ip_port_def)
  have "\<exists>node1 closed1. (if fd \<noteq> - 1 then
        do {
          (r, j) \<leftarrow> free_all_resources_from_socket (env_mem env (11 + i)) (resources node) (active_jobs node) (u32_of_int fd);
          Some (node\<lparr>resources := r, active_jobs := j\<rparr>, closed @ [fd])
        }
      else Some (node, closed)) = Some (node1, closed1) \<and> node_inv_for ok node1 \<and> node_room k node1 \<and>
      total (resources node1) = total (resources node)"
  proof (cases "fd = - 1")
    case True
    with Cons.prems show ?thesis by simp
  next
    case False
    have r: "th_room (k + lr_waiting (resources node)) (active_jobs node)" using Cons.prems(2) by (simp add: node_room_def)
    obtain R J where "free_all_resources_from_socket (env_mem env (11 + i)) (resources node) (active_jobs node) (u32_of_int fd) = Some (R, J)"
      "lr_inv R J" "total R = total (resources node)" "th_room (k + lr_waiting R) J"
      using free_all_room [OF node_invD(1) [OF Cons.prems(1)] r] by blast
    with False Cons.prems(1,2) show ?thesis by (simp add: node_inv_for_def node_room_def)
  qed
  then obtain node1 closed1 where F: "(if fd \<noteq> - 1 then
        do {
          (r, j) \<leftarrow> free_all_resources_from_socket (env_mem env (11 + i)) (resources node) (active_jobs node) (u32_of_int fd);
          Some (node\<lparr>resources := r, active_jobs := j\<rparr>, closed @ [fd])
        }
      else Some (node, closed)) = Some (node1, closed1)" "node_inv_for ok node1" "node_room k node1"
      "total (resources node1) = total (resources node)" by blast
  obtain ids where ids: "get_jobs_affected_by_dead_node (owned_jobs node1) (Some ip) port 20 = Some ids"
    using affected_total [OF node_invD(2) [OF F(2)]] by blast
  have "th_room k (owned_jobs node1)" using F(3) by (simp add: node_room_def)
  from abort_bucle_safe [OF node_invD(2) [OF F(2)] this Cons.prems(3), of "''JOB_DENIED''" ids] obtain jobs' outbox' where
    A: "abort_bucle ''JOB_DENIED'' ids (owned_jobs node1) outbox = Some (jobs', outbox')" "oj_inv_for ok jobs'" "th_room k jobs'"
      "outbox_ok outbox'" by (auto simp: jobs_safe_def)
  let ?node = "node1\<lparr>owned_jobs := jobs'\<rparr>"
  have N: "node_inv_for ok ?node" "node_room k ?node" using F(2,3) A(2,3) by (simp_all add: node_inv_for_def node_room_def)
  have "dead_nodes_bucle env conns i (e # dead) (node, outbox, closed) =
      dead_nodes_bucle env conns (Suc i) dead (?node, outbox', closed1)"
    using F(1) by (simp add: e fd ids A(1))
  with Cons.IH [OF N A(4), of "Suc i" closed1] Cons.prems(4) F(4) show ?case by simp
qed (simp add: node_safe_def)

lemma deadnodes_safe:
  assumes inv: "node_inv_for ok node" and room: "node_room k node" and ob: "outbox_ok outbox" and env: "env_ok env"
  shows "\<exists>node' outbox' closed. handle_check_deadnodes env conns node outbox = Some (node', outbox', closed) \<and>
    node_safe ok k (total (resources node)) (Some (node', outbox'))"
proof -
  have mem: "env_mem env i" for i using env by (simp add: env_ok_def)
  have "numElems (known_nodes node) < 2 ^ 31" using room by (simp add: node_room_def th_room_def)
  from remove_inactive_spec [OF node_invD(3) [OF inv] this, where m = 10 and now = "env_now env" and
      dup = "\<lambda>i. env_mem env (1 + i)" and j = k]
  obtain dead known' where R: "remove_inactive_nodes True (\<lambda>i. env_mem env (1 + i)) (env_now env) (known_nodes node) 10 =
      Some (kn_report (\<lambda>i. env_mem env (1 + i)) dead, known')" "kn_tab known'"
      "th_room k (known_nodes node) \<longrightarrow> th_room k known'" by blast
  let ?node = "node\<lparr>known_nodes := known'\<rparr>"
  have N: "node_inv_for ok ?node" "node_room k ?node" using inv room R(2,3) by (simp_all add: node_inv_for_def node_room_def)
  have ips: "\<forall>e \<in> set (kn_report (\<lambda>i. env_mem env (1 + i)) dead). fst e \<noteq> None"
    using kn_report_ip [of "\<lambda>i. env_mem env (1 + i)"] mem by blast
  from dead_nodes_bucle_safe [OF N ob ips, of env conns 0 "[]"] obtain node1 outbox1 closed where
    D: "dead_nodes_bucle env conns 0 (kn_report (\<lambda>i. env_mem env (1 + i)) dead) (?node, outbox, []) = Some (node1, outbox1, closed)"
      "node_inv_for ok node1" "node_room k node1" "total (resources node1) = total (resources node)" "outbox_ok outbox1"
    by (auto simp: node_safe_def)
  have "th_room k (owned_jobs node1)" using D(3) by (simp add: node_room_def)
  from timeout_bucle_safe [OF node_invD(2) [OF D(2)] this D(5)]
  have T: "jobs_safe ok k (timeout_bucle (collect_timed_out_jobs (env_now env) (owned_jobs node1) 20) (owned_jobs node1) outbox1)"
    by blast
  then obtain jobs' outbox2 where T': "timeout_bucle (collect_timed_out_jobs (env_now env) (owned_jobs node1) 20)
      (owned_jobs node1) outbox1 = Some (jobs', outbox2)" by (auto simp: jobs_safe_def)
  from node_safe_jobs [OF D(2,3) T] T' D(4)
  have "node_safe ok k (total (resources node)) (Some (node1\<lparr>owned_jobs := jobs'\<rparr>, outbox2))" by simp
  then show ?thesis using R(1) D(1) T' mem by (simp add: handle_check_deadnodes_def)
qed

lemma announced_safe:
  assumes inv: "node_inv_for ok node" and room: "node_room (Suc k) node" and env: "env_ok env"
  shows "\<exists>node'. handle_node_announced env node (Some ip) buffer = Some node' \<and>
    node_safe ok k (total (resources node)) (Some (node', []))"
proof -
  have low: "node_safe ok k (total (resources node)) (Some (node, []))"
    using inv node_room_mono [OF room, of k] by (simp add: node_safe_def)
  have "\<exists>known'. update_known_node (env_mem env 1) (env_now env) (known_nodes node) ip port cpu ram gpu = Some known' \<and>
      node_safe ok k (total (resources node)) (Some (node\<lparr>known_nodes := known'\<rparr>, []))" for port cpu ram gpu
  proof -
    obtain known' where u: "tablahash_insertar (known_nodes node) \<lparr>kn_node_ip = ip, kn_node_port = port,
        kn_avail = (\<lambda>_. 0)(CPU := cpu, RAM := ram, GPU := gpu), kn_time_stamp = env_now env\<rparr> = Some known'" "th_room k known'"
      using kn.ins_total [OF node_invD(3) [OF inv]] room unfolding node_room_def by blast
    have "kn_tab known'" using kn.insertar_spec [OF node_invD(3) [OF inv] u(1)] by blast
    with u inv node_room_mono [OF room, of k] env show ?thesis
      by (simp add: update_known_node_def create_elem_known_node_def env_ok_def node_safe_def node_inv_for_def node_room_def)
  qed
  then have upd: "\<exists>node'. (update_known_node (env_mem env 1) (env_now env) (known_nodes node) ip port cpu ram gpu \<bind>
      (\<lambda>known'. Some (node\<lparr>known_nodes := known'\<rparr>))) = Some node' \<and>
      node_safe ok k (total (resources node)) (Some (node', []))" for port cpu ram gpu
    by (metis bind.bind_lunit)
  show ?thesis
    using low upd by (auto simp: handle_node_announced_def Let_def split: list.split prod.split)
qed

lemma disconnected_safe:
  assumes inv: "node_inv_for ok node" and room: "node_room k node" and ob: "outbox_ok outbox"
  shows "node_safe ok k (total (resources node)) (handle_disconnected env conns node (Some ip) socket outbox)"
proof -
  have r: "th_room (k + lr_waiting (resources node)) (active_jobs node)" "th_room k (owned_jobs node)"
    using room by (simp_all add: node_room_def)
  obtain R J where f: "free_all_resources_from_socket (env_mem env 0) (resources node) (active_jobs node) socket = Some (R, J)"
    "lr_inv R J" "total R = total (resources node)" "th_room (k + lr_waiting R) J"
    using free_all_room [OF node_invD(1) [OF inv] r(1)] by blast
  obtain jobs1 ob1 where o: "orphans_bucle (get_jobs_by_owner_socket (owned_jobs node) socket 50) (owned_jobs node) outbox =
      Some (jobs1, ob1)" "oj_inv_for ok jobs1" "th_room k jobs1" "outbox_ok ob1"
    using orphans_bucle_safe [OF node_invD(2) [OF inv] r(2) ob] unfolding jobs_safe_def by blast
  define port where "port = get_connection_port conns (int_of_u32 socket)"
  obtain ids where ids: "get_jobs_affected_by_dead_node jobs1 (Some ip) port 20 = Some ids"
    using affected_total [OF o(2)] by blast
  have "\<exists>jobs2 ob2. (if 0 < port then affected_bucle ip port ids jobs1 ob1 else Some (jobs1, ob1)) = Some (jobs2, ob2) \<and>
      oj_inv_for ok jobs2 \<and> th_room k jobs2 \<and> outbox_ok ob2"
    using affected_bucle_safe [OF o(2-4), of ip port ids] o(2-4) unfolding jobs_safe_def by auto
  then obtain jobs2 ob2 where a: "(if 0 < port then affected_bucle ip port ids jobs1 ob1 else Some (jobs1, ob1)) = Some (jobs2, ob2)"
    "oj_inv_for ok jobs2" "th_room k jobs2" "outbox_ok ob2" by blast
  have "handle_disconnected env conns node (Some ip) socket outbox =
      Some (node\<lparr>resources := R, active_jobs := J, owned_jobs := jobs2\<rparr>, ob2)"
    using f(1) o(1) a(1) ids by (cases "0 < port") (simp_all add: handle_disconnected_def Let_def port_def [symmetric])
  with f a inv room show ?thesis by (simp add: node_safe_def node_inv_for_def node_room_def)
qed

lemma respond_safe:
  assumes inv: "node_inv_for ok node" and room: "node_room (Suc k) node" and ob: "outbox_ok outbox" and env: "env_ok env"
    and fits: "reserve_fits buffer"
  shows "node_safe ok k (total (resources node)) (handle_respond env conns node (Some ip) socket buffer outbox)"
proof -
  have low: "node_room k node" using node_room_mono [OF room] by simp
  show ?thesis
    unfolding handle_respond_def
    using get_nodes_safe [OF inv low ob] job_request_safe [OF inv room ob env] reserve_safe [OF inv room ob env fits]
      granted_safe [OF inv low ob] denied_safe [OF inv low ob] release_safe [OF inv low ob env]
      job_release_safe [OF inv low ob] node_safeI [OF inv low refl ob]
    by simp
qed

lemma adapter_step_safe:
  assumes inv: "node_inv_for ok node" and room: "node_room (Suc k) node" and ok: "event_ok e"
  shows "\<exists>node' outbox closed. adapter_step ctx_port e (Some node) = Some (Some node', outbox, closed) \<and>
    node_safe ok k (total (resources node)) (Some (node', outbox))"
proof -
  have env: "env_ok (ev_env e)" using ok by (simp add: event_ok_def)
  have low: "node_room k node" using node_room_mono [OF room] by simp
  note idle = node_safeI [OF inv low refl outbox_ok_Nil]
  show ?thesis
  proof (cases "ev_action e")
    case ACTION_GET_RESOURCES
    then show ?thesis
      using idle by (simp add: adapter_step_def resource_adapter_patch_def handle_get_resources_def node_safe_def
          split: prod.split)
  next
    case ACTION_NEW_NODE_DISCOVERED
    then obtain ip where "ev_sender e = Some ip" using ok by (auto simp: event_ok_def)
    with ACTION_NEW_NODE_DISCOVERED show ?thesis
      using idle announced_safe [OF inv room env, of ip]
      by (cases "ev_buffer e") (force simp: adapter_step_def resource_adapter_patch_def)+
  next
    case ACTION_CHECK_DEADNODES
    then show ?thesis
      using deadnodes_safe [OF inv low outbox_ok_Nil env, of "ev_conns e"]
      by (force simp: adapter_step_def resource_adapter_patch_def)
  next
    case ACTION_DISCONNECTED
    then obtain ip where "ev_sender e = Some ip" using ok by (auto simp: event_ok_def)
    with ACTION_DISCONNECTED show ?thesis
      using disconnected_safe [OF inv low outbox_ok_Nil, of "ev_env e" "ev_conns e" ip "ev_socket e"]
      by (auto simp: adapter_step_def resource_adapter_patch_def node_safe_def)
  next
    case ACTION_RESPOND
    then obtain ip where "ev_sender e = Some ip" using ok by (auto simp: event_ok_def)
    with ACTION_RESPOND show ?thesis
      using idle ok respond_safe [OF inv room outbox_ok_Nil env, of _ "ev_conns e" ip "ev_socket e"]
      by (cases "ev_buffer e") (auto simp: adapter_step_def resource_adapter_patch_def node_safe_def event_ok_def)
  next
    case ACTION_NONE
    with idle show ?thesis by (simp add: adapter_step_def resource_adapter_patch_def)
  qed
qed

end

text \<open>Histories: the node after a sequence of events, and the messages each of them produced.\<close>

fun adapter_run :: "int \<Rightarrow> event list \<Rightarrow> node_data_t option \<Rightarrow> (node_data_t option \<times> outbox_t list) result" where
  "adapter_run ctx_port [] mynode = Some (mynode, [])"
| "adapter_run ctx_port (e # es) mynode =
     do {
       (mynode', outbox, closed) \<leftarrow> adapter_step ctx_port e mynode;
       (mynode'', outs) \<leftarrow> adapter_run ctx_port es mynode';
       Some (mynode'', outbox # outs)
     }"

lemma adapter_run_safe:
  "node_inv node \<Longrightarrow> node_room (length es) node \<Longrightarrow> list_all event_ok es \<Longrightarrow>
     \<exists>node' outs. adapter_run ctx_port es (Some node) = Some (Some node', outs) \<and> node_inv node' \<and>
       total (resources node') = total (resources node) \<and> list_all outbox_ok outs"
proof (induction es arbitrary: node)
  case (Cons e es)
  have room: "node_room (Suc (length es)) node" using Cons.prems(2) by simp
  from ojp.adapter_step_safe [OF Cons.prems(1) room, of e ctx_port] Cons.prems(3) obtain node1 ob closed where
    s: "adapter_step ctx_port e (Some node) = Some (Some node1, ob, closed)"
      "node_inv node1" "node_room (length es) node1" "total (resources node1) = total (resources node)" "outbox_ok ob"
    by (auto simp: node_safe_def)
  from Cons.IH [OF s(2,3)] Cons.prems(3) obtain node2 outs where
    "adapter_run ctx_port es (Some node1) = Some (Some node2, outs)" "node_inv node2"
      "total (resources node2) = total (resources node1)" "list_all outbox_ok outs" by auto
  with s show ?case by simp
qed simp

section \<open>Properties\<close>



end
