(* ===== verification/Sys_Calls.thy ===== *)
theory Sys_Calls
  imports C_Strings "HOL-Library.State_Monad"
begin

text \<open>
  The system calls of the agent, and the wrappers of \<^verbatim>\<open>c_agent/src/comms/sys_epoll.c\<close>. The kernel is
  not part of the program: it is an argument, a function that answers a call from the history of all
  calls made before. A program that makes calls is a state transformer on the history, so that a
  theorem speaks of every sequence of answers. Only what the agent reads of an answer is in it.
\<close>

section \<open>Calls and answers\<close>

datatype sock_type = SOCK_STREAM | SOCK_DGRAM

datatype sock_opt = SO_REUSEADDR | SO_REUSEPORT | SO_BROADCAST

text \<open>An address argument: the text given to \<^verbatim>\<open>inet_addr\<close>, or one of the constants.\<close>

datatype in_addr = INADDR_ANY | INADDR_BROADCAST | Inet_addr string

text \<open>\<^verbatim>\<open>EWOULDBLOCK\<close> has the value of \<^verbatim>\<open>EAGAIN\<close>.\<close>

datatype errno_t = EAGAIN | EINPROGRESS | EOTHER

datatype epoll_op = EPOLL_CTL_ADD | EPOLL_CTL_MOD | EPOLL_CTL_DEL

datatype epoll_flag = EPOLLIN | EPOLLOUT | EPOLLONESHOT

datatype syscall =
    Socket sock_type
  | Setsockopt int sock_opt
  | Bind int in_addr nat
  | Listen int nat
  | Fcntl_getfl int
  | Fcntl_setfl int int
  | Accept int
  | Connect int in_addr nat
  | Send int string
  | Recv int nat
  | Sendto int in_addr nat string
  | Recvfrom int nat
  | Getsockopt_error int
  | Read int
  | Close int
  | Usleep nat
  | Epoll_create
  | Epoll_ctl int epoll_op int "epoll_flag list"
  | Timerfd_create
  | Timerfd_settime int nat nat

text \<open>The value returned, \<^verbatim>\<open>errno\<close>, the bytes read, and the address or option read.\<close>

record sysret =
  sr_ret :: int
  sr_err :: errno_t
  sr_data :: string
  sr_addr :: u32

type_synonym history = "syscall list"

type_synonym kernel = "history \<Rightarrow> syscall \<Rightarrow> sysret"

type_synonym 'a sysprog = "(history, 'a) state"

definition sys :: "kernel \<Rightarrow> syscall \<Rightarrow> sysret sysprog" where
  "sys k c = State (\<lambda>h. (k h c, h @ [c]))"

lemma run_sys [simp]: "run_state (sys k c) h = (k h c, h @ [c])"
  by (simp add: sys_def)

text \<open>\<^verbatim>\<open>htons\<close>: the port as the kernel sees it.\<close>

definition htons :: "int \<Rightarrow> nat" where
  "htons p = nat (p mod 65536)"

text \<open>\<^verbatim>\<open>inet_ntoa\<close>: the four bytes of an address, as they are in memory.\<close>

definition inet_byte :: "nat \<Rightarrow> u32 \<Rightarrow> nat" where
  "inet_byte i w = unat (drop_bit (8 * i) w) mod 256"

definition inet_ntoa :: "u32 \<Rightarrow> string" where
  "inet_ntoa w = dec_of_nat (inet_byte 0 w) @ ''.'' @ dec_of_nat (inet_byte 1 w) @ ''.'' @
     dec_of_nat (inet_byte 2 w) @ ''.'' @ dec_of_nat (inet_byte 3 w)"

lemma inet_ntoa_length: "length (inet_ntoa w) \<le> 15"
proof -
  have "length (dec_of_nat (inet_byte i w)) \<le> 3" for i
  proof (rule length_dec_of_nat)
    have "inet_byte i w < 256" by (simp add: inet_byte_def)
    then show "inet_byte i w < 10 ^ 3" by simp
  qed simp
  from this [of 0] this [of 1] this [of 2] this [of 3] show ?thesis by (simp add: inet_ntoa_def)
qed

text \<open>The address of a peer has neither a colon nor a space.\<close>

lemma inet_ntoa_chars: "c \<in> set (inet_ntoa w) \<Longrightarrow> is_digit c \<or> c = CHR ''.''"
  using dec_of_nat_digits by (auto simp: inet_ntoa_def)

section \<open>epoll\<close>

definition add_to_epoll_interest_list :: "kernel \<Rightarrow> int \<Rightarrow> int \<Rightarrow> epoll_flag list \<Rightarrow> int sysprog" where
  "add_to_epoll_interest_list k epoll_fd target_fd events =
     do {
       r \<leftarrow> sys k (Epoll_ctl epoll_fd EPOLL_CTL_ADD target_fd events);
       State_Monad.return (if sr_ret r = - 1 then - 1 else 0)
     }"

definition remove_from_epoll_interest_list :: "kernel \<Rightarrow> int \<Rightarrow> int \<Rightarrow> int sysprog" where
  "remove_from_epoll_interest_list k epoll_fd target_fd =
     do {
       r \<leftarrow> sys k (Epoll_ctl epoll_fd EPOLL_CTL_DEL target_fd []);
       State_Monad.return (sr_ret r)
     }"

definition rearm_epoll_fd :: "kernel \<Rightarrow> int \<Rightarrow> int \<Rightarrow> int sysprog" where
  "rearm_epoll_fd k epoll_fd target_fd =
     do {
       r \<leftarrow> sys k (Epoll_ctl epoll_fd EPOLL_CTL_MOD target_fd [EPOLLIN, EPOLLONESHOT]);
       State_Monad.return (sr_ret r)
     }"

lemma run_epoll [simp]:
  "run_state (add_to_epoll_interest_list k e fd evs) h =
     (if sr_ret (k h (Epoll_ctl e EPOLL_CTL_ADD fd evs)) = - 1 then - 1 else 0, h @ [Epoll_ctl e EPOLL_CTL_ADD fd evs])"
  "run_state (remove_from_epoll_interest_list k e fd) h =
     (sr_ret (k h (Epoll_ctl e EPOLL_CTL_DEL fd [])), h @ [Epoll_ctl e EPOLL_CTL_DEL fd []])"
  "run_state (rearm_epoll_fd k e fd) h =
     (sr_ret (k h (Epoll_ctl e EPOLL_CTL_MOD fd [EPOLLIN, EPOLLONESHOT])), h @ [Epoll_ctl e EPOLL_CTL_MOD fd [EPOLLIN, EPOLLONESHOT]])"
  by (simp_all add: add_to_epoll_interest_list_def remove_from_epoll_interest_list_def rearm_epoll_fd_def)

end
