(* ===== verification/Sys_Socket.thy ===== *)
theory Sys_Socket
  imports Sys_Calls
begin

unbundle bit_operations_syntax

text \<open>
  The socket functions of \<^verbatim>\<open>c_agent/src/comms/sys_socket.c\<close>, as programs that make system calls. The
  loop of \<^verbatim>\<open>send_tcp_message\<close> may run forever (the peer may never read): it is a partial function, and
  \<open>None\<close> is a run that does not return.
\<close>

section \<open>Opening sockets\<close>

definition LISTEN_BACKLOG :: nat where
  "LISTEN_BACKLOG = 10"

definition O_NONBLOCK :: int where
  "O_NONBLOCK = 2048"

text \<open>\<^verbatim>\<open>close (sockfd); return -1;\<close>\<close>

definition close_fail :: "kernel \<Rightarrow> int \<Rightarrow> int sysprog" where
  "close_fail k sockfd = do { _ \<leftarrow> sys k (Close sockfd); State_Monad.return (- 1) }"

definition create_udp_listener_broadcaster :: "kernel \<Rightarrow> int \<Rightarrow> int sysprog" where
  "create_udp_listener_broadcaster k p =
     do {
       s \<leftarrow> sys k (Socket SOCK_DGRAM);
       let sockfd = sr_ret s;
       if sockfd = - 1 then State_Monad.return (- 1)
       else do {
         r1 \<leftarrow> sys k (Setsockopt sockfd SO_REUSEADDR);
         if sr_ret r1 < 0 then close_fail k sockfd
         else do {
           r2 \<leftarrow> sys k (Setsockopt sockfd SO_REUSEPORT);
           if sr_ret r2 < 0 then close_fail k sockfd
           else do {
             r3 \<leftarrow> sys k (Setsockopt sockfd SO_BROADCAST);
             if sr_ret r3 < 0 then close_fail k sockfd
             else do {
               r4 \<leftarrow> sys k (Bind sockfd INADDR_ANY (htons p));
               if sr_ret r4 = - 1 then close_fail k sockfd
               else do {
                 fl \<leftarrow> sys k (Fcntl_getfl sockfd);
                 _ \<leftarrow> sys k (Fcntl_setfl sockfd (sr_ret fl OR O_NONBLOCK));
                 State_Monad.return sockfd
               }
             }
           }
         }
       }
     }"

definition create_tcp_listener :: "kernel \<Rightarrow> string \<Rightarrow> int \<Rightarrow> int sysprog" where
  "create_tcp_listener k ip_address p =
     do {
       s \<leftarrow> sys k (Socket SOCK_STREAM);
       let sockfd = sr_ret s;
       if sockfd = - 1 then State_Monad.return (- 1)
       else do {
         r1 \<leftarrow> sys k (Setsockopt sockfd SO_REUSEADDR);
         if sr_ret r1 \<noteq> 0 then close_fail k sockfd
         else do {
           r2 \<leftarrow> sys k (Bind sockfd (Inet_addr ip_address) (htons p));
           if sr_ret r2 \<noteq> 0 then close_fail k sockfd
           else do {
             r3 \<leftarrow> sys k (Listen sockfd LISTEN_BACKLOG);
             if sr_ret r3 \<noteq> 0 then close_fail k sockfd
             else do {
               fl \<leftarrow> sys k (Fcntl_getfl sockfd);
               if sr_ret fl = - 1 then close_fail k sockfd
               else do {
                 r4 \<leftarrow> sys k (Fcntl_setfl sockfd (sr_ret fl OR O_NONBLOCK));
                 if sr_ret r4 = - 1 then close_fail k sockfd
                 else State_Monad.return sockfd
               }
             }
           }
         }
       }
     }"

text \<open>The descriptor and, when there is one, the text written to \<^verbatim>\<open>client_ip_buffer\<close>.\<close>

definition accept_tcp_connection :: "kernel \<Rightarrow> int \<Rightarrow> (int \<times> string) sysprog" where
  "accept_tcp_connection k server_fd =
     do {
       c \<leftarrow> sys k (Accept server_fd);
       let client_fd = sr_ret c;
       if client_fd = - 1 then State_Monad.return (- 1, [])
       else do {
         fl \<leftarrow> sys k (Fcntl_getfl client_fd);
         _ \<leftarrow> sys k (Fcntl_setfl client_fd (sr_ret fl OR O_NONBLOCK));
         State_Monad.return (client_fd, inet_ntoa (sr_addr c))
       }
     }"

definition connect_to_tcp_node :: "kernel \<Rightarrow> string \<Rightarrow> int \<Rightarrow> int sysprog" where
  "connect_to_tcp_node k target_ip target_port =
     do {
       s \<leftarrow> sys k (Socket SOCK_STREAM);
       let sockfd = sr_ret s;
       if sockfd = - 1 then State_Monad.return (- 1)
       else do {
         fl \<leftarrow> sys k (Fcntl_getfl sockfd);
         _ \<leftarrow> sys k (Fcntl_setfl sockfd (sr_ret fl OR O_NONBLOCK));
         c \<leftarrow> sys k (Connect sockfd (Inet_addr target_ip) (htons target_port));
         if sr_ret c < 0 then
           (if sr_err c \<noteq> EINPROGRESS then close_fail k sockfd else State_Monad.return sockfd)
         else State_Monad.return sockfd
       }
     }"

section \<open>Transfer\<close>

text \<open>A byte sequence as the C string that ends at its first NUL.\<close>

definition c_string :: "string \<Rightarrow> string" where
  "c_string bytes = takeWhile (\<lambda>c. c \<noteq> CHR 0x00) bytes"

text \<open>The text of the datagram and the sender, or \<open>None\<close> for the result -1.\<close>

definition process_discovery_datagram :: "kernel \<Rightarrow> int \<Rightarrow> nat \<Rightarrow> (string \<times> string) option sysprog" where
  "process_discovery_datagram k udpsockfd buffer_size =
     do {
       r \<leftarrow> sys k (Recvfrom udpsockfd (buffer_size - 1));
       State_Monad.return
         (if sr_ret r = - 1 then None
          else Some (c_string (take (nat (sr_ret r)) (sr_data r)), inet_ntoa (sr_addr r)))
     }"

definition broadcast_announce :: "kernel \<Rightarrow> int \<Rightarrow> int \<Rightarrow> string \<Rightarrow> int sysprog" where
  "broadcast_announce k sockfd targetport msg =
     do {
       r \<leftarrow> sys k (Sendto sockfd INADDR_BROADCAST (htons targetport) msg);
       State_Monad.return (sr_ret r)
     }"

partial_function (option) send_bucle :: "kernel \<Rightarrow> int \<Rightarrow> string \<Rightarrow> nat \<Rightarrow> history \<Rightarrow> (int \<times> history) option" where
  "send_bucle k sockfd msg total_sent h =
     (if total_sent < length msg then
        (let r = k h (Send sockfd (drop total_sent msg)); h1 = h @ [Send sockfd (drop total_sent msg)]
         in if 0 < sr_ret r then send_bucle k sockfd msg (total_sent + nat (sr_ret r)) h1
            else if sr_ret r = - 1 \<and> sr_err r = EAGAIN then send_bucle k sockfd msg total_sent (h1 @ [Usleep 1000])
            else Some (- 1, h1))
      else Some (int total_sent, h))"

definition send_tcp_message :: "kernel \<Rightarrow> int \<Rightarrow> string \<Rightarrow> history \<Rightarrow> (int \<times> history) option" where
  "send_tcp_message k sockfd msg h = send_bucle k sockfd msg 0 h"

text \<open>The result and the C string in the buffer (read only for a positive result).\<close>

definition receive_tcp_message :: "kernel \<Rightarrow> int \<Rightarrow> nat \<Rightarrow> (int \<times> string) sysprog" where
  "receive_tcp_message k sockfd buffer_size =
     do {
       r \<leftarrow> sys k (Recv sockfd (buffer_size - 1));
       State_Monad.return
         (if sr_ret r = - 1 then (if sr_err r = EAGAIN then (- 2, []) else (- 1, []))
          else if sr_ret r = 0 then (0, [])
          else (sr_ret r, c_string (take (nat (sr_ret r)) (sr_data r))))
     }"

lemma run_receive [simp]:
  "run_state (receive_tcp_message k fd n) h =
     (let r = k h (Recv fd (n - 1))
      in (if sr_ret r = - 1 then (if sr_err r = EAGAIN then (- 2, []) else (- 1, []))
          else if sr_ret r = 0 then (0, [])
          else (sr_ret r, c_string (take (nat (sr_ret r)) (sr_data r))), h @ [Recv fd (n - 1)]))"
  by (simp add: receive_tcp_message_def Let_def)

section \<open>Sockets do not leak\<close>

text \<open>A socket is opened; it is returned and not closed, or closed as the last call.\<close>

definition opens :: "sock_type \<Rightarrow> kernel \<Rightarrow> history \<Rightarrow> int \<Rightarrow> history \<Rightarrow> bool" where
  "opens ty k h r h' \<longleftrightarrow>
     (let fd = sr_ret (k h (Socket ty))
      in \<exists>cs. h' = h @ Socket ty # cs \<and>
           (fd = - 1 \<and> r = - 1 \<and> cs = [] \<or> fd \<noteq> - 1 \<and> r = fd \<and> Close fd \<notin> set cs \<or>
            fd \<noteq> - 1 \<and> r = - 1 \<and> cs \<noteq> [] \<and> last cs = Close fd \<and> Close fd \<notin> set (butlast cs)))"

lemmas open_defs = create_udp_listener_broadcaster_def create_tcp_listener_def connect_to_tcp_node_def close_fail_def

lemma opens_udp: "run_state (create_udp_listener_broadcaster k p) h = (r, h') \<Longrightarrow> opens SOCK_DGRAM k h r h'"
  by (auto simp: open_defs opens_def Let_def split: if_splits)

lemma opens_tcp: "run_state (create_tcp_listener k ip p) h = (r, h') \<Longrightarrow> opens SOCK_STREAM k h r h'"
  by (auto simp: open_defs opens_def Let_def split: if_splits)

lemma opens_connect: "run_state (connect_to_tcp_node k ip p) h = (r, h') \<Longrightarrow> opens SOCK_STREAM k h r h'"
  by (auto simp: open_defs opens_def Let_def split: if_splits)

lemma opens_fd: "opens ty k h r h' \<Longrightarrow> r = - 1 \<or> r = sr_ret (k h (Socket ty))"
  by (auto simp: opens_def Let_def)

section \<open>Sending\<close>

text \<open>
  What the kernel promises of \<^verbatim>\<open>send\<close>: it never accepts more than it was given. A kernel is patient
  when it does not answer \<^verbatim>\<open>EAGAIN\<close> forever: every such answer uses up some of \<open>\<mu>\<close>.
\<close>

definition send_sane :: "kernel \<Rightarrow> bool" where
  "send_sane k \<longleftrightarrow> (\<forall>h fd m. sr_ret (k h (Send fd m)) \<le> int (length m))"

definition send_patient :: "kernel \<Rightarrow> (history \<Rightarrow> nat) \<Rightarrow> bool" where
  "send_patient k \<mu> \<longleftrightarrow> (\<forall>h fd m. sr_ret (k h (Send fd m)) = - 1 \<and> sr_err (k h (Send fd m)) = EAGAIN \<longrightarrow>
     \<mu> (h @ [Send fd m, Usleep 1000]) < \<mu> h)"

text \<open>The bytes the kernel accepts on a descriptor during some calls.\<close>

fun accepted :: "kernel \<Rightarrow> int \<Rightarrow> history \<Rightarrow> syscall list \<Rightarrow> string" where
  "accepted k fd h [] = []"
| "accepted k fd h (c # cs) =
     (case c of Send fd' m \<Rightarrow> if fd' = fd then take (nat (sr_ret (k h c))) m else [] | _ \<Rightarrow> []) @
     accepted k fd (h @ [c]) cs"

text \<open>
  What a run of the loop does: the calls are \<^verbatim>\<open>send\<close> and \<^verbatim>\<open>usleep\<close> only, and the bytes accepted are the
  rest of the message, or a part of it when the result is -1.
\<close>

definition sends_rest :: "kernel \<Rightarrow> int \<Rightarrow> string \<Rightarrow> history \<Rightarrow> int \<Rightarrow> syscall list \<Rightarrow> bool" where
  "sends_rest k fd rest h r cs \<longleftrightarrow>
     list_all (\<lambda>c. case c of Send fd' _ \<Rightarrow> fd' = fd | Usleep _ \<Rightarrow> True | _ \<Rightarrow> False) cs \<and>
     (if r = - 1 then \<exists>n < length rest. accepted k fd h cs = take n rest
      else accepted k fd h cs = rest)"

lemma send_bucle_spec:
  assumes sane: "send_sane k" and pat: "send_patient k \<mu>"
  shows "total_sent \<le> length msg \<Longrightarrow> \<exists>r cs. send_bucle k fd msg total_sent h = Some (r, h @ cs) \<and>
    (r = - 1 \<or> r = int (length msg)) \<and> sends_rest k fd (drop total_sent msg) h r cs"
proof (induction "(length msg - total_sent, \<mu> h)" arbitrary: total_sent h rule: wf_induct_rule [OF wf_lex_prod [OF wf_less wf_less]])
  case 1
  let ?c = "Send fd (drop total_sent msg)"
  let ?r = "k h ?c"
  show ?case
  proof (cases "total_sent < length msg")
    case False
    with "1.prems" show ?thesis
      by (subst send_bucle.simps) (auto simp: sends_rest_def)
  next
    case less: True
    have n: "sr_ret ?r \<le> int (length msg - total_sent)"
      using sane [unfolded send_sane_def, rule_format, of h fd "drop total_sent msg"] by simp
    consider (some) "0 < sr_ret ?r" | (again) "sr_ret ?r = - 1" "sr_err ?r = EAGAIN"
      | (fail) "\<not> 0 < sr_ret ?r" "\<not> (sr_ret ?r = - 1 \<and> sr_err ?r = EAGAIN)" by blast
    then show ?thesis
    proof cases
      case some
      let ?t = "total_sent + nat (sr_ret ?r)"
      have t: "?t \<le> length msg" "length msg - ?t < length msg - total_sent" using n less some by auto
      then have "((length msg - ?t, \<mu> (h @ [?c])), (length msg - total_sent, \<mu> h)) \<in> {(x, y). x < y} <*lex*> {(x, y). x < y}"
        by simp
      from "1.hyps" [OF this t(1)] obtain r cs where IH: "send_bucle k fd msg ?t (h @ [?c]) = Some (r, (h @ [?c]) @ cs)"
        "r = - 1 \<or> r = int (length msg)" "sends_rest k fd (drop ?t msg) (h @ [?c]) r cs" by blast
      have "sends_rest k fd (drop total_sent msg) h r (?c # cs)"
      proof -
        have d: "drop total_sent msg = take (nat (sr_ret ?r)) (drop total_sent msg) @ drop ?t msg"
          by (metis add.commute append_take_drop_id drop_drop)
        have "\<exists>i < length (drop total_sent msg). accepted k fd h (?c # cs) = take i (drop total_sent msg)" if "r = - 1"
        proof -
          obtain j where j: "j < length (drop ?t msg)" "accepted k fd (h @ [?c]) cs = take j (drop ?t msg)"
            using IH(3) \<open>r = - 1\<close> by (auto simp: sends_rest_def)
          let ?i = "nat (sr_ret ?r) + j"
          have "take ?i (drop total_sent msg) = take (nat (sr_ret ?r)) (drop total_sent msg) @ take j (drop ?t msg)"
            by (simp add: take_add add.commute [of total_sent])
          moreover have "?i < length (drop total_sent msg)" using j(1) by simp
          ultimately show ?thesis using j(2) by (intro exI [of _ ?i]) simp
        qed
        then show ?thesis using IH(3) d by (auto simp: sends_rest_def split: if_splits)
      qed
      moreover have "send_bucle k fd msg total_sent h = Some (r, h @ ?c # cs)"
        using less some IH(1) by (subst send_bucle.simps) (simp add: Let_def)
      ultimately show ?thesis using IH(2) by blast
    next
      case again
      have "\<mu> (h @ [?c, Usleep 1000]) < \<mu> h" using pat again by (simp add: send_patient_def)
      then have "((length msg - total_sent, \<mu> (h @ [?c, Usleep 1000])), (length msg - total_sent, \<mu> h))
          \<in> {(x, y). x < y} <*lex*> {(x, y). x < y}" by simp
      from "1.hyps" [OF this "1.prems"] obtain r cs where
        IH: "send_bucle k fd msg total_sent (h @ [?c, Usleep 1000]) = Some (r, (h @ [?c, Usleep 1000]) @ cs)"
        "r = - 1 \<or> r = int (length msg)" "sends_rest k fd (drop total_sent msg) (h @ [?c, Usleep 1000]) r cs" by blast
      have "send_bucle k fd msg total_sent h = Some (r, h @ ?c # Usleep 1000 # cs)"
        using less again IH(1) by (subst send_bucle.simps) (simp add: Let_def)
      moreover have "sends_rest k fd (drop total_sent msg) h r (?c # Usleep 1000 # cs)"
        using IH(3) again by (auto simp: sends_rest_def)
      ultimately show ?thesis using IH(2) by blast
    next
      case fail
      then have "send_bucle k fd msg total_sent h = Some (- 1, h @ [?c])"
        using less by (subst send_bucle.simps) (auto simp: Let_def)
      moreover have "sends_rest k fd (drop total_sent msg) h (- 1) [?c]"
        using less fail by (auto simp: sends_rest_def intro!: exI [of _ 0])
      ultimately show ?thesis by blast
    qed
  qed
qed

lemma send_tcp_message_spec:
  assumes "send_sane k" "send_patient k \<mu>"
  shows "\<exists>r cs. send_tcp_message k fd msg h = Some (r, h @ cs) \<and> (r = - 1 \<or> r = int (length msg)) \<and> sends_rest k fd msg h r cs"
  using send_bucle_spec [OF assms, of 0 msg fd h] by (simp add: send_tcp_message_def)

section \<open>Properties\<close>


text \<open>A kernel that accepts one byte at a time, each after an \<^verbatim>\<open>EAGAIN\<close>.\<close>

definition slow_kernel :: kernel where
  "slow_kernel h c =
     (if h \<noteq> [] \<and> last h = Usleep 1000 then \<lparr>sr_ret = (case c of Send fd m \<Rightarrow> min 1 (int (length m)) | _ \<Rightarrow> 0), sr_err = EOTHER, sr_data = [], sr_addr = 0\<rparr>
      else \<lparr>sr_ret = - 1, sr_err = EAGAIN, sr_data = [], sr_addr = 0\<rparr>)"


text \<open>
  Claim C40. No socket leaks while it is set up. Each of the functions that open a socket returns
  either -1 when \<^verbatim>\<open>socket\<close> failed, with no other call made; or the new descriptor, which was not closed;
  or -1 after it closed the new descriptor, once and as its last call.
\<close>

theorem sockets_do_not_leak:
  "(case run_state (create_udp_listener_broadcaster k p) h of (r, h') \<Rightarrow> opens SOCK_DGRAM k h r h') \<and>
   (case run_state (create_tcp_listener k ip p) h of (r, h') \<Rightarrow> opens SOCK_STREAM k h r h') \<and>
   (case run_state (connect_to_tcp_node k ip p) h of (r, h') \<Rightarrow> opens SOCK_STREAM k h r h')"
  by (auto intro: opens_udp opens_tcp opens_connect split: prod.split)

end
