(* ===== verification/Event_Handler.thy ===== *)
theory Event_Handler
  imports Adapter_Safety Sys_Socket
begin

text \<open>
  The event handlers of \<^verbatim>\<open>c_agent/src/comms/event_handler.c\<close>: they move messages between the sockets and
  the protocol. The state of the server is its context with the node, the table of connections and
  the history of system calls; the kernel answers the calls, and \<open>envs i\<close> is the environment (time,
  random values, allocations) of the \<open>i\<close>-th call of \<^verbatim>\<open>resource_adapter_patch\<close>. \<open>None\<close> is undefined
  behaviour, or a \<^verbatim>\<open>send\<close> or garbage collection that never ends.
\<close>

section \<open>The server\<close>

definition UDP_PORT :: int where
  "UDP_PORT = 12529"

record ServerContext =
  ctx_port :: int
  lan_ip :: string
  epollfd :: int
  tcp_public_fd :: int
  erlang_tcp_fd :: int
  udp_fd :: int
  tcp_timerfd :: int
  udp_timerfd :: int
  gc_timerfd :: int
  mynode :: "node_data_t option"

record server =
  sv_ctx :: ServerContext
  sv_conns :: connections
  sv_hist :: history
  sv_calls :: nat

text \<open>A program of system calls, and a call whose answer is not read.\<close>

definition syscalls :: "'a sysprog \<Rightarrow> server \<Rightarrow> 'a \<times> server" where
  "syscalls m s = (let (x, h) = run_state m (sv_hist s) in (x, s\<lparr>sv_hist := h\<rparr>))"

definition call :: "syscall \<Rightarrow> server \<Rightarrow> server" where
  "call c s = s\<lparr>sv_hist := sv_hist s @ [c]\<rparr>"

text \<open>A call of the protocol: its outbox, and the server with the new node.\<close>

definition adapter_call :: "(nat \<Rightarrow> env) \<Rightarrow> string option \<Rightarrow> u32 \<Rightarrow> string option \<Rightarrow> JuaniAction \<Rightarrow> server \<Rightarrow>
    (outbox_t \<times> server) result" where
  "adapter_call envs SENDER_IP SOCKET BUFFER action s =
     do {
       (node', outbox, closed) \<leftarrow> resource_adapter_patch (envs (sv_calls s)) (sv_conns s) (ctx_port (sv_ctx s))
          (mynode (sv_ctx s)) SENDER_IP SOCKET BUFFER [] action;
       Some (outbox, s\<lparr>sv_ctx := (sv_ctx s)\<lparr>mynode := node'\<rparr>, sv_hist := sv_hist s @ map Close closed,
         sv_calls := Suc (sv_calls s)\<rparr>)
     }"

section \<open>The table of connections\<close>

definition open_connection :: "int \<Rightarrow> string \<Rightarrow> u32 \<Rightarrow> string \<Rightarrow> connections \<Rightarrow> connections" where
  "open_connection fd ip p pending cs =
     cs[nat fd := (cs ! nat fd)\<lparr>is_active := 1, cn_ip := ip, cn_port := p, pending_message := pending\<rparr>]"

definition reset_connection :: "int \<Rightarrow> connections \<Rightarrow> connections" where
  "reset_connection fd cs =
     cs[nat fd := (cs ! nat fd)\<lparr>is_active := 0, cn_ip := [], cn_port := 0, pending_message := []\<rparr>]"

section \<open>Sending the outbox\<close>

definition send_one :: "kernel \<Rightarrow> out_msg_t \<Rightarrow> server \<Rightarrow> server result" where
  "send_one k m s =
     do {
       target \<leftarrow> (if target_fd m = - 1
          then find_fd_by_ip_port (sv_conns s) (Some (target_ip m)) (u32_of_int (target_port m))
          else Some (target_fd m));
       (if target \<noteq> - 1 then
          do {
            (sent, h) \<leftarrow> send_tcp_message k target (message m) (sv_hist s);
            Some (s\<lparr>sv_hist := h\<rparr>)
          }
        else
          let (new_fd, s1) = syscalls (connect_to_tcp_node k (target_ip m) (target_port m)) s
          in if new_fd = - 1 then Some s1
             else if int MAX_FDS \<le> new_fd then Some (call (Close new_fd) s1)
             else if new_fd < 0 then None
             else Some (snd (syscalls (add_to_epoll_interest_list k (epollfd (sv_ctx s1)) new_fd [EPOLLIN, EPOLLOUT])
                    (s1\<lparr>sv_conns := open_connection new_fd (strncpy 16 (target_ip m)) (u32_of_int (target_port m))
                        (strncpy (BUFFER_SIZE - 1) (message m)) (sv_conns s1)\<rparr>))))
     }"

fun send_outbox :: "kernel \<Rightarrow> outbox_t \<Rightarrow> server \<Rightarrow> server result" where
  "send_outbox k [] s = Some s"
| "send_outbox k (m # outbox) s = do { s1 \<leftarrow> send_one k m s; send_outbox k outbox s1 }"

section \<open>Timers and announcements\<close>

definition handle_tcp_timer_expiration :: "kernel \<Rightarrow> server \<Rightarrow> server" where
  "handle_tcp_timer_expiration k s =
     (let ctx = sv_ctx s;
          s1 = call (Read (tcp_timerfd ctx)) s;
          s2 = snd (syscalls (remove_from_epoll_interest_list k (epollfd ctx) (tcp_timerfd ctx)) s1);
          s3 = call (Close (tcp_timerfd ctx)) s2;
          s4 = s3\<lparr>sv_ctx := (sv_ctx s3)\<lparr>tcp_timerfd := - 1\<rparr>\<rparr>;
          s5 = snd (syscalls (add_to_epoll_interest_list k (epollfd ctx) (tcp_public_fd ctx) [EPOLLIN]) s4)
      in snd (syscalls (add_to_epoll_interest_list k (epollfd ctx) (erlang_tcp_fd ctx) [EPOLLIN]) s5))"

definition handle_udp_timer_expiration :: "kernel \<Rightarrow> (nat \<Rightarrow> env) \<Rightarrow> server \<Rightarrow> server result" where
  "handle_udp_timer_expiration k envs s =
     do {
       (outbox, s1) \<leftarrow> adapter_call envs None 0 None ACTION_GET_RESOURCES s;
       Some (case outbox of
          [] \<Rightarrow> s1
        | m # _ \<Rightarrow> snd (syscalls (broadcast_announce k (udp_fd (sv_ctx s1)) UDP_PORT (message m)) s1))
     }"

definition handle_incoming_discovery :: "kernel \<Rightarrow> (nat \<Rightarrow> env) \<Rightarrow> server \<Rightarrow> server result" where
  "handle_incoming_discovery k envs s =
     (let (r, s1) = syscalls (process_discovery_datagram k (udp_fd (sv_ctx s)) BUFFER_SIZE) s
      in case r of
           None \<Rightarrow> Some s1
         | Some (buffer, sender_ip) \<Rightarrow>
             map_option snd (adapter_call envs (Some sender_ip) 0 (Some buffer) ACTION_NEW_NODE_DISCOVERED s1))"

section \<open>Connections\<close>

definition handle_new_tcp_connection :: "kernel \<Rightarrow> server \<Rightarrow> int \<Rightarrow> server result" where
  "handle_new_tcp_connection k s server_fd =
     (let ((client_fd, client_ip), s1) = syscalls (accept_tcp_connection k server_fd) s
      in if client_fd \<noteq> - 1 \<and> client_fd < int MAX_FDS then
           if client_fd < 0 then None
           else Some (snd (syscalls (add_to_epoll_interest_list k (epollfd (sv_ctx s1)) client_fd [EPOLLIN, EPOLLONESHOT])
                  (s1\<lparr>sv_conns := open_connection client_fd (strncpy 16 client_ip) 0 [] (sv_conns s1)\<rparr>)))
         else Some s1)"

text \<open>One line of the received bytes, and all of them.\<close>

definition answer_line :: "kernel \<Rightarrow> (nat \<Rightarrow> env) \<Rightarrow> string \<Rightarrow> int \<Rightarrow> string \<Rightarrow> server \<Rightarrow> server result" where
  "answer_line k envs ip curr_fd line s =
     (if 0 < length line then
        do {
          (outbox, s1) \<leftarrow> adapter_call envs (Some ip) (u32_of_int curr_fd) (Some line) ACTION_RESPOND s;
          (if 0 < length outbox then send_outbox k outbox s1 else Some s1)
        }
      else Some s)"

fun lines_bucle :: "kernel \<Rightarrow> (nat \<Rightarrow> env) \<Rightarrow> string \<Rightarrow> int \<Rightarrow> string list \<Rightarrow> server \<Rightarrow> server result" where
  "lines_bucle k envs ip curr_fd [] s = Some s"
| "lines_bucle k envs ip curr_fd (line # lines) s =
     do {
       s1 \<leftarrow> answer_line k envs ip curr_fd line s;
       lines_bucle k envs ip curr_fd lines s1
     }"

definition handle_client_message :: "kernel \<Rightarrow> (nat \<Rightarrow> env) \<Rightarrow> server \<Rightarrow> int \<Rightarrow> (int \<times> server) result" where
  "handle_client_message k envs s curr_fd =
     (if curr_fd < 0 \<or> int MAX_FDS \<le> curr_fd then None
      else
        let ip = strncpy 16 (cn_ip (sv_conns s ! nat curr_fd));
            ((bytes_read, recv_buffer), s1) = syscalls (receive_tcp_message k curr_fd BUFFER_SIZE) s
        in if 0 < bytes_read then
             do {
               s2 \<leftarrow> lines_bucle k envs ip curr_fd (strtok CHR ''\<newline>'' recv_buffer) s1;
               Some (1, s2)
             }
           else if bytes_read = 0 \<or> bytes_read \<noteq> - 2 then
             do {
               (outbox, s2) \<leftarrow> adapter_call envs (Some ip) (u32_of_int curr_fd) None ACTION_DISCONNECTED s1;
               s3 \<leftarrow> send_outbox k outbox s2;
               let s4 = snd (syscalls (remove_from_epoll_interest_list k (epollfd (sv_ctx s3)) curr_fd) s3);
                   s5 = call (Close curr_fd) s4
               in Some (1, s5\<lparr>sv_conns := reset_connection curr_fd (sv_conns s5)\<rparr>)
             }
           else Some (1, s1))"

definition handle_connection_success :: "kernel \<Rightarrow> (nat \<Rightarrow> env) \<Rightarrow> server \<Rightarrow> int \<Rightarrow> server result" where
  "handle_connection_success k envs s curr_fd =
     (if curr_fd < 0 \<or> int MAX_FDS \<le> curr_fd then None
      else
        let ip = strncpy 16 (cn_ip (sv_conns s ! nat curr_fd));
            (r, s1) = syscalls (sys k (Getsockopt_error curr_fd)) s
        in if sr_ret r < 0 \<or> sr_addr r \<noteq> 0 then
             do {
               (outbox, s2) \<leftarrow> adapter_call envs (Some ip) (u32_of_int curr_fd) (Some ''CONNECT_FAILED'')
                  ACTION_DISCONNECTED s1;
               s3 \<leftarrow> send_outbox k outbox s2;
               let s4 = s3\<lparr>sv_conns := reset_connection curr_fd (sv_conns s3)\<rparr>;
                   s5 = snd (syscalls (remove_from_epoll_interest_list k (epollfd (sv_ctx s4)) curr_fd) s4)
               in Some (call (Close curr_fd) s5)
             }
           else
             do {
               (sent, h) \<leftarrow> send_tcp_message k curr_fd (pending_message (sv_conns s1 ! nat curr_fd)) (sv_hist s1);
               let s2 = s1\<lparr>sv_hist := h,
                     sv_conns := (sv_conns s1)[nat curr_fd := (sv_conns s1 ! nat curr_fd)\<lparr>pending_message := []\<rparr>]\<rparr>
               in Some (call (Epoll_ctl (epollfd (sv_ctx s2)) EPOLL_CTL_MOD curr_fd [EPOLLIN, EPOLLONESHOT]) s2)
             })"

section \<open>Garbage collection\<close>

text \<open>One pass of the loop, with the number of messages it produced.\<close>

definition gc_pass :: "kernel \<Rightarrow> (nat \<Rightarrow> env) \<Rightarrow> server \<Rightarrow> (nat \<times> server) result" where
  "gc_pass k envs s =
     do {
       (outbox, s1) \<leftarrow> adapter_call envs None (- 1) None ACTION_CHECK_DEADNODES s;
       s2 \<leftarrow> send_outbox k outbox s1;
       Some (length outbox, s2)
     }"

partial_function (option) gc_bucle :: "kernel \<Rightarrow> (nat \<Rightarrow> env) \<Rightarrow> server \<Rightarrow> server option" where
  "gc_bucle k envs s =
     do {
       (outbox_count, s1) \<leftarrow> gc_pass k envs s;
       if 0 < outbox_count then gc_bucle k envs s1 else Some s1
     }"

definition handle_gc_timer_expiration :: "kernel \<Rightarrow> (nat \<Rightarrow> env) \<Rightarrow> server \<Rightarrow> server result" where
  "handle_gc_timer_expiration k envs s = gc_bucle k envs (call (Read (gc_timerfd (sv_ctx s))) s)"

end
