(* ===== verification/Adapter_Protocol.thy ===== *)
theory Adapter_Protocol
  imports Adapter_Safety
begin

text \<open>
  What the protocol of \<^verbatim>\<open>resource_adapter.c\<close> does, end to end: a message is formatted by one node, cut
  into lines and parsed by another, and the effect on the node and its answers are those of the
  specification of \<open>Inventory\<close> and of the table of jobs. Lemmas on the lines come first, then one
  section per kind of message, then the properties.
\<close>

section \<open>Lines on the wire\<close>

text \<open>The line of a message, as \<^verbatim>\<open>strtok_r\<close> cuts it out of the received bytes.\<close>

lemma petition_line:
  assumes "length word \<le> 20" "CHR ''\<newline>'' \<notin> set word" "word \<noteq> []"
  shows "strtok CHR ''\<newline>'' (petition_msg word jid p) =
    [word @ '' '' @ fmt_u jid @ '' '' @ res_text (jp_type p) @ '' '' @ fmt_u (jp_quantity p)]"
proof -
  let ?w = "word @ '' '' @ fmt_u jid @ '' '' @ res_text (jp_type p) @ '' '' @ fmt_u (jp_quantity p)"
  have "CHR ''\<newline>'' \<notin> set ?w"
    using assms(2) fmt_u_not [of "CHR ''\<newline>''"] by (auto simp: is_digit_def res_text_def)
  moreover have "petition_msg word jid p = ?w @ CHR ''\<newline>'' # []"
    using petition_msg_eq [OF assms(1), of jid p] by simp
  moreover have "?w \<noteq> []" using assms(3) by simp
  ultimately show ?thesis using strtok_word [of ?w "CHR ''\<newline>''" "[]"] by (simp add: strtok_def)
qed

lemma job_line:
  assumes "length word \<le> 20" "CHR ''\<newline>'' \<notin> set word" "word \<noteq> []"
  shows "strtok CHR ''\<newline>'' (job_msg word jid) = [word @ '' '' @ fmt_u jid]"
proof -
  let ?w = "word @ '' '' @ fmt_u jid"
  have "CHR ''\<newline>'' \<notin> set ?w"
    using assms(2) fmt_u_not [of "CHR ''\<newline>''"] by (auto simp: is_digit_def)
  moreover have "job_msg word jid = ?w @ CHR ''\<newline>'' # []"
    using length_job_msg_le [OF assms(1), of jid] by simp
  moreover have "?w \<noteq> []" using assms(3) by simp
  ultimately show ?thesis using strtok_word [of ?w "CHR ''\<newline>''" "[]"] by (simp add: strtok_def)
qed

lemma reserve_line: "strtok CHR ''\<newline>'' (petition_msg ''RESERVE'' jid p) =
    [''RESERVE'' @ '' '' @ fmt_u jid @ '' '' @ res_text (jp_type p) @ '' '' @ fmt_u (jp_quantity p)]"
  by (rule petition_line) simp_all

lemma release_line: "strtok CHR ''\<newline>'' (petition_msg ''RELEASE'' jid p) =
    [''RELEASE'' @ '' '' @ fmt_u jid @ '' '' @ res_text (jp_type p) @ '' '' @ fmt_u (jp_quantity p)]"
  by (rule petition_line) simp_all

lemma granted_line: "strtok CHR ''\<newline>'' (job_msg ''GRANTED'' jid) = [''GRANTED'' @ '' '' @ fmt_u jid]"
  by (rule job_line) simp_all

lemma denied_line: "strtok CHR ''\<newline>'' (job_msg ''DENIED'' jid) = [''DENIED'' @ '' '' @ fmt_u jid]"
  by (rule job_line) simp_all

lemma job_release_line: "strtok CHR ''\<newline>'' (job_msg ''JOB_RELEASE'' jid) = [''JOB_RELEASE'' @ '' '' @ fmt_u jid]"
  by (rule job_line) simp_all

lemma respond_reserve: "handle_respond env conns node ip socket (''RESERVE'' @ r) ob =
    handle_reserve env node socket (''RESERVE'' @ r) ob"
  by (simp add: handle_respond_def strncmp_eq_def)

lemma respond_granted: "handle_respond env conns node ip socket (''GRANTED'' @ r) ob =
    handle_granted node ip (get_connection_port conns (int_of_u32 socket)) (''GRANTED'' @ r) ob"
  by (simp add: handle_respond_def strncmp_eq_def)

lemma respond_denied: "handle_respond env conns node ip socket (''DENIED'' @ r) ob =
    handle_denied node (''DENIED'' @ r) ob"
  by (simp add: handle_respond_def strncmp_eq_def)

lemma respond_release: "handle_respond env conns node ip socket (''RELEASE'' @ r) ob =
    handle_release env node socket (''RELEASE'' @ r) ob"
  by (simp add: handle_respond_def strncmp_eq_def)

lemma respond_job_release: "handle_respond env conns node ip socket (''JOB_RELEASE'' @ r) ob =
    handle_job_release node (''JOB_RELEASE'' @ r) ob"
  by (simp add: handle_respond_def strncmp_eq_def)

lemma respond_job_request: "handle_respond env conns node ip socket (''JOB_REQUEST'' @ r) ob =
    handle_job_request env node socket (''JOB_REQUEST'' @ r) ob"
  by (simp add: handle_respond_def strncmp_eq_def)

lemma job_parse: "sscanf (lits w @ [Ws, Fu]) (w @ '' '' @ fmt_u jid) = [VU jid]"
  using sscanf_Ws_Fu [of "[]" "[]" jid] by (simp only: sscanf_lits) simp

text \<open>What a RESERVE does to the node, and the answer.\<close>

definition reserve_reply :: "u32 \<Rightarrow> u32 \<Rightarrow> int \<Rightarrow> outbox_t \<Rightarrow> outbox_t" where
  "reserve_reply jid socket result outbox =
     (if result = 1 then add_to_outbox outbox (job_msg ''GRANTED'' jid) (int_of_u32 socket) None 0
      else if result = - 1 then add_to_outbox outbox (job_msg ''DENIED'' jid) (int_of_u32 socket) None 0
      else outbox)"

lemma respond_reserve_line:
  assumes type: "type \<noteq> INVALID_RES_TYPE"
  shows "handle_respond env conns node ip socket
      (''RESERVE'' @ '' '' @ fmt_u jid @ '' '' @ res_text type @ '' '' @ fmt_u quantity) outbox =
    map_option (\<lambda>(result, r, j). (node\<lparr>resources := r, active_jobs := j\<rparr>, reserve_reply jid socket result outbox))
      (new_job_request (env_mem env 0) (resources node) (active_jobs node) jid socket quantity type)"
proof -
  have "sscanf (lits ''RESERVE'' @ [Ws, Fu, Ws, Fs None, Ws, Fu])
      (''RESERVE'' @ '' '' @ fmt_u jid @ '' '' @ res_text type @ '' '' @ fmt_u quantity) =
      [VU jid, VS (res_text type), VU quantity]"
    unfolding sscanf_lits using petition_parse [of None jid type quantity] by simp
  then show ?thesis
    unfolding respond_reserve handle_reserve_def using type
    by (cases "new_job_request (env_mem env 0) (resources node) (active_jobs node) jid socket quantity type")
      (simp_all add: reserve_type_text Let_def reserve_reply_def split: prod.split)
qed

section \<open>Releases\<close>

text \<open>The message \<^verbatim>\<open>chk_job_request\<close> writes for a job; \<^verbatim>\<open>%d\<close> prints the upper half of the numbers negative.\<close>

definition wake_msg :: "u32 \<Rightarrow> string" where
  "wake_msg jid = snprintf 64 (''GRANTED '' @ fmt_d (int_of_u32 jid) @ ''\<newline>'')"

definition send_wakes :: "(u32 \<times> u32) list \<Rightarrow> outbox_t \<Rightarrow> outbox_t" where
  "send_wakes served outbox =
     fold (\<lambda>(jid, s) ob. add_to_outbox ob (wake_msg jid) (int_of_u32 s) None 0) served outbox"

lemma chk_bucle_word:
  "chk_bucle mem init idxs (int_of_u32 v) sock R J = Some (out, sock', R', J') \<Longrightarrow> \<exists>w. out = int_of_u32 w"
proof (induction idxs arbitrary: v sock R J)
  case (Cons idx idxs)
  from Cons.prems show ?case
    by (auto simp: Let_def split: if_splits option.splits intro: Cons.IH)
qed auto

lemma chk_out_word:
  assumes "chk_job_request rnd mem R J OUT n sock = Some (out, OUT', sock', R', J')"
  shows "int_of_u32 (u32_of_int out) = out"
proof -
  have m: "- 1 = int_of_u32 (- 1)" by (simp add: int_of_u32_def)
  have "\<exists>w. out = int_of_u32 w"
    using assms chk_bucle_word [of mem "rnd mod RES_NUM" "[0..<RES_NUM]" "- 1" sock R J out sock' R' J'] m
    by (auto simp: chk_job_request_def split: option.splits)
  then show ?thesis by auto
qed

lemma release_bucle_drains:
  assumes "lr_exact R J" "th_room (lr_waiting R) J" "lr_ids_ok R" "env_ok env"
  shows "\<exists>R' J' served. release_bucle env k R J msg q outbox = Some (R', J', send_wakes served outbox) \<and>
    spec_drain (abs_inventory R J) served (abs_inventory R' J') \<and> inv_idle (abs_inventory R' J') \<and>
    lr_exact R' J' \<and> lr_ids_ok R'"
  using assms(1-3)
proof (induction "lr_waiting R" arbitrary: k R J msg q outbox rule: less_induct)
  case less
  have mem: "env_mem env i" for i using assms(4) by (simp add: env_ok_def)
  have "th_room (0 + lr_waiting R) J" using less.prems(2) by simp
  from chk_job_request_room [OF lr_exactD(1) [OF less.prems(1)] this, where mem = "\<lambda>i. env_mem env (3 + 3 * k + i)" and
      rnd = "env_rnd env k" and OUT = msg and n = 64 and s = q] mem
  obtain out msg' s' R1 J1 where run: "chk_job_request (env_rnd env k) (\<lambda>i. env_mem env (3 + 3 * k + i)) R J msg 64 (Some q) =
      Some (out, msg', Some s', R1, J1)" and room: "th_room (lr_waiting R1) J1" by auto
  note S = chk_spec [OF less.prems(1) run less.prems(3)]
  show ?case
  proof (cases "out = - 1")
    case True
    with S run less.prems show ?thesis
      by (subst release_bucle.simps) (auto intro!: exI [of _ "[]"] spec_drain.intros simp: send_wakes_def)
  next
    case False
    let ?x = "(u32_of_int out, s')"
    have msg': "msg' = wake_msg (u32_of_int out)"
      using S False chk_out_word [OF run] by (simp add: wake_msg_def)
    have serve: "spec_serve (abs_inventory R J) ?x (abs_inventory R1 J1)" using S False by simp
    have "lr_waiting R1 < lr_waiting R" using chk_waiting [OF run False] .
    from less.hyps [OF this _ room, of "Suc k" msg' s' "send_wakes [?x] outbox"] S obtain R' J' served where
      IH: "release_bucle env (Suc k) R1 J1 msg' s' (send_wakes [?x] outbox) = Some (R', J', send_wakes served (send_wakes [?x] outbox))"
        "spec_drain (abs_inventory R1 J1) served (abs_inventory R' J')" "inv_idle (abs_inventory R' J')"
        "lr_exact R' J'" "lr_ids_ok R'" by blast
    have "release_bucle env k R J msg q outbox = Some (R', J', send_wakes (?x # served) outbox)"
      using run False IH(1) msg' by (subst release_bucle.simps) (simp add: send_wakes_def)
    with IH(2-5) spec_drain.intros(2) [OF serve IH(2)] show ?thesis by blast
  qed
qed

lemma wake_parse: "sscanf (lits ''GRANTED'' @ [Ws, Fu]) (''GRANTED'' @ '' '' @ fmt_d (int_of_u32 jid)) = [VU jid]"
  unfolding sscanf_lits by (simp add: fmt_d_start scan_u_fmt_d)

lemma wake_line: "strtok CHR ''\<newline>'' (wake_msg jid) = [''GRANTED'' @ '' '' @ fmt_d (int_of_u32 jid)]"
proof -
  let ?w = "''GRANTED'' @ '' '' @ fmt_d (int_of_u32 jid)"
  have "CHR ''\<newline>'' \<notin> set ?w" using fmt_d_chars [of "CHR ''\<newline>''" "int_of_u32 jid"] by (auto simp: is_digit_def)
  moreover have "wake_msg jid = ?w @ CHR ''\<newline>'' # []"
    using length_fmt_d [of jid] by (simp add: wake_msg_def snprintf_def)
  ultimately show ?thesis using strtok_word [of ?w "CHR ''\<newline>''" "[]"] by (simp add: strtok_def)
qed

lemma respond_release_line:
  shows "handle_respond env conns node ip socket
      (''RELEASE'' @ '' '' @ fmt_u jid @ '' '' @ res_text type @ '' '' @ fmt_u quantity) outbox =
    do {
      (r1, j1) \<leftarrow> del_active_job (\<lambda>t. env_mem env (res_index t)) (resources node) (active_jobs node) jid socket;
      (r2, j2, outbox') \<leftarrow> release_bucle env 0 r1 j1 [] 0 outbox;
      Some (node\<lparr>resources := r2, active_jobs := j2\<rparr>, outbox')
    }"
proof -
  have "sscanf (lits ''RELEASE'' @ [Ws, Fu, Ws, Fs (Some 9), Ws, Fu])
      (''RELEASE'' @ '' '' @ fmt_u jid @ '' '' @ res_text type @ '' '' @ fmt_u quantity) =
      [VU jid, VS (res_text type), VU quantity]"
    unfolding sscanf_lits using petition_parse [of "Some 9" jid type quantity] by simp
  then show ?thesis unfolding respond_release handle_release_def by simp
qed

section \<open>Answers to the node's own jobs\<close>

definition send_reserve :: "u32 \<Rightarrow> job_petition_t \<Rightarrow> outbox_t \<Rightarrow> outbox_t" where
  "send_reserve jid p outbox = add_to_outbox outbox (petition_msg ''RESERVE'' jid p) (- 1) (jp_ip p) (jp_port p)"

text \<open>The node answered is the one asked last, while it is awaited.\<close>

definition oj_awaits :: "elem_owned_job_t \<Rightarrow> string \<Rightarrow> u32 \<Rightarrow> bool" where
  "oj_awaits job ip port \<longleftrightarrow> oj_outstanding job \<and> jp_port (oj_petitions job ! oj_grants job) = port \<and>
     jp_ip (oj_petitions job ! oj_grants job) = Some ip"

lemma respond_granted_line:
  "handle_respond env conns node ip socket (''GRANTED'' @ '' '' @ fmt_u jid) outbox =
    (if get_connection_port conns (int_of_u32 socket) = 0 then Some (node, outbox)
     else do {
       (grant_result, jobs1) \<leftarrow> mark_petition_as_granted (owned_jobs node) jid ip (get_connection_port conns (int_of_u32 socket));
       (if grant_result = 1 then
          do {
            owner_socket \<leftarrow> get_job_owner_socket jobs1 jid;
            Some (node\<lparr>owned_jobs := jobs1\<rparr>,
              add_to_outbox outbox (job_msg ''JOB_GRANTED'' jid) (int_of_u32 owner_socket) None 0)
          }
        else if grant_result = 0 then
          do {
            (jobs2, outbox') \<leftarrow> send_next_reserve jobs1 jid outbox;
            Some (node\<lparr>owned_jobs := jobs2\<rparr>, outbox')
          }
        else Some (node\<lparr>owned_jobs := jobs1\<rparr>, outbox))
     })"
  unfolding respond_granted handle_granted_def job_parse by simp

lemma oj_grant_simps [simp]:
  "oj_owner_socket (oj_grant job) = oj_owner_socket job" "oj_next_reserve_idx (oj_grant job) = oj_next_reserve_idx job"
  "oj_job_id (oj_grant job) = oj_job_id job"
  by (simp_all add: oj_grant_def Let_def)

lemma respond_granted_spec:
  assumes inv: "oj_inv (owned_jobs node)" and job: "oj_job (owned_jobs node) jid = Some job"
    and port: "get_connection_port conns (int_of_u32 socket) = port" "port \<noteq> 0"
    and aw: "oj_awaits job ip port"
  shows "\<exists>jobs'. oj_inv jobs' \<and>
    handle_respond env conns node (Some ip) socket (''GRANTED'' @ '' '' @ fmt_u jid) outbox =
      Some (node\<lparr>owned_jobs := jobs'\<rparr>,
        if Suc (oj_grants job) = petition_count job
        then add_to_outbox outbox (job_msg ''JOB_GRANTED'' jid) (int_of_u32 (oj_owner_socket job)) None 0
        else send_reserve jid (oj_petitions job ! Suc (oj_grants job)) outbox) \<and>
    oj_job jobs' = (oj_job (owned_jobs node))(jid \<mapsto>
      (if Suc (oj_grants job) = petition_count job then oj_grant job else oj_advance (oj_grant job)))"
proof -
  let ?jobs = "owned_jobs node" and ?g = "oj_grants job"
  note D = oj_invD [OF inv] and ok = oj_invD(2) [OF inv job]
  have out: "oj_outstanding job" "jp_port (oj_petitions job ! ?g) = port" "jp_ip (oj_petitions job ! ?g) = Some ip"
    using aw by (simp_all add: oj_awaits_def)
  note G = oj_grant_ok [OF ok out(1)]
  obtain jobs1 where m: "mark_petition_as_granted ?jobs jid (Some ip) port =
      Some (if Suc ?g = petition_count job then 1 else 0, jobs1)" "oj_tab jobs1" "oj_job jobs1 = (oj_job ?jobs)(jid \<mapsto> oj_grant job)"
    using mark_counts [OF D(1) job ok out] by blast
  have inv1: "oj_inv jobs1" using m(3) D(2) G by (intro oj_invI m(2)) (auto split: if_splits)
  have job1: "oj_job jobs1 jid = Some (oj_grant job)" using m(3) by simp
  show ?thesis
  proof (cases "Suc ?g = petition_count job")
    case True
    have "get_job_owner_socket jobs1 jid = Some (oj_owner_socket job)"
      by (simp add: get_job_owner_socket_def oj_buscar [OF m(2)] job1)
    with True m inv1 port show ?thesis by (simp only: respond_granted_line) auto
  next
    case False
    have idx: "oj_next_reserve_idx (oj_grant job) = Suc ?g" using out(1) by (simp add: oj_outstanding_def)
    have less: "oj_next_reserve_idx (oj_grant job) < petition_count (oj_grant job)"
      using False G oj_okD(5) [OF ok] idx by simp
    obtain jobs2 where n: "get_next_reserve jobs1 jid = Some (Some (oj_petitions (oj_grant job) ! Suc ?g), jobs2)"
      "oj_tab jobs2" "oj_job jobs2 = (oj_job jobs1)(jid \<mapsto> oj_advance (oj_grant job))"
      using next_some [OF m(2) job1 _ less] G idx by auto
    have "oj_petitions (oj_grant job) ! Suc ?g = oj_petitions job ! Suc ?g" by (simp add: oj_grant_def Let_def)
    moreover have "oj_inv jobs2"
      using n(3) oj_invD(2) [OF inv1] oj_advance_ok [OF _ _ less] G by (intro oj_invI n(2)) (auto split: if_splits)
    ultimately show ?thesis
      using False m n port by (simp only: respond_granted_line) (auto simp: send_next_reserve_def send_reserve_def)
  qed
qed

lemma respond_granted_ignored:
  assumes inv: "oj_inv (owned_jobs node)" and port: "get_connection_port conns (int_of_u32 socket) = port"
    and no: "port = 0 \<or> (\<forall>job. oj_job (owned_jobs node) jid = Some job \<longrightarrow> \<not> oj_awaits job ip port)"
  shows "handle_respond env conns node (Some ip) socket (''GRANTED'' @ '' '' @ fmt_u jid) outbox = Some (node, outbox)"
proof (cases "port = 0")
  case False
  then have "mark_petition_as_granted (owned_jobs node) jid (Some ip) port = Some (- 1, owned_jobs node)"
    using no mark_unknown [OF oj_invD(1) [OF inv]] mark_ignored [OF oj_invD(1) [OF inv] _ oj_invD(2) [OF inv]]
    by (cases "oj_job (owned_jobs node) jid") (auto simp: oj_awaits_def)
  with port False show ?thesis by (simp only: respond_granted_line) simp
qed (simp only: respond_granted_line port, simp)

section \<open>Messages that fit the outbox\<close>

definition out_release :: "u32 \<Rightarrow> job_petition_t \<Rightarrow> out_msg_t" where
  "out_release jid p = \<lparr>target_ip = take 15 (the (jp_ip p)), target_port = int_of_u32 (jp_port p), target_fd = - 1,
     message = petition_msg ''RELEASE'' jid p\<rparr>"

definition out_notice :: "u32 \<Rightarrow> string \<Rightarrow> u32 \<Rightarrow> out_msg_t" where
  "out_notice socket word jid = \<lparr>target_ip = [], target_port = 0, target_fd = int_of_u32 socket, message = job_msg word jid\<rparr>"

lemma snprintf_short: "length s < n \<Longrightarrow> snprintf n s = s"
  by (simp add: snprintf_def)

lemma petition_msg_short: "snprintf BUFFER_SIZE (petition_msg word jid p) = petition_msg word jid p"
  by (rule snprintf_short) (simp add: petition_msg_def snprintf_def BUFFER_SIZE_def)

lemma job_msg_short: "snprintf BUFFER_SIZE (job_msg word jid) = job_msg word jid"
  by (rule snprintf_short) (simp add: job_msg_def snprintf_def BUFFER_SIZE_def)

lemma add_notice:
  assumes "length outbox < MAX_OUTBOX"
  shows "add_to_outbox outbox (job_msg word jid) (int_of_u32 socket) None 0 = outbox @ [out_notice socket word jid]"
  using assms by (simp add: add_to_outbox_def out_notice_def job_msg_short int_of_u32_def)

lemma send_releases_fits:
  assumes "length outbox + length ps \<le> MAX_OUTBOX" "\<forall>p \<in> set ps. jp_ip p \<noteq> None"
  shows "send_releases jid ps outbox = outbox @ map (out_release jid) ps"
  using assms
proof (induction ps arbitrary: outbox)
  case (Cons p ps)
  obtain ip where "jp_ip p = Some ip" using Cons.prems(2) by auto
  then have "add_to_outbox outbox (petition_msg ''RELEASE'' jid p) (- 1) (jp_ip p) (jp_port p) = outbox @ [out_release jid p]"
    using Cons.prems(1) by (simp add: add_to_outbox_def out_release_def petition_msg_short strncpy_def)
  with Cons.IH [of "outbox @ [out_release jid p]"] Cons.prems show ?case by (simp add: send_releases_def)
qed (simp add: send_releases_def)

section \<open>Rollback\<close>

lemma granted_prefix:
  assumes inv: "oj_inv jobs" and job: "oj_job jobs jid = Some job"
  shows "get_granted_resources jobs jid MAX_JOB_RESOURCES = Some (take (oj_grants job) (oj_petitions job)) \<and>
    (\<forall>p \<in> set (take (oj_grants job) (oj_petitions job)). jp_ip p \<noteq> None) \<and>
    length (take (oj_grants job) (oj_petitions job)) \<le> MAX_JOB_RESOURCES"
proof -
  note ok = oj_invD(2) [OF inv job]
  have "oj_grants job \<le> MAX_JOB_RESOURCES" using oj_okD(1) [OF ok] oj_ok_grants_le [OF ok] by simp
  with granted_resources_eq [OF oj_invD(1) [OF inv] job ok, of MAX_JOB_RESOURCES] oj_okD(2) [OF ok] show ?thesis
    by (auto simp: min_def dest: in_set_takeD)
qed

lemma abort_job_spec:
  assumes inv: "oj_inv jobs" and job: "oj_job jobs jid = Some job"
    and fits: "length outbox + oj_grants job < MAX_OUTBOX"
  shows "\<exists>jobs'. abort_job word jid jobs outbox = Some (jobs', outbox @
      map (out_release jid) (take (oj_grants job) (oj_petitions job)) @ [out_notice (oj_owner_socket job) word jid]) \<and>
    oj_inv jobs' \<and> oj_job jobs' = (oj_job jobs)(jid := None)"
proof -
  let ?ps = "take (oj_grants job) (oj_petitions job)"
  note G = granted_prefix [OF inv job]
  obtain jobs' where rem: "remove_owned_job jobs jid = Some jobs'" "oj_inv jobs'" "oj_job jobs' = (oj_job jobs)(jid := None)"
    using ojp.remove_job_inv [OF inv] by blast
  have own: "get_job_owner_socket jobs jid = Some (oj_owner_socket job)"
    by (simp add: get_job_owner_socket_def oj_buscar [OF oj_invD(1) [OF inv]] job)
  have "send_releases jid ?ps outbox = outbox @ map (out_release jid) ?ps"
    by (rule send_releases_fits) (use G fits in auto)
  then have "add_to_outbox (send_releases jid ?ps outbox) (job_msg word jid) (int_of_u32 (oj_owner_socket job)) None 0 =
      outbox @ map (out_release jid) ?ps @ [out_notice (oj_owner_socket job) word jid]"
    using fits by (simp add: add_notice)
  with G own rem show ?thesis by (simp add: abort_job_def)
qed

text \<open>A job that is not known: the owner is taken to be descriptor 0.\<close>

lemma abort_job_unknown:
  assumes inv: "oj_inv jobs" and job: "oj_job jobs jid = None" and fits: "length outbox < MAX_OUTBOX"
  shows "\<exists>jobs'. abort_job word jid jobs outbox = Some (jobs', outbox @ [out_notice 0 word jid]) \<and>
    oj_inv jobs' \<and> oj_job jobs' = oj_job jobs"
proof -
  obtain jobs' where rem: "remove_owned_job jobs jid = Some jobs'" "oj_inv jobs'" "oj_job jobs' = (oj_job jobs)(jid := None)"
    using ojp.remove_job_inv [OF inv] by blast
  have "get_granted_resources jobs jid MAX_JOB_RESOURCES = Some []" "get_job_owner_socket jobs jid = Some 0"
    using job by (simp_all add: get_granted_resources_def get_job_owner_socket_def oj_buscar [OF oj_invD(1) [OF inv]])
  with rem fits job show ?thesis by (simp add: abort_job_def send_releases_def add_notice fun_upd_idem)
qed

lemma respond_denied_line:
  "handle_respond env conns node ip socket (''DENIED'' @ '' '' @ fmt_u jid) outbox =
    map_option (\<lambda>(jobs', outbox'). (node\<lparr>owned_jobs := jobs'\<rparr>, outbox'))
      (abort_job ''JOB_DENIED'' jid (owned_jobs node) outbox)"
  unfolding respond_denied handle_denied_def job_parse
  by (cases "abort_job ''JOB_DENIED'' jid (owned_jobs node) outbox") auto

lemma respond_job_release_line:
  "handle_respond env conns node ip socket (''JOB_RELEASE'' @ '' '' @ fmt_u jid) outbox =
    do {
      ps \<leftarrow> get_granted_resources (owned_jobs node) jid MAX_JOB_RESOURCES;
      jobs' \<leftarrow> remove_owned_job (owned_jobs node) jid;
      Some (node\<lparr>owned_jobs := jobs'\<rparr>, send_releases jid ps outbox)
    }"
  unfolding respond_job_release handle_job_release_def job_parse by simp

section \<open>New jobs\<close>

text \<open>A petition as the scheduler writes it, \<^verbatim>\<open>@ip:port:type:quantity\<close>.\<close>

definition job_token :: "string \<times> u32 \<times> resource_t \<times> u32 \<Rightarrow> string" where
  "job_token t = (case t of (ip, port, type, quantity) \<Rightarrow>
     ''@'' @ ip @ '':'' @ fmt_u port @ '':'' @ res_text type @ '':'' @ fmt_u quantity)"

definition request_line :: "u32 \<Rightarrow> (string \<times> u32 \<times> resource_t \<times> u32) list \<Rightarrow> string" where
  "request_line jid ts = (''JOB_REQUEST'' @ '' '' @ fmt_u jid) @ concat (map (\<lambda>t. CHR '' '' # job_token t) ts)"

definition token_ok :: "string \<times> u32 \<times> resource_t \<times> u32 \<Rightarrow> bool" where
  "token_ok t = (case t of (ip, port, type, quantity) \<Rightarrow> ip \<noteq> [] \<and> length ip \<le> 15 \<and> CHR '':'' \<notin> set ip \<and>
     CHR '' '' \<notin> set ip \<and> type \<noteq> INVALID_RES_TYPE)"

definition token_petition :: "string \<times> u32 \<times> resource_t \<times> u32 \<Rightarrow> job_petition_t" where
  "token_petition t = (case t of (ip, port, type, quantity) \<Rightarrow>
     \<lparr>jp_ip = Some ip, jp_port = port, jp_type = type, jp_quantity = quantity, jp_is_granted = 0\<rparr>)"

lemma strtok_concat:
  assumes "w \<noteq> []" "d \<notin> set w" "\<forall>x \<in> set ws. x \<noteq> [] \<and> d \<notin> set x"
  shows "strtok d (w @ concat (map (Cons d) ws)) = w # ws"
  using assms
proof (induction ws arbitrary: w)
  case (Cons x ws)
  then have "strtok d (x @ concat (map (Cons d) ws)) = x # ws" by simp
  with strtok_word [OF Cons.prems(1,2), of "x @ concat (map (Cons d) ws)"] show ?case by simp
qed (simp add: strtok_end)

lemma job_token_chars: "token_ok t \<Longrightarrow> job_token t \<noteq> [] \<and> CHR '' '' \<notin> set (job_token t)"
  using fmt_u_not [of "CHR '' ''"] by (auto simp: token_ok_def job_token_def res_text_def split: prod.splits)

lemma scan_not_stop:
  assumes "w \<noteq> []" "length w \<le> n" "d \<notin> set w"
  shows "scan_not n d (w @ d # r) = Some (w, d # r)"
proof -
  have "takeWhile (\<lambda>c. c \<noteq> d) (w @ d # r) = w"
    using assms(3) by (induction w) auto
  with assms(1,2) show ?thesis by (simp add: scan_not_def Let_def)
qed

lemma job_token_parse:
  assumes "token_ok (ip, port, type, quantity)"
  shows "sscanf petition_fmt (job_token (ip, port, type, quantity)) =
    [VS ip, VU port, VS (res_text type), VU quantity] \<and> petition_type (res_text type) = type"
proof -
  have nd: "\<not> is_digit CHR '':''" by (simp add: is_digit_def)
  have "scan_not 9 CHR '':'' (res_text type @ CHR '':'' # fmt_u quantity) = Some (res_text type, CHR '':'' # fmt_u quantity)"
    by (rule scan_not_stop) (auto simp: res_text_def)
  moreover have "scan_not 15 CHR '':'' (ip @ CHR '':'' # r) = Some (ip, CHR '':'' # r)" for r
    using assms by (intro scan_not_stop) (auto simp: token_ok_def)
  moreover have "scan_u (fmt_u quantity) = Some (quantity, [])" using scan_u_fmt_u [of "[]" quantity] by simp
  ultimately have "sscanf petition_fmt (job_token (ip, port, type, quantity)) =
      [VS ip, VU port, VS (res_text type), VU quantity]"
    using nd by (simp add: petition_fmt_def job_token_def)
  moreover have "petition_type (res_text type) = type"
    using assms by (cases type) (simp_all add: token_ok_def petition_type_def res_text_def)
  ultimately show ?thesis by blast
qed

lemma peticiones_bucle_spec:
  assumes "oj_tab jobs" "oj_job jobs jid = Some job" "list_all token_ok ts" "\<And>i. mem i"
    and "petition_count job + length ts \<le> MAX_JOB_RESOURCES"
  shows "\<exists>jobs'. peticiones_bucle mem i jid (map job_token ts) jobs = Some jobs' \<and> oj_tab jobs' \<and>
    oj_job jobs' = (oj_job jobs)(jid \<mapsto> job\<lparr>oj_petitions := oj_petitions job @ map token_petition ts\<rparr>) \<and>
    (th_room k jobs \<longrightarrow> th_room k jobs')"
  using assms
proof (induction ts arbitrary: i jobs job)
  case (Cons t ts)
  obtain ip port type quantity where t: "t = (ip, port, type, quantity)" by (cases t)
  have parse: "sscanf petition_fmt (job_token t) = [VS ip, VU port, VS (res_text type), VU quantity]"
    "petition_type (res_text type) = type" using job_token_parse Cons.prems(3) by (auto simp: t)
  let ?job = "job\<lparr>oj_petitions := oj_petitions job @ [token_petition t]\<rparr>"
  obtain jobs1 where a: "append_petition_to_job (mem i) jobs jid ip port type quantity = Some (1, jobs1)" "oj_tab jobs1"
    "oj_job jobs1 = (oj_job jobs)(jid \<mapsto> ?job)" "th_room k jobs \<longrightarrow> th_room k jobs1"
    using append_petition_spec [OF Cons.prems(1,2), of "mem i" ip port type quantity] Cons.prems(4) [of i] Cons.prems(5)
    by (auto simp: t token_petition_def th_room_def)
  have "oj_job jobs1 jid = Some ?job" using a(3) by simp
  moreover have "list_all token_ok ts" "petition_count ?job + length ts \<le> MAX_JOB_RESOURCES"
    using Cons.prems(3,5) by simp_all
  ultimately obtain jobs' where
    "peticiones_bucle mem (Suc i) jid (map job_token ts) jobs1 = Some jobs'" "oj_tab jobs'"
    "oj_job jobs' = (oj_job jobs1)(jid \<mapsto> ?job\<lparr>oj_petitions := oj_petitions ?job @ map token_petition ts\<rparr>)"
    "th_room k jobs1 \<longrightarrow> th_room k jobs'"
    using Cons.IH [OF a(2), of ?job "Suc i"] Cons.prems(4) by blast
  with parse a(1,3,4) show ?case by (intro exI [of _ jobs']) simp
qed (simp add: fun_upd_idem)

text \<open>The line is read back, and registers a job that has sent nothing yet.\<close>

lemma request_parse: "ts \<noteq> [] \<Longrightarrow> sscanf (lits ''JOB_REQUEST'' @ [Ws, Fu]) (request_line jid ts) = [VU jid]"
  using sscanf_Ws_Fu [of "concat (map (\<lambda>t. CHR '' '' # job_token t) ts)" "[]" jid]
  by (cases ts) (simp_all only: request_line_def sscanf_lits append_assoc, simp_all)

lemma request_tokens:
  assumes "list_all token_ok ts"
  shows "strtok CHR '' '' (request_line jid ts) = ''JOB_REQUEST'' # fmt_u jid # map job_token ts"
proof -
  have "strtok CHR '' '' (''JOB_REQUEST'' @ CHR '' '' # (fmt_u jid @ concat (map (Cons CHR '' '') (map job_token ts)))) =
      ''JOB_REQUEST'' # fmt_u jid # map job_token ts"
  proof (subst strtok_word)
    show "''JOB_REQUEST'' # strtok CHR '' '' (fmt_u jid @ concat (map (Cons CHR '' '') (map job_token ts))) =
        ''JOB_REQUEST'' # fmt_u jid # map job_token ts"
      using assms job_token_chars fmt_u_Cons [of jid] fmt_u_not [of "CHR '' ''" jid]
      by (subst strtok_concat) (auto simp: list_all_iff)
  qed simp_all
  then show ?thesis by (simp add: request_line_def comp_def)
qed

definition new_job :: "u32 \<Rightarrow> u32 \<Rightarrow> int \<Rightarrow> (string \<times> u32 \<times> resource_t \<times> u32) list \<Rightarrow> elem_owned_job_t" where
  "new_job jid socket now ts = (oj_dummy jid)\<lparr>oj_owner_socket := socket, oj_created_at := now, oj_petitions := map token_petition ts\<rparr>"

lemma new_job_simps [simp]:
  "oj_petitions (new_job jid socket now ts) = map token_petition ts" "oj_next_reserve_idx (new_job jid socket now ts) = 0"
  by (simp_all add: new_job_def oj_dummy_def)

lemma new_job_ok:
  assumes "length ts \<le> MAX_JOB_RESOURCES"
  shows "oj_ok (new_job jid socket now ts) \<and> \<not> oj_outstanding (new_job jid socket now ts)"
  using assms by (cases ts) (auto simp: new_job_def oj_ok_def oj_outstanding_def oj_grants_def oj_dummy_def list_all_iff token_petition_def
      split: prod.split)

lemma register_spec:
  assumes tab: "oj_tab jobs" and room: "th_room (Suc k) jobs" and mem: "\<And>i. mem i"
    and ts: "list_all token_ok ts" "length ts \<le> MAX_JOB_RESOURCES"
  shows "\<exists>jobs1 jobs2. add_new_owned_job True now jobs jid socket = Some (1, jobs1) \<and>
    peticiones_bucle mem 0 jid (map job_token ts) jobs1 = Some jobs2 \<and> oj_tab jobs2 \<and> th_room k jobs2 \<and>
    oj_job jobs2 = (oj_job jobs)(jid \<mapsto> new_job jid socket now ts)"
proof -
  let ?new = "(oj_dummy jid)\<lparr>oj_owner_socket := socket, oj_created_at := now\<rparr>"
  obtain jobs1 where a: "add_new_owned_job True now jobs jid socket = Some (1, jobs1)" "oj_tab jobs1" "th_room k jobs1"
    "oj_job jobs1 = (oj_job jobs)(jid \<mapsto> ?new)" using add_new_job_spec [OF tab room] by blast
  have "oj_job jobs1 jid = Some ?new" using a(4) by simp
  from peticiones_bucle_spec [OF a(2) this ts(1), where mem = mem and i = 0 and k = k] mem ts(2) a
  show ?thesis by (auto simp: new_job_def oj_dummy_def)
qed

lemma respond_job_request_spec:
  assumes inv: "oj_inv (owned_jobs node)" and room: "th_room 1 (owned_jobs node)" and env: "env_ok env"
    and ts: "list_all token_ok ts" "ts \<noteq> []" "length ts \<le> MAX_JOB_RESOURCES"
  shows "\<exists>jobs'. handle_respond env conns node ip socket (request_line jid ts) [] =
      Some (node\<lparr>owned_jobs := jobs'\<rparr>, send_reserve jid (token_petition (hd ts)) []) \<and> oj_inv jobs' \<and>
    oj_job jobs' = (oj_job (owned_jobs node))(jid \<mapsto>
      \<lparr>oj_job_id = jid, oj_owner_socket = socket, oj_grant_notified = 0, oj_created_at = env_now env,
       oj_next_reserve_idx = 1, oj_petitions = map token_petition ts\<rparr>)"
proof -
  have mem: "env_mem env i" for i using env by (simp add: env_ok_def)
  let ?job = "new_job jid socket (env_now env) ts"
  have "th_room (Suc 0) (owned_jobs node)" using room by simp
  from register_spec [OF oj_invD(1) [OF inv] this, of "\<lambda>i. env_mem env (2 + i)" ts "env_now env" jid socket] mem ts(1,3)
  obtain jobs1 jobs2 where a: "add_new_owned_job True (env_now env) (owned_jobs node) jid socket = Some (1, jobs1)"
    "peticiones_bucle (\<lambda>i. env_mem env (2 + i)) 0 jid (map job_token ts) jobs1 = Some jobs2" "oj_tab jobs2"
    "oj_job jobs2 = (oj_job (owned_jobs node))(jid \<mapsto> ?job)" by blast
  have job2: "oj_job jobs2 jid = Some ?job" using a(4) by simp
  note ok = new_job_ok [OF ts(3), of jid socket "env_now env"]
  have less: "oj_next_reserve_idx ?job < petition_count ?job" using ts(2) by simp
  obtain jobs3 where n: "get_next_reserve jobs2 jid = Some (Some (oj_petitions ?job ! oj_next_reserve_idx ?job), jobs3)"
    "oj_tab jobs3" "oj_job jobs3 = (oj_job jobs2)(jid \<mapsto> oj_advance ?job)"
    using next_some [OF a(3) job2 _ less] ok by blast
  have inv3: "oj_inv jobs3"
    using n(3) a(4) oj_invD(2) [OF inv] oj_advance_ok [OF _ _ less] ok by (intro oj_invI n(2)) (auto split: if_splits)
  have hd: "oj_petitions ?job ! oj_next_reserve_idx ?job = token_petition (hd ts)" using ts(2) by (simp add: hd_conv_nth)
  have "handle_respond env conns node ip socket (request_line jid ts) [] =
      handle_job_request env node socket (request_line jid ts) []"
    unfolding request_line_def append_assoc by (rule respond_job_request)
  then have "handle_respond env conns node ip socket (request_line jid ts) [] =
      Some (node\<lparr>owned_jobs := jobs3\<rparr>, send_reserve jid (token_petition (hd ts)) [])"
    unfolding handle_job_request_def request_parse [OF ts(2)] request_tokens [OF ts(1)]
    using mem a(1,2) n(1) hd by (simp add: numeral_2_eq_2 send_next_reserve_def send_reserve_def)
  with inv3 n(3) a(4) show ?thesis by (intro exI [of _ jobs3]) (simp add: oj_advance_def new_job_def oj_dummy_def)
qed

section \<open>Announcements\<close>

lemma atoi_fmt_u: "u32_of_int (atoi (fmt_u w)) = w"
proof -
  have "uint w < 2 ^ LENGTH(32)" by (rule unsigned_less)
  then have "min 9223372036854775807 (uint w) = uint w" by simp
  then have "atoi (fmt_u w) = int_of_u32 w"
    using scan_dec_of_nat [of "[]" "unat w"] by (simp add: atoi_def fmt_u_def Let_def)
  then show ?thesis by simp
qed

lemma fmt_d_port:
  assumes "0 < port" "port < 2 ^ 31"
  shows "fmt_d port = fmt_u (u32_of_int port) \<and> 0 < u32_of_int port"
  using fmt_d_nonneg [of port] assms by (simp add: word_less_nat_alt)

lemma announce_msg_eq:
  assumes "0 < port" "port < 2 ^ 31"
  shows "announce_msg port cpu ram gpu = ''ANNOUNCE'' @ concat (map (Cons CHR '' '')
    [fmt_u (u32_of_int port), ''cpu:'' @ fmt_u cpu, ''mem:'' @ fmt_u ram, ''gpu:'' @ fmt_u gpu])"
  using fmt_d_port [OF assms] length_fmt_u [of "u32_of_int port"] length_fmt_u [of cpu] length_fmt_u [of ram] length_fmt_u [of gpu]
  by (simp add: announce_msg_def snprintf_def)

lemma announced_spec:
  assumes port: "0 < port" "port < 2 ^ 31" and mem: "env_mem env 0" "env_mem env 1"
    and tab: "kn_tab (known_nodes node)" and room: "th_room 1 (known_nodes node)"
  shows "\<exists>known'. handle_node_announced env node (Some ip) (announce_msg port cpu ram gpu) =
      Some (node\<lparr>known_nodes := known'\<rparr>) \<and> kn_tab known' \<and>
    kn_map known' = (kn_map (known_nodes node))((ip, u32_of_int port) \<mapsto>
      \<lparr>kn_node_ip = ip, kn_node_port = u32_of_int port, kn_avail = (\<lambda>_. 0)(CPU := cpu, RAM := ram, GPU := gpu),
       kn_time_stamp = env_now env\<rparr>)"
proof -
  obtain known' where u: "update_known_node True (env_now env) (known_nodes node) ip (u32_of_int port) cpu ram gpu = Some known'"
    "kn_tab known'" "kn_map known' = (kn_map (known_nodes node))((ip, u32_of_int port) \<mapsto>
      \<lparr>kn_node_ip = ip, kn_node_port = u32_of_int port, kn_avail = (\<lambda>_. 0)(CPU := cpu, RAM := ram, GPU := gpu),
       kn_time_stamp = env_now env\<rparr>)"
    using update_known_spec [OF tab, of 0 "env_now env" ip "u32_of_int port" cpu ram gpu] room by auto
  have "strtok CHR '' '' (announce_msg port cpu ram gpu) = [''ANNOUNCE'', fmt_u (u32_of_int port), ''cpu:'' @ fmt_u cpu,
      ''mem:'' @ fmt_u ram, ''gpu:'' @ fmt_u gpu]"
    unfolding announce_msg_eq [OF port]
    using fmt_u_Cons [of "u32_of_int port"] fmt_u_not [of "CHR '' ''"] by (subst strtok_concat) auto
  with u mem fmt_d_port [OF port] show ?thesis
    by (intro exI [of _ known']) (simp add: handle_node_announced_def atoi_fmt_u strncmp_eq_def)
qed

section \<open>Cleaning up\<close>

lemma orphans_bucle_jobs:
  "oj_inv jobs \<Longrightarrow> \<exists>jobs' outbox'. orphans_bucle ids jobs outbox = Some (jobs', outbox') \<and> oj_inv jobs' \<and>
     oj_job jobs' = (\<lambda>j. if j \<in> set ids then None else oj_job jobs j)"
proof (induction ids arbitrary: jobs outbox)
  case (Cons jid ids)
  obtain ps where ps: "get_granted_resources jobs jid MAX_JOB_RESOURCES = Some ps"
    using ojp.granted_total [OF Cons.prems] by blast
  obtain jobs1 where r: "remove_owned_job jobs jid = Some jobs1" "oj_inv jobs1" "oj_job jobs1 = (oj_job jobs)(jid := None)"
    using ojp.remove_job_inv [OF Cons.prems] by blast
  from Cons.IH [OF r(2), of "send_releases jid ps outbox"] ps r(1,3) show ?case by (auto simp: fun_eq_iff)
qed simp

lemma releases_except_total:
  "\<forall>p \<in> set ps. jp_ip p \<noteq> None \<Longrightarrow> \<exists>outbox'. releases_except ip port jid ps outbox = Some outbox'"
  by (induction ps arbitrary: outbox) auto

lemma affected_bucle_jobs:
  "oj_inv jobs \<Longrightarrow> \<exists>jobs' outbox'. affected_bucle ip port ids jobs outbox = Some (jobs', outbox') \<and>
     oj_inv jobs' \<and> oj_job jobs' = (\<lambda>j. if j \<in> set ids then None else oj_job jobs j)"
proof (induction ids arbitrary: jobs outbox)
  case (Cons jid ids)
  obtain ps where ps: "get_granted_resources jobs jid MAX_JOB_RESOURCES = Some ps" "\<forall>p \<in> set ps. jp_ip p \<noteq> None"
    using ojp.granted_total [OF Cons.prems] by blast
  obtain s where s: "get_job_owner_socket jobs jid = Some s" using ojp.owner_total [OF Cons.prems] by blast
  obtain jobs1 where r: "remove_owned_job jobs jid = Some jobs1" "oj_inv jobs1" "oj_job jobs1 = (oj_job jobs)(jid := None)"
    using ojp.remove_job_inv [OF Cons.prems] by blast
  obtain ob where ob: "releases_except ip port jid ps outbox = Some ob"
    using releases_except_total [OF ps(2)] by blast
  from Cons.IH [OF r(2), of "add_to_outbox ob (job_msg ''JOB_DENIED'' jid) (int_of_u32 s) None 0"] ps(1) s ob r(1,3)
  show ?case by (auto simp: fun_eq_iff)
qed simp

lemma table_select:
  assumes "oj_tab jobs" "numElems jobs \<le> n"
  shows "set (take n (map oj_job_id (filter P (th_list jobs)))) = {jid. \<exists>job. oj_job jobs jid = Some job \<and> P job}"
proof -
  have "length (filter P (th_list jobs)) \<le> n"
    using assms(2) length_filter_le [of P "th_list jobs"] oj.nelems_length [OF assms(1)] by linarith
  then show ?thesis using oj_job_Some [OF assms(1)] by (auto simp: th_set_def)
qed

lemma affected_inv_eq:
  assumes "oj_inv jobs"
  shows "get_jobs_affected_by_dead_node jobs (Some ip) port n = Some (take n (map oj_job_id
    (filter (\<lambda>job. \<exists>p \<in> set (oj_petitions job). jp_port p = port \<and> jp_ip p = Some ip) (th_list jobs))))"
proof -
  have ips: "jp_ip p \<noteq> None" if "job \<in> th_set jobs" "p \<in> set (oj_petitions job)" for job p
    using assms that oj_okD(2) [of job p] by (auto simp: oj_inv_for_def)
  show ?thesis using ips by (simp add: affected_jobs_eq [OF oj_invD(1) [OF assms]])
qed

lemma numElems_dom: "oj_tab jobs \<Longrightarrow> numElems jobs = card (dom (oj_job jobs)) \<and> finite (dom (oj_job jobs))"
  using oj.card_dom_map [of jobs] by (simp add: oj_job_def)

text \<open>The jobs a disconnection ends: those of the client, and those with a petition to the node.\<close>

definition oj_lost :: "u32 \<Rightarrow> string \<Rightarrow> u32 \<Rightarrow> elem_owned_job_t \<Rightarrow> bool" where
  "oj_lost socket ip port job \<longleftrightarrow> oj_owner_socket job = socket \<or>
     (port \<noteq> 0 \<and> list_ex (\<lambda>p. jp_port p = port \<and> jp_ip p = Some ip) (oj_petitions job))"

lemma disconnected_spec:
  assumes inv: "node_inv node" and exact: "lr_exact (resources node) (active_jobs node)" and mem: "env_mem env 0"
    and few: "length (filter (\<lambda>e. aj_socket e = socket) (th_list (active_jobs node))) \<le> SWEEP_MAX"
    and jobs: "numElems (owned_jobs node) \<le> 20"
  shows "\<exists>node' outbox. handle_disconnected env conns node (Some ip) socket [] = Some (node', outbox) \<and>
    abs_inventory (resources node') (active_jobs node') =
      spec_drop socket (abs_inventory (resources node) (active_jobs node)) \<and>
    oj_job (owned_jobs node') = (\<lambda>jid. case oj_job (owned_jobs node) jid of None \<Rightarrow> None
      | Some job \<Rightarrow> if oj_lost socket ip (get_connection_port conns (int_of_u32 socket)) job then None else Some job)"
proof -
  define port where "port = get_connection_port conns (int_of_u32 socket)"
  note oinv = node_invD(2) [OF inv]
  obtain R J where f: "free_all_resources_from_socket True (resources node) (active_jobs node) socket = Some (R, J)"
    "abs_inventory R J = spec_drop socket (abs_inventory (resources node) (active_jobs node))"
    using drop_refines [OF node_invD(1) [OF inv] few] by blast
  let ?orph = "get_jobs_by_owner_socket (owned_jobs node) socket 50"
  obtain jobs1 ob1 where o: "orphans_bucle ?orph (owned_jobs node) [] = Some (jobs1, ob1)" "oj_inv jobs1"
    "oj_job jobs1 = (\<lambda>j. if j \<in> set ?orph then None else oj_job (owned_jobs node) j)"
    using orphans_bucle_jobs [OF oinv] by blast
  note N = numElems_dom [OF oj_invD(1) [OF oinv]] and N1 = numElems_dom [OF oj_invD(1) [OF o(2)]]
  have "dom (oj_job jobs1) \<subseteq> dom (oj_job (owned_jobs node))" using o(3) by (auto split: if_splits)
  with conjunct2 [OF N] have "card (dom (oj_job jobs1)) \<le> card (dom (oj_job (owned_jobs node)))" by (rule card_mono)
  then have small: "numElems jobs1 \<le> 20" using N N1 jobs by linarith
  have orph: "set ?orph = {jid. \<exists>job. oj_job (owned_jobs node) jid = Some job \<and> oj_owner_socket job = socket}"
    unfolding orphans_eq [OF oj_invD(1) [OF oinv]] by (rule table_select [OF oj_invD(1) [OF oinv]]) (use jobs in simp)
  let ?hit = "\<lambda>job. \<exists>p \<in> set (oj_petitions job). jp_port p = port \<and> jp_ip p = Some ip"
  obtain ids where ids: "get_jobs_affected_by_dead_node jobs1 (Some ip) port 20 = Some ids"
    "set ids = {jid. \<exists>job. oj_job jobs1 jid = Some job \<and> ?hit job}"
    using affected_inv_eq [OF o(2), of ip port 20] table_select [OF oj_invD(1) [OF o(2)] small, of ?hit] by auto
  obtain jobs2 ob2 where a: "affected_bucle ip port ids jobs1 ob1 = Some (jobs2, ob2)"
    "oj_job jobs2 = (\<lambda>j. if j \<in> set ids then None else oj_job jobs1 j)"
    using affected_bucle_jobs [OF o(2)] by blast
  show ?thesis
  proof (cases "0 < port")
    case True
    have "oj_job jobs2 = (\<lambda>jid. case oj_job (owned_jobs node) jid of None \<Rightarrow> None
        | Some job \<Rightarrow> if oj_lost socket ip port job then None else Some job)"
      using True by (auto simp: fun_eq_iff a(2) ids(2) o(3) orph oj_lost_def list_ex_iff split: option.split)
    with True f o(1) ids(1) a(1) mem show ?thesis
      unfolding port_def [symmetric] by (simp add: handle_disconnected_def port_def [symmetric])
  next
    case False
    have "oj_job jobs1 = (\<lambda>jid. case oj_job (owned_jobs node) jid of None \<Rightarrow> None
        | Some job \<Rightarrow> if oj_lost socket ip port job then None else Some job)"
      using False by (auto simp: fun_eq_iff o(3) orph oj_lost_def word_neq_0_conv split: option.split)
    with False f o(1) mem show ?thesis
      unfolding port_def [symmetric] by (simp add: handle_disconnected_def port_def [symmetric])
  qed
qed

section \<open>Examples\<close>

definition ej_env :: env where
  "ej_env = \<lparr>env_now = 100, env_rnd = (\<lambda>_. 0), env_mem = (\<lambda>_. True)\<rparr>"

lemma ej_env [simp]: "env_ok ej_env" "env_mem ej_env i" "env_now ej_env = 100"
  by (simp_all add: ej_env_def env_ok_def)

definition ej_data :: "active_jobs_t \<Rightarrow> owned_jobs_t \<Rightarrow> node_data_t" where
  "ej_data J jobs = \<lparr>active_jobs = J, resources = ej_resources, known_nodes = create_known_nodes, owned_jobs = jobs\<rparr>"

lemma ej_data_simps [simp]:
  "active_jobs (ej_data J jobs) = J" "resources (ej_data J jobs) = ej_resources" "owned_jobs (ej_data J jobs) = jobs"
  "known_nodes (ej_data J jobs) = create_known_nodes"
  by (simp_all add: ej_data_def)

text \<open>Descriptor 3 is a connection this node opened to port 9000 of 10.0.0.1.\<close>

definition ej_conns :: connections where
  "ej_conns = active_connections_init[3 := \<lparr>is_active = 1, cn_ip = ''10.0.0.1'', cn_port = 9000,
     pending_message = [], cn_job_id = 0\<rparr>]"

lemma ej_conns_port: "get_connection_port ej_conns (int_of_u32 3) = 9000"
  using int_of_u32_small [of 3]
  by (simp add: get_connection_port_def ej_conns_def active_connections_init_def MAX_FDS_def nth_list_update)

lemma ej_jobs: "\<exists>jobs. oj_inv jobs \<and> oj_job jobs = [7 \<mapsto> ej_job True] \<and> numElems jobs \<le> 1"
  using oj_table [of "ej_job True" 7] ej_job_ok by auto

section \<open>Properties\<close>

text \<open>
  Claim C22. A RESERVE a node sends is understood by the node that receives it: the message is one
  line, and on reading it the receiver does to its inventory what the specification says for that
  job, sender, type and amount, answers GRANTED when it grants, DENIED when the amount passes its
  capacity and nothing when the request waits, and touches nothing else.
\<close>

theorem reserve_answered:
  assumes exact: "lr_exact (resources node) (active_jobs node)"
    and fresh: "(jid, socket, jp_type p) \<notin> lr_keys (resources node) (active_jobs node)"
    and type: "jp_type p \<noteq> INVALID_RES_TYPE" and room: "th_room 1 (active_jobs node)" and mem: "env_mem env 0"
  shows "\<exists>line node' result. strtok CHR ''\<newline>'' (petition_msg ''RESERVE'' jid p) = [line] \<and>
    handle_respond env conns node ip socket line [] = Some (node', reserve_reply jid socket result []) \<and>
    spec_request jid socket (unat (jp_quantity p)) (jp_type p) (abs_inventory (resources node) (active_jobs node)) =
      (result, abs_inventory (resources node') (active_jobs node')) \<and>
    lr_exact (resources node') (active_jobs node') \<and> owned_jobs node' = owned_jobs node \<and>
    known_nodes node' = known_nodes node"
proof -
  obtain c r j where new: "new_job_request True (resources node) (active_jobs node) jid socket (jp_quantity p) (jp_type p) =
      Some (c, r, j)" "spec_request jid socket (unat (jp_quantity p)) (jp_type p)
        (abs_inventory (resources node) (active_jobs node)) = (c, abs_inventory r j)" "lr_exact r j"
    using request_spec [OF exact fresh type room] by blast
  note line = reserve_line [of jid p]
  show ?thesis
    by (rule exI, rule exI [of _ "node\<lparr>resources := r, active_jobs := j\<rparr>"], rule exI [of _ c], rule conjI [OF line])
      (use new mem in \<open>simp add: respond_reserve_line [OF type] del: append_Cons append.append_Cons\<close>)
qed

theorem reserve_answered_witness:
  "\<exists>J line node'. th_set J = {ej_grant} \<and>
     handle_respond ej_env ej_conns (ej_data J create_owned_jobs) None 9 line [] =
       Some (node', [out_notice 9 ''GRANTED'' 7]) \<and>
     lr_exact (resources node') (active_jobs node')"
proof -
  obtain J where J: "aj_inv J" "th_set J = {ej_grant}" "th_room RES_NUM J" using ej_table by blast
  note ex = ej_exact [OF J(1,2)]
  let ?node = "ej_data J create_owned_jobs"
  let ?p = "\<lparr>jp_ip = Some ''10.0.0.9'', jp_port = 9000, jp_type = CPU, jp_quantity = 4, jp_is_granted = 0\<rparr>"
  have H: "lr_exact (resources ?node) (active_jobs ?node)" "th_room 1 (active_jobs ?node)"
    "(7, 9, jp_type ?p) \<notin> lr_keys (resources ?node) (active_jobs ?node)" "jp_type ?p \<noteq> INVALID_RES_TYPE" "env_mem ej_env 0"
    using ex J(2) th_room_mono [OF J(3), of 1]
    by (simp_all add: lr_keys_def ej_resources_def jr_key_def ej_grant_def aj_key_def RES_NUM_def)
  have one: "fst (spec_request 7 9 (unat (4 :: u32)) CPU (abs_inventory ej_resources J)) = 1"
    using abs_free [OF ex, of CPU] by (simp add: spec_request_def) (simp add: abs_inventory_def ej_resources_def)
  obtain line node' result where R: "handle_respond ej_env ej_conns ?node None 9 line [] = Some (node', reserve_reply 7 9 result [])"
    "spec_request 7 9 (unat (4 :: u32)) CPU (abs_inventory ej_resources J) = (result, abs_inventory (resources node') (active_jobs node'))"
    "lr_exact (resources node') (active_jobs node')"
    using reserve_answered [OF H(1,3,4,2,5), of ej_conns None] by auto
  have "result = 1" using R(2) one by simp
  then have "reserve_reply 7 9 result [] = [out_notice 9 ''GRANTED'' 7]"
    by (simp add: reserve_reply_def add_notice MAX_OUTBOX_def)
  with R J(2) show ?thesis by auto
qed



text \<open>
  The GRANTED a queue sends is read as the number of the job it is for, for all 32 bit
  numbers: the sender prints it with \<^verbatim>\<open>%d\<close>, which gives the upper half a minus sign, and the receiver
  reads it with \<^verbatim>\<open>%u\<close>. Both kinds of GRANTED have the same effect.
\<close>

theorem wake_message_read:
  "\<exists>line. strtok CHR ''\<newline>'' (wake_msg jid) = [line] \<and>
     sscanf (lits ''GRANTED'' @ [Ws, Fu]) line = [VU jid] \<and>
     handle_respond env conns node ip socket line outbox =
       handle_respond env conns node ip socket (''GRANTED'' @ '' '' @ fmt_u jid) outbox"
proof -
  let ?l = "''GRANTED'' @ '' '' @ fmt_d (int_of_u32 jid)"
  have parse: "sscanf (lits ''GRANTED'' @ [Ws, Fu]) ?l = [VU jid]" by (rule wake_parse)
  have "handle_respond env conns node ip socket ?l outbox =
      handle_respond env conns node ip socket (''GRANTED'' @ '' '' @ fmt_u jid) outbox"
    unfolding respond_granted handle_granted_def parse job_parse by simp
  with parse wake_line [of jid] show ?thesis by blast
qed

text \<open>
  Claim C25. A GRANTED of the node that was asked last advances the job: the petition is marked, and
  the scheduler is told JOB_GRANTED on the socket of the job if it was the last, otherwise the next
  petition is sent to its node. Every other GRANTED (of another node, a second one, or for an unknown
  job, or on a connection this node did not open) changes nothing.
\<close>

theorem granted_advances:
  assumes inv: "oj_inv (owned_jobs node)" and port: "port = get_connection_port conns (int_of_u32 socket)"
  shows "(\<exists>job jobs'. oj_job (owned_jobs node) jid = Some job \<and> port \<noteq> 0 \<and> oj_awaits job ip port \<and> oj_inv jobs' \<and>
      handle_respond env conns node (Some ip) socket (''GRANTED'' @ '' '' @ fmt_u jid) [] =
        Some (node\<lparr>owned_jobs := jobs'\<rparr>,
          if Suc (oj_grants job) = petition_count job then [out_notice (oj_owner_socket job) ''JOB_GRANTED'' jid]
          else send_reserve jid (oj_petitions job ! Suc (oj_grants job)) []) \<and>
      oj_job jobs' = (oj_job (owned_jobs node))(jid \<mapsto>
        (if Suc (oj_grants job) = petition_count job then oj_grant job else oj_advance (oj_grant job)))) \<or>
    (port = 0 \<or> (case oj_job (owned_jobs node) jid of None \<Rightarrow> True | Some job \<Rightarrow> \<not> oj_awaits job ip port)) \<and>
      handle_respond env conns node (Some ip) socket (''GRANTED'' @ '' '' @ fmt_u jid) [] = Some (node, [])"
proof (cases "port \<noteq> 0 \<and> (\<exists>job. oj_job (owned_jobs node) jid = Some job \<and> oj_awaits job ip port)")
  case True
  then obtain job where job: "port \<noteq> 0" "oj_job (owned_jobs node) jid = Some job" "oj_awaits job ip port" by blast
  have "add_to_outbox [] (job_msg ''JOB_GRANTED'' jid) (int_of_u32 (oj_owner_socket job)) None 0 =
      [out_notice (oj_owner_socket job) ''JOB_GRANTED'' jid]" by (simp add: add_notice MAX_OUTBOX_def)
  with respond_granted_spec [OF inv job(2) port [symmetric] job(1,3), where env = env and outbox = "[]"] job show ?thesis by auto
next
  case False
  then have "port = 0 \<or> (\<forall>job. oj_job (owned_jobs node) jid = Some job \<longrightarrow> \<not> oj_awaits job ip port)" by blast
  with respond_granted_ignored [OF inv port [symmetric] this, where env = env and outbox = "[]"] show ?thesis
    by (auto split: option.split)
qed

theorem granted_advances_witness:
  "\<exists>J jobs jobs'. oj_job jobs = [7 \<mapsto> ej_job True] \<and>
     handle_respond ej_env ej_conns (ej_data J jobs) (Some ''10.0.0.1'') 3 (''GRANTED'' @ '' '' @ fmt_u 7) [] =
       Some ((ej_data J jobs)\<lparr>owned_jobs := jobs'\<rparr>, send_reserve 7 (oj_petitions (ej_job True) ! 1) [])"
proof -
  obtain jobs where J: "oj_inv jobs" "oj_job jobs = [7 \<mapsto> ej_job True]" using ej_jobs by blast
  have p: "oj_awaits (ej_job True) ''10.0.0.1'' 9000" "Suc (oj_grants (ej_job True)) \<noteq> petition_count (ej_job True)"
    "oj_grants (ej_job True) = 0"
    by (simp_all add: oj_awaits_def ej_job_def oj_outstanding_def oj_grants_def)
  let ?node = "ej_data undefined jobs"
  have inv: "oj_inv (owned_jobs ?node)" using J(1) by simp
  from granted_advances [OF inv refl, where conns = ej_conns and socket = 3 and jid = 7 and ip = "''10.0.0.1''" and env = ej_env] p
  have "\<exists>jobs'. handle_respond ej_env ej_conns ?node (Some ''10.0.0.1'') 3 (''GRANTED'' @ '' '' @ fmt_u 7) [] =
       Some (?node\<lparr>owned_jobs := jobs'\<rparr>, send_reserve 7 (oj_petitions (ej_job True) ! 1) [])"
    unfolding ej_conns_port by (auto simp: J(2))
  with J(2) show ?thesis by blast
qed

text \<open>
  Claim C26. A DENIED rolls the job back: the agent sends a RELEASE for each petition that was
  granted, in their order and to their nodes, then JOB_DENIED to the scheduler's socket, and forgets
  the job. Nothing else is sent and no other job changes.
\<close>

theorem denied_rolls_back:
  assumes inv: "oj_inv (owned_jobs node)" and job: "oj_job (owned_jobs node) jid = Some job"
  shows "\<exists>line jobs'. strtok CHR ''\<newline>'' (job_msg ''DENIED'' jid) = [line] \<and>
    handle_respond env conns node ip socket line [] = Some (node\<lparr>owned_jobs := jobs'\<rparr>,
      map (out_release jid) (filter (\<lambda>p. jp_is_granted p = 1) (oj_petitions job)) @
      [out_notice (oj_owner_socket job) ''JOB_DENIED'' jid]) \<and>
    oj_inv jobs' \<and> oj_job jobs' = (oj_job (owned_jobs node))(jid := None)"
proof -
  note ok = oj_invD(2) [OF inv job]
  have "length [] + oj_grants job < MAX_OUTBOX"
    using oj_okD(1) [OF ok] oj_ok_grants_le [OF ok] by (simp add: MAX_OUTBOX_def MAX_JOB_RESOURCES_def)
  from abort_job_spec [OF inv job this, of "''JOB_DENIED''"] obtain jobs' where
    a: "abort_job ''JOB_DENIED'' jid (owned_jobs node) [] = Some (jobs',
      map (out_release jid) (take (oj_grants job) (oj_petitions job)) @ [out_notice (oj_owner_socket job) ''JOB_DENIED'' jid])"
      "oj_inv jobs'" "oj_job jobs' = (oj_job (owned_jobs node))(jid := None)" by auto
  note line = denied_line [of jid]
  show ?thesis
    by (rule exI, rule exI [of _ jobs'], rule conjI [OF line])
      (use a in \<open>simp add: respond_denied_line granted_filter [OF ok] del: append_Cons append.append_Cons\<close>)
qed

theorem denied_rolls_back_witness:
  "\<exists>jobs line node'. oj_job jobs = [7 \<mapsto> ej_job True] \<and>
     handle_respond ej_env ej_conns (ej_data undefined jobs) None 3 line [] =
       Some (node', [out_notice 4 ''JOB_DENIED'' 7])"
proof -
  obtain jobs where J: "oj_inv jobs" "oj_job jobs = [7 \<mapsto> ej_job True]" using ej_jobs by blast
  let ?node = "ej_data undefined jobs"
  have "oj_inv (owned_jobs ?node)" "oj_job (owned_jobs ?node) 7 = Some (ej_job True)" using J by simp_all
  from denied_rolls_back [OF this, of ej_env ej_conns None 3] J(2) show ?thesis by (auto simp: ej_job_def)
qed

text \<open>
  Claim C27. A JOB_REQUEST of the scheduler, with up to 50 petitions, becomes a job with exactly these
  petitions in their order, owned by the scheduler's socket and none of them granted, and the first
  petition is sent to its node as a RESERVE.
\<close>

theorem job_request_registers:
  assumes inv: "oj_inv (owned_jobs node)" and room: "th_room 1 (owned_jobs node)" and env: "env_ok env"
    and ts: "list_all token_ok ts" "ts \<noteq> []" "length ts \<le> MAX_JOB_RESOURCES"
  shows "\<exists>jobs'. handle_respond env conns node ip socket (request_line jid ts) [] =
      Some (node\<lparr>owned_jobs := jobs'\<rparr>, send_reserve jid (token_petition (hd ts)) []) \<and> oj_inv jobs' \<and>
    oj_job jobs' = (oj_job (owned_jobs node))(jid \<mapsto>
      \<lparr>oj_job_id = jid, oj_owner_socket = socket, oj_grant_notified = 0, oj_created_at = env_now env,
       oj_next_reserve_idx = 1, oj_petitions = map token_petition ts\<rparr>)"
  using assms by (rule respond_job_request_spec)

theorem job_request_registers_witness:
  "\<exists>jobs'. handle_respond ej_env ej_conns (ej_data undefined create_owned_jobs) None 4
       (request_line 7 [(''10.0.0.1'', 9000, CPU, 2), (''10.0.0.2'', 9000, GPU, 1)]) [] =
     Some ((ej_data undefined create_owned_jobs)\<lparr>owned_jobs := jobs'\<rparr>,
       send_reserve 7 (token_petition (''10.0.0.1'', 9000, CPU, 2)) []) \<and>
     request_line 7 [(''10.0.0.1'', 9000, CPU, 2), (''10.0.0.2'', 9000, GPU, 1)] =
       ''JOB_REQUEST 7 @10.0.0.1:9000:cpu:2 @10.0.0.2:9000:gpu:1''"
proof -
  let ?node = "ej_data undefined create_owned_jobs" and ?ts = "[(''10.0.0.1'', 9000, CPU, 2), (''10.0.0.2'', 9000, GPU, 1)]"
  have "oj_inv (owned_jobs ?node)" "th_room 1 (owned_jobs ?node)" using create_owned_jobs_inv [of oj_ok 1] by simp_all
  moreover have "list_all token_ok ?ts" "?ts \<noteq> []" "length ?ts \<le> MAX_JOB_RESOURCES"
    by (simp_all add: token_ok_def MAX_JOB_RESOURCES_def)
  moreover have "request_line 7 ?ts = ''JOB_REQUEST 7 @10.0.0.1:9000:cpu:2 @10.0.0.2:9000:gpu:1''"
    by (simp add: request_line_def job_token_def res_text_def fmt_u_def dec_of_nat.simps)
  ultimately show ?thesis
    using job_request_registers [where node = ?node and env = ej_env and ts = ?ts and conns = ej_conns and ip = None and
        socket = 4 and jid = 7] by auto
qed

text \<open>
  A JOB_RELEASE of the scheduler sends one RELEASE for each granted petition of the job, to
  its node, and forgets the job.
\<close>

theorem job_release_releases:
  assumes inv: "oj_inv (owned_jobs node)" and job: "oj_job (owned_jobs node) jid = Some job"
  shows "\<exists>jobs'. handle_respond env conns node ip socket (''JOB_RELEASE'' @ '' '' @ fmt_u jid) [] =
      Some (node\<lparr>owned_jobs := jobs'\<rparr>,
        map (out_release jid) (filter (\<lambda>p. jp_is_granted p = 1) (oj_petitions job))) \<and>
    oj_inv jobs' \<and> oj_job jobs' = (oj_job (owned_jobs node))(jid := None)"
proof -
  let ?ps = "take (oj_grants job) (oj_petitions job)"
  note G = granted_prefix [OF inv job]
  obtain jobs' where rem: "remove_owned_job (owned_jobs node) jid = Some jobs'" "oj_inv jobs'"
    "oj_job jobs' = (oj_job (owned_jobs node))(jid := None)" using ojp.remove_job_inv [OF inv] by blast
  have "send_releases jid ?ps [] = [] @ map (out_release jid) ?ps"
    by (rule send_releases_fits) (use G in \<open>auto simp: MAX_OUTBOX_def MAX_JOB_RESOURCES_def\<close>)
  with G rem show ?thesis
    by (intro exI [of _ jobs']) (simp add: respond_job_release_line granted_filter [OF oj_invD(2) [OF inv job]]
        del: append_Cons append.append_Cons)
qed

theorem job_release_releases_witness:
  "\<exists>jobs node'. oj_job jobs = [7 \<mapsto> ej_job True] \<and>
     handle_respond ej_env ej_conns (ej_data undefined jobs) None 4 (''JOB_RELEASE'' @ '' '' @ fmt_u 7) [] = Some (node', [])"
proof -
  obtain jobs where J: "oj_inv jobs" "oj_job jobs = [7 \<mapsto> ej_job True]" using ej_jobs by blast
  let ?node = "ej_data undefined jobs"
  have "oj_inv (owned_jobs ?node)" "oj_job (owned_jobs ?node) 7 = Some (ej_job True)" using J by simp_all
  from job_release_releases [OF this, of ej_env ej_conns None 4] J(2) show ?thesis by (auto simp: ej_job_def)
qed

text \<open>
  Claim C29. An announcement carries the free resources of a node unchanged: the message
  \<^verbatim>\<open>handle_get_resources\<close> builds, read by \<^verbatim>\<open>handle_node_announced\<close> of any node, sets the entry of the
  sender's address and port in its directory to the sender's free resources.
\<close>

theorem announce_roundtrip:
  assumes port: "0 < ctx_port" "ctx_port < 2 ^ 31" and mem: "env_mem env 0" "env_mem env 1"
    and tab: "kn_tab (known_nodes node)" and room: "th_room 1 (known_nodes node)"
  shows "\<exists>m known'. handle_get_resources ctx_port sender [] = [m] \<and>
    handle_node_announced env node (Some ip) (message m) = Some (node\<lparr>known_nodes := known'\<rparr>) \<and> kn_tab known' \<and>
    kn_map known' = (kn_map (known_nodes node))((ip, u32_of_int ctx_port) \<mapsto>
      \<lparr>kn_node_ip = ip, kn_node_port = u32_of_int ctx_port,
       kn_avail = (\<lambda>_. 0)(CPU := avail (resources sender) CPU, RAM := avail (resources sender) RAM,
         GPU := avail (resources sender) GPU), kn_time_stamp = env_now env\<rparr>)"
proof -
  let ?m = "announce_msg ctx_port (avail (resources sender) CPU) (avail (resources sender) RAM) (avail (resources sender) GPU)"
  have "snprintf BUFFER_SIZE ?m = ?m"
    by (rule snprintf_short) (simp add: announce_msg_def snprintf_def BUFFER_SIZE_def)
  then obtain m where m: "handle_get_resources ctx_port sender [] = [m]" "message m = ?m"
    by (simp add: handle_get_resources_def get_local_resources_def add_to_outbox_def MAX_OUTBOX_def)
  from announced_spec [OF port mem tab room, of ip] show ?thesis
    by (intro exI [of _ m]) (simp only: m simp_thms)
qed

theorem announce_roundtrip_witness:
  "\<exists>m known'. handle_get_resources 9000 (ej_data undefined undefined) [] = [m] \<and>
     message m = ''ANNOUNCE 9000 cpu:5 mem:8 gpu:8'' \<and>
     handle_node_announced ej_env (ej_data undefined undefined) (Some ''10.0.0.1'') (message m) =
       Some ((ej_data undefined undefined)\<lparr>known_nodes := known'\<rparr>) \<and> kn_tab known'"
proof -
  let ?node = "ej_data undefined undefined"
  have "(0 :: int) < 9000" "(9000 :: int) < 2 ^ 31" "env_mem ej_env 0" "env_mem ej_env 1" "kn_tab (known_nodes ?node)"
    "th_room 1 (known_nodes ?node)" using create_known_nodes_inv [of 1] by simp_all
  note A = announce_roundtrip [OF this, of ?node "''10.0.0.1''"]
  have ann: "announce_msg 9000 5 8 8 = ''ANNOUNCE 9000 cpu:5 mem:8 gpu:8''"
    by (simp add: announce_msg_def fmt_u_def fmt_d_def dec_of_nat.simps snprintf_def)
  have "get_local_resources (resources ?node) = (5, 8, 8)" by (simp add: get_local_resources_def ej_resources_def)
  then have "handle_get_resources 9000 ?node [] = [m] \<Longrightarrow> message m = ''ANNOUNCE 9000 cpu:5 mem:8 gpu:8''" for m
    by (auto simp: handle_get_resources_def add_to_outbox_def MAX_OUTBOX_def ann snprintf_def BUFFER_SIZE_def)
  with A show ?thesis by blast
qed



text \<open>
  Claim C31. A RESERVE whose second word has 256 characters or more overruns the array \<^verbatim>\<open>res\<close> of
  \<^verbatim>\<open>handle_reserve\<close>, whatever follows it; such a line fits the receive buffer.
\<close>

theorem reserve_overflow:
  assumes word: "256 \<le> length word" "\<forall>c \<in> set word. \<not> is_space c"
  shows "handle_respond env conns node ip socket (''RESERVE'' @ '' '' @ fmt_u jid @ '' '' @ word @ '' '' @ rest) [] = None"
proof -
  let ?t = "'' '' @ fmt_u jid @ '' '' @ word @ '' '' @ rest"
  have ne: "word \<noteq> []" using word(1) by auto
  then have "dropWhile is_space (word @ r) = word @ r" for r using word(2) by (cases word) auto
  with scan_s_word [OF ne word(2), of None rest]
  have "\<exists>vs. sscanf [Ws, Fs None, Ws, Fu] ('' '' @ word @ '' '' @ rest) = VS word # vs" by simp
  then obtain vs where "sscanf [Ws, Fu, Ws, Fs None, Ws, Fu] ?t = VU jid # VS word # vs"
    using sscanf_Ws_Fu [of "'' '' @ word @ '' '' @ rest" "[Ws, Fs None, Ws, Fu]" jid] by auto
  then have "sscanf (lits ''RESERVE'' @ [Ws, Fu, Ws, Fs None, Ws, Fu]) (''RESERVE'' @ ?t) = VU jid # VS word # vs"
    unfolding sscanf_lits .
  with word(1) show ?thesis unfolding respond_reserve handle_reserve_def by simp
qed

theorem reserve_overflow_witness:
  "handle_respond ej_env ej_conns (ej_data undefined undefined) None 5
     (''RESERVE'' @ '' '' @ fmt_u 7 @ '' '' @ replicate 300 CHR ''x'' @ '' '' @ ''1'') [] = None"
  by (rule reserve_overflow) (simp_all add: is_space_def)

text \<open>
  A DENIED for a job the node does not have is reported to file descriptor 0: no job
  changes, but the agent sends JOB_DENIED to standard input's descriptor.
\<close>

theorem denied_unknown_job:
  assumes inv: "oj_inv (owned_jobs node)" and job: "oj_job (owned_jobs node) jid = None"
  shows "\<exists>jobs'. handle_respond env conns node ip socket (''DENIED'' @ '' '' @ fmt_u jid) [] =
      Some (node\<lparr>owned_jobs := jobs'\<rparr>, [out_notice 0 ''JOB_DENIED'' jid]) \<and> oj_job jobs' = oj_job (owned_jobs node)"
proof -
  obtain jobs' where "abort_job ''JOB_DENIED'' jid (owned_jobs node) [] = Some (jobs', [out_notice 0 ''JOB_DENIED'' jid])"
    "oj_job jobs' = oj_job (owned_jobs node)"
    using abort_job_unknown [OF inv job, of "[]" "''JOB_DENIED''"] by (auto simp: MAX_OUTBOX_def)
  then show ?thesis by (intro exI [of _ jobs']) (simp add: respond_denied_line del: append_Cons append.append_Cons)
qed

theorem denied_unknown_job_witness:
  "\<exists>node'. handle_respond ej_env ej_conns (ej_data undefined create_owned_jobs) None 5 (''DENIED'' @ '' '' @ fmt_u 9) [] =
     Some (node', [out_notice 0 ''JOB_DENIED'' 9])"
proof -
  let ?node = "ej_data undefined create_owned_jobs"
  have "oj_inv (owned_jobs ?node)" "oj_job (owned_jobs ?node) 9 = None" using create_owned_jobs_inv [of oj_ok 0] by simp_all
  from denied_unknown_job [OF this, of ej_env ej_conns None 5] show ?thesis by blast
qed

text \<open>
  Claim C33. A rollback that meets a full outbox loses its messages: the job is forgotten, but neither
  a RELEASE nor the notice to the scheduler is sent.
\<close>

theorem rollback_lost_when_full:
  assumes inv: "oj_inv jobs" and full: "length outbox = MAX_OUTBOX"
  shows "\<exists>jobs'. abort_job word jid jobs outbox = Some (jobs', outbox) \<and> oj_job jobs' = (oj_job jobs)(jid := None)"
proof -
  have drop: "send_releases j ps outbox = outbox" for j ps
    using full by (induction ps) (simp_all add: send_releases_def add_to_outbox_def)
  obtain ps where "get_granted_resources jobs jid MAX_JOB_RESOURCES = Some ps" using ojp.granted_total [OF inv] by blast
  moreover obtain s where "get_job_owner_socket jobs jid = Some s" using ojp.owner_total [OF inv] by blast
  moreover obtain jobs' where "remove_owned_job jobs jid = Some jobs'" "oj_job jobs' = (oj_job jobs)(jid := None)"
    using ojp.remove_job_inv [OF inv] by blast
  ultimately show ?thesis using full by (simp add: abort_job_def drop add_to_outbox_def)
qed

theorem rollback_lost_when_full_witness:
  "\<exists>jobs jobs'. oj_job jobs = [7 \<mapsto> ej_job True] \<and>
     abort_job ''JOB_DENIED'' 7 jobs (replicate 128 (out_notice 4 ''JOB_DENIED'' 1)) =
       Some (jobs', replicate 128 (out_notice 4 ''JOB_DENIED'' 1)) \<and> oj_job jobs' 7 = None"
proof -
  obtain jobs where J: "oj_inv jobs" "oj_job jobs = [7 \<mapsto> ej_job True]" using ej_jobs by blast
  have "length (replicate 128 (out_notice 4 ''JOB_DENIED'' 1)) = MAX_OUTBOX" by (simp add: MAX_OUTBOX_def)
  from rollback_lost_when_full [OF J(1) this, of "''JOB_DENIED''" 7] J(2) show ?thesis by auto
qed

end
