(* ===== verification/Steps.thy ===== *)
theory Steps
  imports Prelude
begin

text \<open>
  Sequences of fallible steps. Several loops of the agent have one shape: the messages of an outbox
  are sent one after the other, the lines of a buffer are answered one after the other, the events of
  the agent happen one after the other. A step may be undefined (\<open>None\<close>), and it uses up some of a
  budget (the room left in the tables). The locale states the contract of one step; the lemmas in it
  carry the contract to sequences and to reachable states.
\<close>

fun runs :: "('l \<Rightarrow> 's \<Rightarrow> 's option) \<Rightarrow> 'l list \<Rightarrow> 's \<Rightarrow> 's option" where
  "runs go [] s = Some s"
| "runs go (l # ls) s = do { s1 \<leftarrow> go l s; runs go ls s1 }"

text \<open>The states reached from \<open>s0\<close> by \<open>n\<close> steps with labels that satisfy \<open>ok\<close>.\<close>

inductive reaches :: "('l \<Rightarrow> 's \<Rightarrow> 's option) \<Rightarrow> ('l \<Rightarrow> bool) \<Rightarrow> 's \<Rightarrow> nat \<Rightarrow> 's \<Rightarrow> bool" for go ok s0 where
  start: "reaches go ok s0 0 s0"
| step: "reaches go ok s0 n s \<Longrightarrow> ok l \<Longrightarrow> go l s = Some s' \<Longrightarrow> reaches go ok s0 (Suc n) s'"

inductive_cases reaches_zeroE: "reaches go ok s0 0 s"

lemma runs_append: "runs go (ls @ ls') s = (runs go ls s \<bind> runs go ls')"
  by (induction ls arbitrary: s) (simp_all split: Option.bind_splits)

lemma reaches_iff_runs: "reaches go ok s0 n s \<longleftrightarrow> (\<exists>ls. length ls = n \<and> list_all ok ls \<and> runs go ls s0 = Some s)"
proof
  assume "reaches go ok s0 n s"
  then show "\<exists>ls. length ls = n \<and> list_all ok ls \<and> runs go ls s0 = Some s"
  proof induction
    case (step n s l s')
    then obtain ls where "length ls = n" "list_all ok ls" "runs go ls s0 = Some s" by blast
    with step.hyps(2,3) show ?case by (intro exI [of _ "ls @ [l]"]) (simp add: runs_append)
  qed simp
next
  assume "\<exists>ls. length ls = n \<and> list_all ok ls \<and> runs go ls s0 = Some s"
  then obtain ls where "length ls = n" "list_all ok ls" "runs go ls s0 = Some s" by blast
  then show "reaches go ok s0 n s"
  proof (induction ls arbitrary: n s rule: rev_induct)
    case Nil
    then show ?case by (auto intro: start)
  next
    case (snoc l ls)
    then obtain s1 where "runs go ls s0 = Some s1" "go l s1 = Some s" by (auto simp: runs_append bind_eq_Some_conv)
    with snoc show ?case by (auto intro: step)
  qed
qed

lemma reaches_runs:
  "reaches go ok s0 n s \<Longrightarrow> list_all ok ls \<Longrightarrow> runs go ls s = Some s' \<Longrightarrow> reaches go ok s0 (n + length ls) s'"
proof (induction ls arbitrary: n s)
  case (Cons l ls)
  then obtain s1 where "go l s = Some s1" "runs go ls s1 = Some s'" by (auto simp: bind_eq_Some_conv)
  with Cons reaches.step [OF Cons.prems(1), of l s1] show ?case by fastforce
qed simp

text \<open>
  In the world \<open>w\<close> (what surrounds the steps and does not change) every step with a good label returns
  and keeps \<open>inv\<close>, which has a budget from which the step takes \<open>cost\<close>.
\<close>

locale step_system =
  fixes go :: "'w \<Rightarrow> 'l \<Rightarrow> 's \<Rightarrow> 's option"
    and world :: "'w \<Rightarrow> bool"
    and ok :: "'w \<Rightarrow> 'l \<Rightarrow> bool"
    and inv :: "'w \<Rightarrow> nat \<Rightarrow> 's \<Rightarrow> bool"
    and cost :: nat
  assumes progress: "world w \<Longrightarrow> ok w l \<Longrightarrow> inv w (cost + j) s \<Longrightarrow> \<exists>s'. go w l s = Some s' \<and> inv w j s'"
begin

lemma runs_safe:
  assumes "world w"
  shows "list_all (ok w) ls \<Longrightarrow> inv w (cost * length ls + j) s \<Longrightarrow> \<exists>s'. runs (go w) ls s = Some s' \<and> inv w j s'"
proof (induction ls arbitrary: s)
  case (Cons l ls)
  from progress [OF assms, of l "cost * length ls + j" s] Cons.prems
  obtain s1 where "go w l s = Some s1" "inv w (cost * length ls + j) s1" by (auto simp: add.assoc)
  with Cons.IH [of s1] Cons.prems(1) show ?case by simp
qed simp

lemma reaches_inv:
  assumes "world w"
  shows "reaches (go w) (ok w) s0 n s \<Longrightarrow> inv w (cost * (n + m)) s0 \<Longrightarrow> inv w (cost * m) s"
proof (induction arbitrary: m rule: reaches.induct)
  case (step n s l s')
  have "inv w (cost + cost * m) s" using step.IH [of "Suc m"] step.prems by simp
  from progress [OF assms step.hyps(2) this] step.hyps(3) show ?case by auto
qed simp

lemma reaches_not_stuck:
  assumes "world w" "reaches (go w) (ok w) s0 n s" "inv w (cost * Suc n) s0" "ok w l"
  shows "\<exists>s'. go w l s = Some s' \<and> inv w 0 s'"
  using progress [OF assms(1,4), of 0 s] reaches_inv [OF assms(1,2), of 1] assms(3) by (simp add: add.commute)

end

end
