(* ===== verification/Server_Safety.thy ===== *)
theory Server_Safety
  imports Event_Handler Adapter_Protocol Steps
begin

text \<open>
  What the event handlers keep. The invariant of the server puts the invariant of the node together
  with the bounds of the table of connections; every handler returns and keeps it, for every kernel
  that answers as documented. The loops over outboxes and lines are step systems. The garbage
  collector repeats its pass until it has nothing to say: each pass that says something removes a
  job, so it ends.
\<close>

section \<open>The pass shrinks the table of jobs\<close>

text \<open>The jobs left are among those there were, and fewer if there is something to say.\<close>

definition jobs_shrink :: "owned_jobs_t \<Rightarrow> outbox_t \<Rightarrow> owned_jobs_t \<Rightarrow> outbox_t \<Rightarrow> bool" where
  "jobs_shrink jobs outbox jobs' outbox' \<longleftrightarrow> oj_inv jobs' \<and> oj_job jobs' \<subseteq>\<^sub>m oj_job jobs \<and>
     (length outbox' = length outbox \<or> dom (oj_job jobs') \<subset> dom (oj_job jobs))"

lemma jobs_shrink_refl: "oj_inv jobs \<Longrightarrow> jobs_shrink jobs outbox jobs outbox"
  by (simp add: jobs_shrink_def)

lemma shrink_trans_aux:
  assumes "B \<subseteq> A" "C \<subseteq> B" "n = m \<or> B \<subset> A" "l = n \<or> C \<subset> B"
  shows "l = m \<or> C \<subset> A"
  using assms by blast

lemma jobs_shrink_trans:
  assumes "jobs_shrink j1 o1 j2 o2" "jobs_shrink j2 o2 j3 o3"
  shows "jobs_shrink j1 o1 j3 o3"
proof -
  note D = assms [unfolded jobs_shrink_def]
  have "oj_job j3 \<subseteq>\<^sub>m oj_job j1" using D map_le_trans by blast
  moreover have "dom (oj_job j2) \<subseteq> dom (oj_job j1)" "dom (oj_job j3) \<subseteq> dom (oj_job j2)"
    using D map_le_implies_dom_le by blast+
  then have "length o3 = length o1 \<or> dom (oj_job j3) \<subset> dom (oj_job j1)"
    by (rule shrink_trans_aux [where n = "length o2"]) (use D in blast)+
  ultimately show ?thesis using D by (simp add: jobs_shrink_def)
qed

lemma abort_job_shrinks:
  assumes inv: "oj_inv jobs" and job: "oj_job jobs jid \<noteq> None"
    and run: "abort_job word jid jobs outbox = Some (jobs', outbox')"
  shows "jobs_shrink jobs outbox jobs' outbox' \<and> oj_job jobs' = (oj_job jobs)(jid := None)"
proof -
  obtain ps where "get_granted_resources jobs jid MAX_JOB_RESOURCES = Some ps" using ojp.granted_total [OF inv] by blast
  moreover obtain s where "get_job_owner_socket jobs jid = Some s" using ojp.owner_total [OF inv] by blast
  moreover obtain j where j: "remove_owned_job jobs jid = Some j" "oj_inv j" "oj_job j = (oj_job jobs)(jid := None)"
    using ojp.remove_job_inv [OF inv] by blast
  ultimately have "jobs' = j" using run by (simp add: abort_job_def)
  with j job show ?thesis by (auto simp: jobs_shrink_def map_le_def)
qed

lemma abort_bucle_shrinks:
  assumes "oj_inv jobs" "distinct ids" "set ids \<subseteq> dom (oj_job jobs)"
    and "abort_bucle word ids jobs outbox = Some (jobs', outbox')"
  shows "jobs_shrink jobs outbox jobs' outbox'"
  using assms
proof (induction ids arbitrary: jobs outbox)
  case (Cons jid ids)
  from Cons.prems(4) obtain j1 o1 where a: "abort_job word jid jobs outbox = Some (j1, o1)"
    "abort_bucle word ids j1 o1 = Some (jobs', outbox')" by (auto simp: bind_eq_Some_conv)
  have "oj_job jobs jid \<noteq> None" using Cons.prems(3) by auto
  note S = abort_job_shrinks [OF Cons.prems(1) this a(1)]
  have "set ids \<subseteq> dom (oj_job j1)" using S Cons.prems(2,3) by auto
  moreover have "oj_inv j1" "distinct ids" using S Cons.prems(2) by (simp_all add: jobs_shrink_def)
  ultimately have "jobs_shrink j1 o1 jobs' outbox'" using Cons.IH a(2) by blast
  with S show ?case using jobs_shrink_trans by blast
qed (simp add: jobs_shrink_refl)

lemma timeout_bucle_shrinks:
  assumes "oj_inv jobs" "distinct ids" "set ids \<subseteq> dom (oj_job jobs)"
    and "timeout_bucle ids jobs outbox = Some (jobs', outbox')"
  shows "jobs_shrink jobs outbox jobs' outbox'"
  using assms
proof (induction ids arbitrary: jobs outbox)
  case (Cons jid ids)
  obtain ps where ps: "get_granted_resources jobs jid MAX_JOB_RESOURCES = Some ps" using ojp.granted_total [OF Cons.prems(1)] by blast
  show ?case
  proof (cases "MAX_OUTBOX < length outbox + length ps + 1")
    case True
    with ps Cons.prems show ?thesis by (auto simp: jobs_shrink_refl)
  next
    case False
    with ps Cons.prems(4) obtain j1 o1 where a: "abort_job ''JOB_TIMEOUT'' jid jobs outbox = Some (j1, o1)"
      "timeout_bucle ids j1 o1 = Some (jobs', outbox')" by (auto simp: bind_eq_Some_conv)
    have "oj_job jobs jid \<noteq> None" using Cons.prems(3) by auto
    note S = abort_job_shrinks [OF Cons.prems(1) this a(1)]
    have "set ids \<subseteq> dom (oj_job j1)" using S Cons.prems(2,3) by auto
    moreover have "oj_inv j1" "distinct ids" using S Cons.prems(2) by (simp_all add: jobs_shrink_def)
  ultimately have "jobs_shrink j1 o1 jobs' outbox'" using Cons.IH a(2) by blast
    with S show ?thesis using jobs_shrink_trans by blast
  qed
qed (simp add: jobs_shrink_refl)

text \<open>The collectors name jobs of the table, each once.\<close>

lemma selected_jobs:
  assumes "oj_tab jobs"
  shows "distinct (take n (map oj_job_id (filter P (th_list jobs)))) \<and>
    set (take n (map oj_job_id (filter P (th_list jobs)))) \<subseteq> dom (oj_job jobs)"
proof -
  have "distinct (map oj_job_id (filter P (th_list jobs)))" using oj.list_distinct [OF assms] by (simp add: distinct_map_filter)
  moreover have "\<forall>job \<in> set (th_list jobs). oj_job jobs (oj_job_id job) = Some job"
    using oj_job_Some [OF assms] by (simp add: th_set_def)
  ultimately show ?thesis by (auto dest!: in_set_takeD)
qed

lemma dead_nodes_bucle_shrinks:
  assumes "oj_inv (owned_jobs node)" "\<forall>e \<in> set dead. fst e \<noteq> None"
    and "dead_nodes_bucle env conns i dead (node, outbox, closed) = Some (node', outbox', closed')"
  shows "jobs_shrink (owned_jobs node) outbox (owned_jobs node') outbox'"
  using assms
proof (induction dead arbitrary: i node outbox closed)
  case (Cons e dead)
  obtain ip port where e: "e = (Some ip, port)" using Cons.prems(2) by (cases e) auto
  from Cons.prems(3) obtain fd node1 closed1 ids j1 o1 where
    s: "(if fd \<noteq> - 1 then
        do {
          (r, j) \<leftarrow> free_all_resources_from_socket (env_mem env (11 + i)) (resources node) (active_jobs node) (u32_of_int fd);
          Some (node\<lparr>resources := r, active_jobs := j\<rparr>, closed @ [fd])
        }
      else Some (node, closed)) = Some (node1, closed1)"
      "get_jobs_affected_by_dead_node (owned_jobs node1) (Some ip) port 20 = Some ids"
      "abort_bucle ''JOB_DENIED'' ids (owned_jobs node1) outbox = Some (j1, o1)"
      "dead_nodes_bucle env conns (Suc i) dead (node1\<lparr>owned_jobs := j1\<rparr>, o1, closed1) = Some (node', outbox', closed')"
    by (auto simp: e bind_eq_Some_conv)
  have n1: "owned_jobs node1 = owned_jobs node" using s(1) by (auto simp: bind_eq_Some_conv split: if_splits)
  note tab = oj_invD(1) [OF Cons.prems(1)]
  have "distinct ids \<and> set ids \<subseteq> dom (oj_job (owned_jobs node))"
    using s(2) selected_jobs [OF tab] unfolding n1 affected_inv_eq [OF Cons.prems(1)] by auto
  with abort_bucle_shrinks [OF Cons.prems(1)] s(3) have A: "jobs_shrink (owned_jobs node) outbox j1 o1" unfolding n1 by blast
  have "jobs_shrink j1 o1 (owned_jobs node') outbox'"
    using Cons.IH [OF _ _ s(4)] A Cons.prems(2) by (simp add: jobs_shrink_def)
  with A show ?case by (rule jobs_shrink_trans)
qed (simp add: jobs_shrink_refl)

lemma add_to_outbox_grows: "length outbox \<le> length (add_to_outbox outbox msg fd ip port)"
  by (simp add: add_to_outbox_def)

lemma send_releases_grows: "length outbox \<le> length (send_releases jid ps outbox)"
proof (induction ps arbitrary: outbox)
  case (Cons p ps)
  let ?o = "add_to_outbox outbox (petition_msg ''RELEASE'' jid p) (- 1) (jp_ip p) (jp_port p)"
  have "send_releases jid (p # ps) outbox = send_releases jid ps ?o" by (simp add: send_releases_def)
  with order_trans [OF add_to_outbox_grows Cons.IH [of ?o]] show ?case by simp
qed (simp add: send_releases_def)

lemma abort_job_grows:
  assumes "abort_job word jid jobs outbox = Some (jobs', outbox')"
  shows "length outbox \<le> length outbox' \<and> (outbox = [] \<longrightarrow> outbox' \<noteq> [])"
proof -
  obtain ps s where o: "outbox' = add_to_outbox (send_releases jid ps outbox) (job_msg word jid) (int_of_u32 s) None 0"
    using assms by (auto simp: abort_job_def bind_eq_Some_conv)
  have "length outbox \<le> length outbox'" unfolding o by (rule order_trans [OF send_releases_grows add_to_outbox_grows])
  moreover have "outbox' \<noteq> []" by (auto simp: o add_to_outbox_def MAX_OUTBOX_def)
  ultimately show ?thesis by simp
qed

lemma timeout_bucle_grows:
  "timeout_bucle ids jobs outbox = Some (jobs', outbox') \<Longrightarrow> length outbox \<le> length outbox'"
proof (induction ids arbitrary: jobs outbox)
  case (Cons jid ids)
  then show ?case
    by (auto simp: bind_eq_Some_conv split: if_splits dest!: abort_job_grows intro: order_trans [OF _ Cons.IH])
qed simp

lemma timeout_bucle_speaks:
  assumes inv: "oj_inv jobs" and run: "timeout_bucle ids jobs [] = Some (jobs', [])" and ids: "set ids \<subseteq> dom (oj_job jobs)"
  shows "ids = [] \<and> jobs' = jobs"
proof (cases ids)
  case (Cons jid rest)
  then obtain job where job: "oj_job jobs jid = Some job" using ids by auto
  note ok = oj_invD(2) [OF inv job]
  have "get_granted_resources jobs jid MAX_JOB_RESOURCES = Some (take (oj_grants job) (oj_petitions job))"
    using granted_prefix [OF inv job] by blast
  moreover have "\<not> MAX_OUTBOX < length (take (oj_grants job) (oj_petitions job)) + 1"
    using oj_okD(1) [OF ok] by (auto simp: MAX_OUTBOX_def MAX_JOB_RESOURCES_def)
  ultimately obtain j1 o1 where "abort_job ''JOB_TIMEOUT'' jid jobs [] = Some (j1, o1)" "timeout_bucle rest j1 o1 = Some (jobs', [])"
    using run Cons by (auto simp: bind_eq_Some_conv)
  then show ?thesis using abort_job_grows timeout_bucle_grows by fastforce
qed (use run in simp)

lemma no_timeouts:
  assumes "oj_tab jobs" "collect_timed_out_jobs now jobs 20 = []" "oj_job jobs jid = Some job"
  shows "\<not> (oj_grant_notified job = 0 \<and> JOB_TIMEOUT < now - oj_created_at job)"
proof -
  have "filter (\<lambda>job. oj_grant_notified job = 0 \<and> JOB_TIMEOUT < now - oj_created_at job) (th_list jobs) = []"
    using assms(2) by (simp add: timed_out_eq [OF assms(1)])
  moreover have "job \<in> set (th_list jobs)" using oj_job_Some [OF assms(1)] assms(3) by (simp add: th_set_def)
  ultimately show ?thesis by (auto simp: filter_empty_conv)
qed

lemma deadnodes_jobs:
  assumes inv: "node_inv node" and small: "numElems (known_nodes node) < 2 ^ 31" and env: "env_ok env"
    and run: "handle_check_deadnodes env conns node [] = Some (node', outbox, closed)"
  shows "jobs_shrink (owned_jobs node) [] (owned_jobs node') outbox \<and>
    (outbox = [] \<longrightarrow> collect_timed_out_jobs (env_now env) (owned_jobs node') 20 = [])"
proof -
  have mem: "env_mem env i" for i using env by (simp add: env_ok_def)
  from remove_inactive_spec [OF node_invD(3) [OF inv] small, where m = 10 and now = "env_now env" and
      dup = "\<lambda>i. env_mem env (1 + i)" and j = 0]
  obtain dead known' where R: "remove_inactive_nodes True (\<lambda>i. env_mem env (1 + i)) (env_now env) (known_nodes node) 10 =
      Some (kn_report (\<lambda>i. env_mem env (1 + i)) dead, known')" by blast
  let ?dead = "kn_report (\<lambda>i. env_mem env (1 + i)) dead" and ?node = "node\<lparr>known_nodes := known'\<rparr>"
  have ips: "\<forall>e \<in> set ?dead. fst e \<noteq> None" using kn_report_ip [of "\<lambda>i. env_mem env (1 + i)"] mem by blast
  obtain node1 o1 c1 jobs' where D: "dead_nodes_bucle env conns 0 ?dead (?node, [], []) = Some (node1, o1, c1)"
    and T: "timeout_bucle (collect_timed_out_jobs (env_now env) (owned_jobs node1) 20) (owned_jobs node1) o1 = Some (jobs', outbox)"
    and node': "node' = node1\<lparr>owned_jobs := jobs'\<rparr>"
    using run mem R by (auto simp: handle_check_deadnodes_def bind_eq_Some_conv)
  have A: "jobs_shrink (owned_jobs node) [] (owned_jobs node1) o1"
    using dead_nodes_bucle_shrinks [OF _ ips D] node_invD(2) [OF inv] by simp
  then have inv1: "oj_inv (owned_jobs node1)" by (simp add: jobs_shrink_def)
  note sel = selected_jobs [OF oj_invD(1) [OF inv1]]
  have ids: "distinct (collect_timed_out_jobs (env_now env) (owned_jobs node1) 20)"
    "set (collect_timed_out_jobs (env_now env) (owned_jobs node1) 20) \<subseteq> dom (oj_job (owned_jobs node1))"
    unfolding timed_out_eq [OF oj_invD(1) [OF inv1]] using sel by blast+
  have "jobs_shrink (owned_jobs node1) o1 jobs' outbox" by (rule timeout_bucle_shrinks [OF inv1 ids T])
  with A have "jobs_shrink (owned_jobs node) [] jobs' outbox" by (rule jobs_shrink_trans)
  moreover have "collect_timed_out_jobs (env_now env) jobs' 20 = []" if "outbox = []"
  proof -
    have "o1 = []" using timeout_bucle_grows [OF T] that by simp
    with timeout_bucle_speaks [OF inv1 _ ids(2)] T that show ?thesis by auto
  qed
  ultimately show ?thesis by (simp add: node')
qed

section \<open>The invariant of the server\<close>

definition conns_ok :: "connections \<Rightarrow> bool" where
  "conns_ok cs \<longleftrightarrow> length cs = MAX_FDS \<and>
     list_all (\<lambda>c. length (cn_ip c) \<le> 15 \<and> length (pending_message c) < BUFFER_SIZE) cs"

text \<open>The node has its invariant, room for \<open>j\<close> more elements and the capacity \<open>tot\<close>.\<close>

definition server_inv_for :: "(elem_owned_job_t \<Rightarrow> bool) \<Rightarrow> nat \<Rightarrow> (resource_t \<Rightarrow> u32) \<Rightarrow> server \<Rightarrow> bool" where
  "server_inv_for ok j tot s \<longleftrightarrow> conns_ok (sv_conns s) \<and>
     (case mynode (sv_ctx s) of
        None \<Rightarrow> False
      | Some node \<Rightarrow> node_inv_for ok node \<and> node_room j node \<and> total (resources node) = tot)"

abbreviation server_inv :: "nat \<Rightarrow> (resource_t \<Rightarrow> u32) \<Rightarrow> server \<Rightarrow> bool" where
  "server_inv \<equiv> server_inv_for oj_ok"

text \<open>
  What the kernel promises: descriptors are not below -1, \<^verbatim>\<open>send\<close> and \<^verbatim>\<open>recv\<close> keep to the sizes given,
  and a full socket does not stay full forever.
\<close>

definition kernel_ok :: "kernel \<Rightarrow> (history \<Rightarrow> nat) \<Rightarrow> bool" where
  "kernel_ok k \<mu> \<longleftrightarrow> send_sane k \<and> send_patient k \<mu> \<and> (\<forall>h ty. - 1 \<le> sr_ret (k h (Socket ty))) \<and>
     (\<forall>h fd. - 1 \<le> sr_ret (k h (Accept fd))) \<and> (\<forall>h fd n. sr_ret (k h (Recv fd n)) \<le> int n)"

text \<open>What is assumed of the peers: no line overruns the array of \<^verbatim>\<open>handle_reserve\<close>.\<close>

definition peers_ok :: "kernel \<Rightarrow> bool" where
  "peers_ok k \<longleftrightarrow> (\<forall>h fd n. list_all reserve_fits
     (strtok CHR ''\<newline>'' (c_string (take (nat (sr_ret (k h (Recv fd n)))) (sr_data (k h (Recv fd n)))))))"

lemma kernel_okD:
  assumes "kernel_ok k \<mu>"
  shows "send_sane k" "send_patient k \<mu>" "- 1 \<le> sr_ret (k h (Socket ty))" "- 1 \<le> sr_ret (k h (Accept fd))"
    "sr_ret (k h (Recv fd n)) \<le> int n"
  using assms by (simp_all add: kernel_ok_def)

lemma server_inv_mono: "server_inv_for ok j tot s \<Longrightarrow> i \<le> j \<Longrightarrow> server_inv_for ok i tot s"
  by (auto simp: server_inv_for_def split: option.splits intro: node_room_mono)

lemma server_inv_hist [simp]:
  "server_inv_for ok j tot (s\<lparr>sv_hist := h\<rparr>) = server_inv_for ok j tot s" "server_inv_for ok j tot (s\<lparr>sv_calls := n\<rparr>) = server_inv_for ok j tot s"
  "server_inv_for ok j tot (call c s) = server_inv_for ok j tot s" "server_inv_for ok j tot (snd (syscalls m s)) = server_inv_for ok j tot s"
  by (simp_all add: server_inv_for_def call_def syscalls_def split: prod.split)

lemma server_frame [simp]:
  "sv_ctx (call c s) = sv_ctx s" "sv_conns (call c s) = sv_conns s" "sv_calls (call c s) = sv_calls s"
  "sv_ctx (snd (syscalls m s)) = sv_ctx s" "sv_conns (snd (syscalls m s)) = sv_conns s"
  "sv_calls (snd (syscalls m s)) = sv_calls s"
  by (simp_all add: call_def syscalls_def split: prod.split)

lemma conns_ok_update:
  assumes "conns_ok cs" "length (cn_ip c) \<le> 15" "length (pending_message c) < BUFFER_SIZE"
  shows "conns_ok (cs[i := c])"
  using assms set_update_subset_insert [of cs i c] by (auto simp: conns_ok_def list_all_iff)

lemma conns_ok_nth: "conns_ok cs \<Longrightarrow> i < MAX_FDS \<Longrightarrow> length (cn_ip (cs ! i)) \<le> 15 \<and> length (pending_message (cs ! i)) < BUFFER_SIZE"
  by (simp add: conns_ok_def list_all_length)

lemma server_inv_conns:
  assumes "server_inv_for ok j tot s" "conns_ok cs"
  shows "server_inv_for ok j tot (s\<lparr>sv_conns := cs\<rparr>)"
  using assms by (simp add: server_inv_for_def)

section \<open>Sending\<close>

lemma send_one_safe:
  assumes inv: "server_inv j tot s" and ker: "kernel_ok k \<mu>" and m: "length (target_ip m) \<le> 15"
  shows "\<exists>s'. send_one k m s = Some s' \<and> server_inv j tot s' \<and> sv_ctx s' = sv_ctx s \<and> sv_calls s' = sv_calls s"
proof -
  obtain target where t: "(if target_fd m = - 1
      then find_fd_by_ip_port (sv_conns s) (Some (target_ip m)) (u32_of_int (target_port m)) else Some (target_fd m)) = Some target"
    using find_bucle_spec [of 0 "sv_conns s" "target_ip m" "u32_of_int (target_port m)"]
    by (cases "target_fd m = - 1") (auto simp: find_fd_by_ip_port_def)
  show ?thesis
  proof (cases "target = - 1")
    case False
    obtain r cs where "send_tcp_message k target (message m) (sv_hist s) = Some (r, sv_hist s @ cs)"
      using send_tcp_message_spec [OF kernel_okD(1,2) [OF ker], of target "message m" "sv_hist s"] by blast
    with t False inv show ?thesis by (simp add: send_one_def)
  next
    case True
    obtain new_fd s1 where c: "syscalls (connect_to_tcp_node k (target_ip m) (target_port m)) s = (new_fd, s1)" by fastforce
    have s1: "s1 = snd (syscalls (connect_to_tcp_node k (target_ip m) (target_port m)) s)" by (simp add: c)
    have fd: "- 1 \<le> new_fd"
      using c opens_fd [OF opens_connect, of k "target_ip m" "target_port m" "sv_hist s"] kernel_okD(3) [OF ker]
      by (auto simp: syscalls_def split: prod.splits)
    have inv1: "server_inv j tot s1" "sv_ctx s1 = sv_ctx s" "sv_calls s1 = sv_calls s" using inv by (simp_all add: s1)
    have "conns_ok (open_connection new_fd (strncpy 16 (target_ip m)) (u32_of_int (target_port m))
        (strncpy (BUFFER_SIZE - 1) (message m)) (sv_conns s1))"
      unfolding open_connection_def
      using inv1(1) m by (intro conns_ok_update) (auto simp: server_inv_for_def strncpy_def BUFFER_SIZE_def)
    note inv2 = server_inv_conns [OF inv1(1) this]
    consider "new_fd = - 1" | "int MAX_FDS \<le> new_fd" | "0 \<le> new_fd" "new_fd < int MAX_FDS" using fd by linarith
    then show ?thesis using t True inv1 inv2 by cases (simp_all add: send_one_def c)
  qed
qed

text \<open>Sending a message is a step that costs nothing; \<open>c\<close> and \<open>n\<close> are the context and the calls it keeps.\<close>

interpretation out: step_system "\<lambda>(k, tot, c, n). send_one k" "\<lambda>(k, tot, c, n). \<exists>\<mu>. kernel_ok k \<mu>"
  "\<lambda>w (m :: out_msg_t). length (target_ip m) \<le> 15" "\<lambda>(k, tot, c, n) j s. server_inv j tot s \<and> sv_ctx s = c \<and> sv_calls s = n" 0
proof (unfold_locales, clarsimp)
  fix k \<mu> tot s j and m :: out_msg_t assume "kernel_ok k \<mu>" "length (target_ip m) \<le> 15" "server_inv j tot s"
  then show "\<exists>s'. send_one k m s = Some s' \<and> server_inv j tot s' \<and> sv_ctx s' = sv_ctx s \<and> sv_calls s' = sv_calls s"
    using send_one_safe by blast
qed

lemma send_outbox_runs: "send_outbox k outbox s = runs (send_one k) outbox s"
  by (induction outbox arbitrary: s) (simp_all split: Option.bind_splits)

lemma send_outbox_safe:
  assumes "server_inv j tot s" "kernel_ok k \<mu>" "outbox_ok outbox"
  shows "\<exists>s'. send_outbox k outbox s = Some s' \<and> server_inv j tot s' \<and> sv_ctx s' = sv_ctx s \<and> sv_calls s' = sv_calls s"
proof -
  have "list_all (\<lambda>m. length (target_ip m) \<le> 15) outbox" using assms(3) by (auto simp: outbox_ok_def list_all_iff)
  with out.runs_safe [of "(k, tot, sv_ctx s, sv_calls s)" outbox j s] assms(1,2) show ?thesis
    unfolding send_outbox_runs by auto
qed

section \<open>The handlers keep the invariant\<close>

text \<open>A call of the protocol: the node stays in its invariant, the rest of the server is untouched.\<close>

lemma adapter_call_safe:
  assumes inv: "server_inv (Suc j) tot s" and envs: "\<And>i. env_ok (envs i)"
    and sender: "action \<in> {ACTION_RESPOND, ACTION_NEW_NODE_DISCOVERED, ACTION_DISCONNECTED} \<longrightarrow> ip \<noteq> None"
    and fits: "action = ACTION_RESPOND \<longrightarrow> pred_option reserve_fits buffer"
  shows "\<exists>outbox s'. adapter_call envs ip socket buffer action s = Some (outbox, s') \<and> server_inv j tot s' \<and> outbox_ok outbox \<and>
    epollfd (sv_ctx s') = epollfd (sv_ctx s) \<and> udp_fd (sv_ctx s') = udp_fd (sv_ctx s)"
proof -
  obtain node where node: "mynode (sv_ctx s) = Some node" "node_inv node" "node_room (Suc j) node" "total (resources node) = tot"
    and cs: "conns_ok (sv_conns s)"
    using inv by (auto simp: server_inv_for_def split: option.splits)
  let ?e = "\<lparr>ev_env = envs (sv_calls s), ev_conns = sv_conns s, ev_sender = ip, ev_socket = socket, ev_buffer = buffer,
    ev_action = action\<rparr>"
  have "event_ok ?e" using envs [of "sv_calls s"] sender fits by (simp add: event_ok_def)
  from ojp.adapter_step_safe [OF node(2,3) this, of "ctx_port (sv_ctx s)"] obtain node' outbox closed where
    a: "resource_adapter_patch (envs (sv_calls s)) (sv_conns s) (ctx_port (sv_ctx s)) (Some node) ip socket buffer [] action =
      Some (Some node', outbox, closed)" and "node_safe oj_ok j tot (Some (node', outbox))"
    using node(4) by (auto simp: adapter_step_def)
  then show ?thesis using node(1) cs by (simp add: adapter_call_def node_safe_def server_inv_for_def)
qed

lemma answer_line_safe:
  assumes inv: "server_inv (Suc j) tot s" and ker: "kernel_ok k \<mu>" and envs: "\<And>i. env_ok (envs i)" and line: "reserve_fits line"
  shows "\<exists>s'. answer_line k envs ip fd line s = Some s' \<and> server_inv j tot s'"
proof -
  from adapter_call_safe [where envs = envs, OF inv envs, of ACTION_RESPOND "Some ip" "Some line" "u32_of_int fd"] line
  obtain outbox s1 where a: "adapter_call envs (Some ip) (u32_of_int fd) (Some line) ACTION_RESPOND s = Some (outbox, s1)"
    "server_inv j tot s1" "outbox_ok outbox" by auto
  with send_outbox_safe [OF a(2) ker a(3)] server_inv_mono [OF inv, of j] show ?thesis by (auto simp: answer_line_def)
qed

text \<open>Answering a line is a step that may use up one place.\<close>

interpretation ln: step_system "\<lambda>(k, envs, tot, ip, fd). answer_line k envs ip fd"
  "\<lambda>(k, envs, tot, ip, fd). (\<exists>\<mu>. kernel_ok k \<mu>) \<and> (\<forall>i. env_ok (envs i))" "\<lambda>w. reserve_fits"
  "\<lambda>(k, envs, tot, ip, fd) j s. server_inv j tot s" 1
  by unfold_locales (auto intro: answer_line_safe)

lemma lines_bucle_runs: "lines_bucle k envs ip fd lines s = runs (answer_line k envs ip fd) lines s"
  by (induction lines arbitrary: s) (simp_all split: Option.bind_splits)

lemma lines_bucle_safe:
  assumes ker: "kernel_ok k \<mu>" and envs: "\<And>i. env_ok (envs i)"
    and "server_inv (length lines + j) tot s" "list_all reserve_fits lines"
  shows "\<exists>s'. lines_bucle k envs ip fd lines s = Some s' \<and> server_inv j tot s'"
  using ln.runs_safe [of "(k, envs, tot, ip, fd)" lines j s] assms unfolding lines_bucle_runs by auto

lemma strtok_aux_count: "length (strtok_aux d tok s) \<le> length s + (if tok = [] then 0 else 1)"
  by (induction d tok s rule: strtok_aux.induct) auto

lemma strtok_count: "length (strtok d s) \<le> length s"
  using strtok_aux_count [of d "[]" s] by (simp add: strtok_def)

lemma c_string_length: "length (c_string (take n bytes)) \<le> n"
  using length_takeWhile_le [of "\<lambda>c. c \<noteq> CHR 0x00" "take n bytes"] by (simp add: c_string_def)

lemma disconnect_safe:
  assumes inv: "server_inv (Suc j) tot s" and ker: "kernel_ok k \<mu>" and envs: "\<And>i. env_ok (envs i)"
  shows "\<exists>outbox s2 s3. adapter_call envs (Some ip) socket buffer ACTION_DISCONNECTED s = Some (outbox, s2) \<and>
    send_outbox k outbox s2 = Some s3 \<and> server_inv j tot s3"
proof -
  obtain outbox s2 where a: "adapter_call envs (Some ip) socket buffer ACTION_DISCONNECTED s = Some (outbox, s2)"
    "server_inv j tot s2" "outbox_ok outbox"
    using adapter_call_safe [where envs = envs, OF inv envs, of ACTION_DISCONNECTED "Some ip" buffer socket] by auto
  with send_outbox_safe [OF a(2) ker a(3)] show ?thesis by blast
qed

lemma reset_connection_ok: "server_inv_for ok j tot s \<Longrightarrow> server_inv_for ok j tot (s\<lparr>sv_conns := reset_connection fd (sv_conns s)\<rparr>)"
  by (rule server_inv_conns) (auto simp: reset_connection_def server_inv_for_def BUFFER_SIZE_def intro!: conns_ok_update)

lemma client_message_safe:
  assumes inv: "server_inv (BUFFER_SIZE + j) tot s" and ker: "kernel_ok k \<mu>" and envs: "\<And>i. env_ok (envs i)"
    and peers: "peers_ok k" and fd: "0 \<le> curr_fd" "curr_fd < int MAX_FDS"
  shows "\<exists>s'. handle_client_message k envs s curr_fd = Some (1, s') \<and> server_inv j tot s'"
proof -
  obtain bytes buf s1 where r: "syscalls (receive_tcp_message k curr_fd BUFFER_SIZE) s = ((bytes, buf), s1)"
    by (metis prod.exhaust)
  have inv1: "server_inv (BUFFER_SIZE + j) tot s1" using inv server_inv_hist(4) [of _ _ _ "receive_tcp_message k curr_fd BUFFER_SIZE" s] r by simp
  let ?a = "k (sv_hist s) (Recv curr_fd (BUFFER_SIZE - 1))"
  have B: "bytes \<le> 1023" "0 < bytes \<Longrightarrow> buf = c_string (take (nat (sr_ret ?a)) (sr_data ?a))"
    "0 < bytes \<Longrightarrow> bytes = sr_ret ?a"
    using r kernel_okD(5) [OF ker, of "sv_hist s" curr_fd 1023]
    by (auto simp: syscalls_def Let_def BUFFER_SIZE_def split: if_splits)
  let ?ip = "strncpy 16 (cn_ip (sv_conns s ! nat curr_fd))"
  consider (data) "0 < bytes" | (gone) "\<not> 0 < bytes" "bytes \<noteq> - 2" | (none) "bytes = - 2" by linarith
  then show ?thesis
  proof cases
    case data
    have "length (strtok CHR ''\<newline>'' buf) \<le> BUFFER_SIZE"
      using strtok_count [of "CHR ''\<newline>''" buf] c_string_length [of "nat (sr_ret ?a)" "sr_data ?a"] B data
      by (simp add: BUFFER_SIZE_def)
    then have "server_inv (length (strtok CHR ''\<newline>'' buf) + j) tot s1" by (intro server_inv_mono [OF inv1]) simp
    moreover have "list_all reserve_fits (strtok CHR ''\<newline>'' buf)" using peers B(2) [OF data] by (simp add: peers_ok_def)
    ultimately obtain s2 where "lines_bucle k envs ?ip curr_fd (strtok CHR ''\<newline>'' buf) s1 = Some s2" "server_inv j tot s2"
      using lines_bucle_safe [where envs = envs, OF ker envs] by blast
    with fd data r show ?thesis by (simp add: handle_client_message_def)
  next
    case gone
    have "server_inv (Suc j) tot s1" by (rule server_inv_mono [OF inv1]) (simp add: BUFFER_SIZE_def)
    from disconnect_safe [where envs = envs, OF this ker envs, of ?ip "u32_of_int curr_fd" None] obtain outbox s2 s3 where
      d: "adapter_call envs (Some ?ip) (u32_of_int curr_fd) None ACTION_DISCONNECTED s1 = Some (outbox, s2)"
        "send_outbox k outbox s2 = Some s3" "server_inv j tot s3" by blast
    let ?s5 = "call (Close curr_fd) (snd (syscalls (remove_from_epoll_interest_list k (epollfd (sv_ctx s3)) curr_fd) s3))"
    have "server_inv j tot (?s5\<lparr>sv_conns := reset_connection curr_fd (sv_conns ?s5)\<rparr>)"
      by (rule reset_connection_ok) (simp add: d(3))
    with fd gone r d(1,2) show ?thesis by (simp add: handle_client_message_def Let_def)
  next
    case none
    with fd r server_inv_mono [OF inv1, of j] show ?thesis by (simp add: handle_client_message_def)
  qed
qed

lemma connection_success_safe:
  assumes inv: "server_inv (Suc j) tot s" and ker: "kernel_ok k \<mu>" and envs: "\<And>i. env_ok (envs i)"
    and fd: "0 \<le> curr_fd" "curr_fd < int MAX_FDS"
  shows "\<exists>s'. handle_connection_success k envs s curr_fd = Some s' \<and> server_inv j tot s'"
proof -
  obtain r s1 where r: "syscalls (sys k (Getsockopt_error curr_fd)) s = (r, s1)" by fastforce
  have inv1: "server_inv (Suc j) tot s1" using inv server_inv_hist(4) [of _ _ _ "sys k (Getsockopt_error curr_fd)" s] r by simp
  let ?ip = "strncpy 16 (cn_ip (sv_conns s ! nat curr_fd))"
  show ?thesis
  proof (cases "sr_ret r < 0 \<or> sr_addr r \<noteq> 0")
    case True
    from disconnect_safe [where envs = envs, OF inv1 ker envs, of ?ip "u32_of_int curr_fd" "Some ''CONNECT_FAILED''"] obtain outbox s2 s3 where
      d: "adapter_call envs (Some ?ip) (u32_of_int curr_fd) (Some ''CONNECT_FAILED'') ACTION_DISCONNECTED s1 = Some (outbox, s2)"
        "send_outbox k outbox s2 = Some s3" "server_inv j tot s3" by blast
    with fd True r reset_connection_ok [OF d(3)] show ?thesis by (simp add: handle_connection_success_def Let_def)
  next
    case False
    let ?c = "sv_conns s1 ! nat curr_fd"
    obtain q cs where "send_tcp_message k curr_fd (pending_message ?c) (sv_hist s1) = Some (q, sv_hist s1 @ cs)"
      using send_tcp_message_spec [OF kernel_okD(1,2) [OF ker], of curr_fd "pending_message ?c" "sv_hist s1"] by blast
    moreover have "conns_ok (sv_conns s1)" "nat curr_fd < MAX_FDS" using inv1 fd by (simp_all add: server_inv_for_def)
    then have "conns_ok ((sv_conns s1)[nat curr_fd := ?c\<lparr>pending_message := []\<rparr>])"
      using conns_ok_nth [of "sv_conns s1" "nat curr_fd"] by (intro conns_ok_update) (simp_all add: BUFFER_SIZE_def)
    from server_inv_conns [OF server_inv_mono [OF inv1, of j] this]
    have "server_inv j tot (s1\<lparr>sv_conns := (sv_conns s1)[nat curr_fd := ?c\<lparr>pending_message := []\<rparr>]\<rparr>)" by simp
    ultimately show ?thesis using fd False r
      by (simp add: handle_connection_success_def Let_def server_inv_for_def)
  qed
qed

lemma new_connection_safe:
  assumes inv: "server_inv j tot s" and ker: "kernel_ok k \<mu>"
  shows "\<exists>s'. handle_new_tcp_connection k s server_fd = Some s' \<and> server_inv j tot s'"
proof -
  obtain fd ip s1 where a: "syscalls (accept_tcp_connection k server_fd) s = ((fd, ip), s1)" by (metis prod.exhaust)
  have inv1: "server_inv j tot s1" using inv server_inv_hist(4) [of _ _ _ "accept_tcp_connection k server_fd" s] a by simp
  have fd: "- 1 \<le> fd" "length ip \<le> 15"
    using a kernel_okD(4) [OF ker, of "sv_hist s" server_fd] inet_ntoa_length [of "sr_addr (k (sv_hist s) (Accept server_fd))"]
    by (auto simp: syscalls_def accept_tcp_connection_def Let_def split: if_splits)
  have "conns_ok (open_connection fd (strncpy 16 ip) 0 [] (sv_conns s1))"
    unfolding open_connection_def using inv1 fd(2)
    by (intro conns_ok_update) (auto simp: server_inv_for_def strncpy_def BUFFER_SIZE_def)
  from server_inv_conns [OF inv1 this] inv1 fd(1) show ?thesis by (simp add: handle_new_tcp_connection_def a)
qed

lemma udp_timer_safe:
  assumes inv: "server_inv (Suc j) tot s" and envs: "\<And>i. env_ok (envs i)"
  shows "\<exists>s'. handle_udp_timer_expiration k envs s = Some s' \<and> server_inv j tot s'"
proof -
  obtain outbox s1 where a: "adapter_call envs None 0 None ACTION_GET_RESOURCES s = Some (outbox, s1)" "server_inv j tot s1"
    using adapter_call_safe [where envs = envs, OF inv envs, of ACTION_GET_RESOURCES None None 0] by auto
  then show ?thesis by (cases outbox) (simp_all add: handle_udp_timer_expiration_def)
qed

lemma discovery_safe:
  assumes inv: "server_inv (Suc j) tot s" and envs: "\<And>i. env_ok (envs i)"
  shows "\<exists>s'. handle_incoming_discovery k envs s = Some s' \<and> server_inv j tot s'"
proof -
  obtain r s1 where d: "syscalls (process_discovery_datagram k (udp_fd (sv_ctx s)) BUFFER_SIZE) s = (r, s1)" by fastforce
  have inv1: "server_inv (Suc j) tot s1"
    using inv server_inv_hist(4) [of _ _ _ "process_discovery_datagram k (udp_fd (sv_ctx s)) BUFFER_SIZE" s] d by simp
  show ?thesis
  proof (cases r)
    case None
    with d server_inv_mono [OF inv1, of j] show ?thesis by (simp add: handle_incoming_discovery_def)
  next
    case (Some p)
    obtain buffer ip where "p = (buffer, ip)" by fastforce
    with Some d adapter_call_safe [where envs = envs, OF inv1 envs, of ACTION_NEW_NODE_DISCOVERED "Some ip" "Some buffer" 0]
    show ?thesis by (auto simp: handle_incoming_discovery_def)
  qed
qed

lemma tcp_timer_safe: "server_inv j tot s \<Longrightarrow> server_inv j tot (handle_tcp_timer_expiration k s)"
  by (simp add: handle_tcp_timer_expiration_def Let_def server_inv_for_def split: option.splits)

section \<open>The garbage collector ends\<close>

definition sv_node :: "server \<Rightarrow> node_data_t" where
  "sv_node s = the (mynode (sv_ctx s))"

abbreviation sv_jobs :: "server \<Rightarrow> u32 \<rightharpoonup> elem_owned_job_t" where
  "sv_jobs s \<equiv> oj_job (owned_jobs (sv_node s))"

text \<open>A job the scheduler should have been told about.\<close>

definition overdue :: "int \<Rightarrow> elem_owned_job_t \<Rightarrow> bool" where
  "overdue now job \<longleftrightarrow> oj_grant_notified job = 0 \<and> JOB_TIMEOUT < now - oj_created_at job"

lemma gc_pass_spec:
  assumes inv: "server_inv j tot s" and ker: "kernel_ok k \<mu>" and envs: "\<And>i. env_ok (envs i)"
  shows "\<exists>n s'. gc_pass k envs s = Some (n, s') \<and> server_inv j tot s' \<and> sv_calls s' = Suc (sv_calls s) \<and>
    sv_jobs s' \<subseteq>\<^sub>m sv_jobs s \<and> (n = 0 \<or> dom (sv_jobs s') \<subset> dom (sv_jobs s)) \<and>
    (n = 0 \<longrightarrow> (\<forall>jid job. sv_jobs s' jid = Some job \<longrightarrow> \<not> overdue (env_now (envs (sv_calls s))) job))"
proof -
  obtain node where node: "mynode (sv_ctx s) = Some node" "node_inv node" "node_room j node" "total (resources node) = tot"
    and cs: "conns_ok (sv_conns s)"
    using inv by (auto simp: server_inv_for_def split: option.splits)
  let ?env = "envs (sv_calls s)"
  obtain node' outbox closed where d: "handle_check_deadnodes ?env (sv_conns s) node [] = Some (node', outbox, closed)"
    and safe: "node_inv node'" "node_room j node'" "total (resources node') = tot" "outbox_ok outbox"
    using ojp.deadnodes_safe [OF node(2,3) outbox_ok_Nil envs [of "sv_calls s"], of "sv_conns s"] node(4)
    by (auto simp: node_safe_def)
  have "numElems (known_nodes node) < 2 ^ 31" using node(3) by (simp add: node_room_def th_room_def)
  note J = deadnodes_jobs [OF node(2) this envs [of "sv_calls s"] d]
  let ?s1 = "s\<lparr>sv_ctx := (sv_ctx s)\<lparr>mynode := Some node'\<rparr>, sv_hist := sv_hist s @ map Close closed, sv_calls := Suc (sv_calls s)\<rparr>"
  have a: "adapter_call envs None (- 1) None ACTION_CHECK_DEADNODES s = Some (outbox, ?s1)"
    using d node(1) by (simp add: adapter_call_def resource_adapter_patch_def)
  have "server_inv j tot ?s1" using safe cs by (simp add: server_inv_for_def)
  from send_outbox_safe [OF this ker safe(4)] obtain s2 where
    s2: "send_outbox k outbox ?s1 = Some s2" "server_inv j tot s2" "sv_ctx s2 = sv_ctx ?s1" "sv_calls s2 = Suc (sv_calls s)" by auto
  have nodes: "sv_node s = node" "sv_node s2 = node'" using node(1) s2(3) by (simp_all add: sv_node_def)
  have "\<not> overdue (env_now ?env) job" if "outbox = []" "oj_job (owned_jobs node') jid = Some job" for jid job
    using no_timeouts [OF _ _ that(2)] oj_invD(1) [OF node_invD(2) [OF safe(1)]] J that(1) by (auto simp: overdue_def)
  moreover have "gc_pass k envs s = Some (length outbox, s2)" using a s2(1) by (simp add: gc_pass_def)
  ultimately show ?thesis using s2(2,4) J by (auto simp: nodes jobs_shrink_def)
qed

lemma gc_bucle_spec:
  assumes ker: "kernel_ok k \<mu>" and envs: "\<And>i. env_ok (envs i)"
  shows "server_inv j tot s \<Longrightarrow> \<exists>s'. gc_bucle k envs s = Some s' \<and> server_inv j tot s' \<and> sv_calls s < sv_calls s' \<and>
    sv_jobs s' \<subseteq>\<^sub>m sv_jobs s \<and>
    (\<forall>jid job. sv_jobs s' jid = Some job \<longrightarrow> \<not> overdue (env_now (envs (sv_calls s' - 1))) job)"
proof (induction "card (dom (sv_jobs s))" arbitrary: s rule: less_induct)
  case less
  from gc_pass_spec [where envs = envs, OF less.prems ker envs] obtain n s1 where
    p: "gc_pass k envs s = Some (n, s1)" "server_inv j tot s1" "sv_calls s1 = Suc (sv_calls s)" "sv_jobs s1 \<subseteq>\<^sub>m sv_jobs s"
      "n = 0 \<or> dom (sv_jobs s1) \<subset> dom (sv_jobs s)"
      "n = 0 \<longrightarrow> (\<forall>jid job. sv_jobs s1 jid = Some job \<longrightarrow> \<not> overdue (env_now (envs (sv_calls s))) job)" by blast
  show ?case
  proof (cases "n = 0")
    case True
    then have "gc_bucle k envs s = Some s1" using p(1) by (subst gc_bucle.simps) simp
    with p True show ?thesis by simp
  next
    case False
    have "oj_tab (owned_jobs (sv_node s))"
      using less.prems oj_invD(1) [OF node_invD(2)] by (auto simp: server_inv_for_def sv_node_def split: option.splits)
    then have "finite (dom (sv_jobs s))" using numElems_dom by blast
    then have "card (dom (sv_jobs s1)) < card (dom (sv_jobs s))" using p(5) False by (intro psubset_card_mono) auto
    from less.hyps [OF this p(2)] obtain s' where
      IH: "gc_bucle k envs s1 = Some s'" "server_inv j tot s'" "sv_calls s1 < sv_calls s'" "sv_jobs s' \<subseteq>\<^sub>m sv_jobs s1"
        "\<forall>jid job. sv_jobs s' jid = Some job \<longrightarrow> \<not> overdue (env_now (envs (sv_calls s' - 1))) job" by blast
    have "gc_bucle k envs s = Some s'" using p(1) False IH(1) by (subst gc_bucle.simps) simp
    with IH(2,3,5) p(3) map_le_trans [OF IH(4) p(4)] show ?thesis by auto
  qed
qed

section \<open>A sample kernel and server\<close>

text \<open>A kernel whose peer always sends the same RESERVE line; new descriptors are the number of calls made.\<close>

definition sample_kernel :: kernel where
  "sample_kernel h c =
     (let answer = \<lparr>sr_ret = 0, sr_err = EOTHER, sr_data = [], sr_addr = 0\<rparr>
      in case c of
           Send fd m \<Rightarrow> answer\<lparr>sr_ret := int (length m)\<rparr>
         | Recv fd n \<Rightarrow> if n < 16 then answer else answer\<lparr>sr_ret := 16, sr_data := ''RESERVE 7 cpu 3\<newline>''\<rparr>
         | Socket ty \<Rightarrow> answer\<lparr>sr_ret := int (length h)\<rparr>
         | Accept fd \<Rightarrow> answer\<lparr>sr_ret := int (length h)\<rparr>
         | Timerfd_create \<Rightarrow> answer\<lparr>sr_ret := int (length h)\<rparr>
         | _ \<Rightarrow> answer)"

lemma sample_kernel_ok: "kernel_ok sample_kernel (\<lambda>_. 0)"
  by (auto simp: kernel_ok_def send_sane_def send_patient_def sample_kernel_def Let_def)

lemma sample_line_fits: "reserve_fits ''RESERVE 7 cpu 3''"
  by (simp add: reserve_fits_def lits_def scan_u_def scan_dec_def scan_s_def is_space_def is_digit_def Let_def)

lemma sample_peers_ok: "peers_ok sample_kernel"
  using sample_line_fits by (auto simp: peers_ok_def sample_kernel_def Let_def c_string_def strtok_def)

definition sample_server :: "node_data_t \<Rightarrow> server" where
  "sample_server node =
     \<lparr>sv_ctx = \<lparr>ctx_port = 9000, lan_ip = ''10.0.0.1'', epollfd = 3, tcp_public_fd = 4, erlang_tcp_fd = 5, udp_fd = 6,
        tcp_timerfd = 7, udp_timerfd = 8, gc_timerfd = 9, mynode = Some node\<rparr>,
      sv_conns = active_connections_init, sv_hist = replicate 10 (Usleep 0), sv_calls = 0\<rparr>"

lemma sample_env_ok: "env_ok ej_env"
  by (simp add: env_ok_def ej_env_def)

lemma conns_init_ok [simp]: "conns_ok active_connections_init"
  by (simp add: conns_ok_def active_connections_init_def BUFFER_SIZE_def list_all_iff)

lemma sample_server_inv:
  assumes "init_node True True 8 64 2 = Some node" "10 * j \<le> 7 * 2 ^ 30"
  shows "server_inv j ((\<lambda>_. 0)(CPU := 8, GPU := 2, RAM := 64)) (sample_server node)"
  using init_node_inv [OF assms(1), of oj_ok j] assms(2) by (simp add: server_inv_for_def sample_server_def)

lemma sample_node: "\<exists>node. init_node True True 8 64 2 = Some node"
  by (simp add: init_node_def create_local_resource_eq)

section \<open>Properties\<close>

text \<open>
  Claim C34. The garbage collector ends and finishes its work: the loop of \<^verbatim>\<open>handle_gc_timer_expiration\<close>
  returns for every number of dead nodes and overdue jobs, because each pass that has a message to send
  removes a job. The invariant of the server is kept, no job appears or changes, and no job is left
  that was overdue at the time of the last pass. The kernel must not keep a socket full forever and
  the allocations must succeed.
\<close>

theorem gc_terminates:
  assumes "kernel_ok k \<mu>" and "\<And>i. env_ok (envs i)" and "server_inv j tot s"
  shows "\<exists>s'. handle_gc_timer_expiration k envs s = Some s' \<and> server_inv j tot s' \<and> sv_jobs s' \<subseteq>\<^sub>m sv_jobs s \<and>
    (\<forall>jid job. sv_jobs s' jid = Some job \<longrightarrow> \<not> overdue (env_now (envs (sv_calls s' - 1))) job)"
proof -
  have "server_inv j tot (call (Read (gc_timerfd (sv_ctx s))) s)" using assms(3) by simp
  from gc_bucle_spec [where envs = envs, OF assms(1,2) this] show ?thesis
    by (auto simp: handle_gc_timer_expiration_def sv_node_def call_def)
qed

theorem gc_terminates_witness:
  "\<exists>node s'. init_node True True 8 64 2 = Some node \<and>
     handle_gc_timer_expiration sample_kernel (\<lambda>_. ej_env) (sample_server node) = Some s' \<and>
     server_inv 1000 ((\<lambda>_. 0)(CPU := 8, GPU := 2, RAM := 64)) s'"
proof -
  obtain node where node: "init_node True True 8 64 2 = Some node" using sample_node by blast
  have "server_inv 1000 ((\<lambda>_. 0)(CPU := 8, GPU := 2, RAM := 64)) (sample_server node)"
    by (rule sample_server_inv [OF node]) simp
  from gc_terminates [where envs = "\<lambda>_. ej_env", OF sample_kernel_ok sample_env_ok this] node show ?thesis by blast
qed

end
