(* ===== verification/Delivery.thy ===== *)
theory Delivery
  imports Server_Safety
begin

text \<open>
  How messages travel: a message for a node without connection waits in the table until the connection
  is up, the lines of one buffer are answered in order, and a line cut by the network is taken for a
  whole one.
\<close>

section \<open>Lines and buffers\<close>

lemma recv_lines:
  assumes fd: "0 \<le> fd" "fd < int MAX_FDS" and a: "k (sv_hist s) (Recv fd (BUFFER_SIZE - 1)) = a"
    and data: "sr_ret a = int (length (sr_data a))" "sr_data a \<noteq> []" "CHR 0x00 \<notin> set (sr_data a)"
  shows "handle_client_message k envs s fd = map_option (Pair 1)
    (lines_bucle k envs (strncpy 16 (cn_ip (sv_conns s ! nat fd))) fd (strtok CHR ''\<newline>'' (sr_data a)) (call (Recv fd (BUFFER_SIZE - 1)) s))"
proof -
  have "c_string (sr_data a) = sr_data a" using data(3) by (auto simp: c_string_def takeWhile_eq_all_conv)
  then have "syscalls (receive_tcp_message k fd BUFFER_SIZE) s = ((int (length (sr_data a)), sr_data a), call (Recv fd (BUFFER_SIZE - 1)) s)"
    using a data by (simp add: syscalls_def call_def Let_def)
  with fd data(2) show ?thesis by (auto simp: handle_client_message_def map_option_case split: Option.bind_splits)
qed

lemma strtok_lines:
  "list_all (\<lambda>l. l \<noteq> [] \<and> d \<notin> set l) ls \<Longrightarrow> strtok d (concat (map (\<lambda>l. l @ [d]) ls)) = ls"
proof (induction ls)
  case Nil
  then show ?case by (simp add: strtok_def)
next
  case (Cons l ls)
  then show ?case using strtok_word [of l d "concat (map (\<lambda>l. l @ [d]) ls)"] by simp
qed

lemma fmt_u_div_10: "10 \<le> q \<Longrightarrow> fmt_u q = fmt_u (q div 10) @ [dec_digit (unat q mod 10)]"
  unfolding fmt_u_def by (subst dec_of_nat.simps) (auto simp: unat_div word_le_nat_alt)

lemma take_but_two: "m = w @ [a, b] \<Longrightarrow> take (length m - 2) m = w"
  by simp

lemma fragment_line:
  assumes "10 \<le> jp_quantity p" and "length word \<le> 20" "CHR ''\<newline>'' \<notin> set word" "word \<noteq> []"
  shows "strtok CHR ''\<newline>'' (take (length (petition_msg word jid p) - 2) (petition_msg word jid p)) =
    strtok CHR ''\<newline>'' (petition_msg word jid (p\<lparr>jp_quantity := jp_quantity p div 10\<rparr>))"
proof -
  let ?w = "word @ '' '' @ fmt_u jid @ '' '' @ res_text (jp_type p) @ '' '' @ fmt_u (jp_quantity p div 10)"
  have "CHR ''\<newline>'' \<notin> set ?w"
    using assms(3) fmt_u_not [of "CHR ''\<newline>''"] by (auto simp: is_digit_def res_text_def)
  then have "strtok CHR ''\<newline>'' ?w = [?w]" using assms(4) by (intro strtok_end) simp_all
  moreover have "take (length (petition_msg word jid p) - 2) (petition_msg word jid p) = ?w"
    using petition_msg_eq [OF assms(2), of jid p] fmt_u_div_10 [OF assms(1)] by (intro take_but_two) simp
  ultimately show ?thesis using petition_line [OF assms(2,3,4), of jid "p\<lparr>jp_quantity := jp_quantity p div 10\<rparr>"] by simp
qed


lemma petition_no_nul:
  assumes "length word \<le> 20" "CHR 0x00 \<notin> set word"
  shows "CHR 0x00 \<notin> set (petition_msg word jid p)"
  unfolding petition_msg_eq [OF assms(1)]
  using assms(2) fmt_u_not [of "CHR 0x00"] by (auto simp: is_digit_def res_text_def)

section \<open>New connections\<close>

lemma open_connection_found:
  assumes len: "length cs = MAX_FDS" and fd: "0 \<le> fd" "fd < int MAX_FDS" and ip: "length ip \<le> 15"
    and none: "\<forall>c \<in> set cs. \<not> cn_matches ip p c"
  shows "find_fd_by_ip_port (open_connection fd (strncpy 16 ip) p pending cs) (Some ip) p = Some fd"
proof -
  let ?cs = "open_connection fd (strncpy 16 ip) p pending cs"
  have at: "nat fd < length ?cs" "length ?cs = length cs" using len fd by (simp_all add: open_connection_def)
  have hit: "cn_matches ip p (?cs ! nat fd)" using at ip by (simp add: open_connection_def cn_matches_def strncpy_def)
  have only: "i = nat fd" if "i < length ?cs" "cn_matches ip p (?cs ! i)" for i
  proof (rule ccontr)
    assume "i \<noteq> nat fd"
    then have "?cs ! i = cs ! i" by (simp add: open_connection_def)
    with that at(2) none nth_mem [of i cs] show False by auto
  qed
  from find_bucle_spec [of 0 ?cs ip p] obtain r where r: "find_bucle 0 ?cs (Some ip) p = Some r"
    "r = - 1 \<and> (\<forall>c \<in> set ?cs. \<not> cn_matches ip p c) \<or> (\<exists>i < length ?cs. r = int i \<and> cn_matches ip p (?cs ! i))" by auto
  have "?cs ! nat fd \<in> set ?cs" using at(1) by (rule nth_mem)
  with r(2) hit obtain i where "i < length ?cs" "r = int i" "cn_matches ip p (?cs ! i)" by blast
  with only [of i] fd(1) r(1) show ?thesis by (simp add: find_fd_by_ip_port_def)
qed

lemma connection_success_sends:
  assumes ker: "kernel_ok k \<mu>" and fd: "0 \<le> fd" "fd < int MAX_FDS" and len: "length (sv_conns s) = MAX_FDS"
    and up: "0 \<le> sr_ret (k (sv_hist s) (Getsockopt_error fd))" "sr_addr (k (sv_hist s) (Getsockopt_error fd)) = 0"
  shows "\<exists>s' r cs. handle_connection_success k envs s fd = Some s' \<and>
    sv_hist s' = sv_hist s @ Getsockopt_error fd # cs @ [Epoll_ctl (epollfd (sv_ctx s)) EPOLL_CTL_MOD fd [EPOLLIN, EPOLLONESHOT]] \<and>
    sends_rest k fd (pending_message (sv_conns s ! nat fd)) (sv_hist s @ [Getsockopt_error fd]) r cs \<and>
    (r = - 1 \<or> r = int (length (pending_message (sv_conns s ! nat fd)))) \<and>
    sv_conns s' = (sv_conns s)[nat fd := (sv_conns s ! nat fd)\<lparr>pending_message := []\<rparr>] \<and> sv_ctx s' = sv_ctx s"
proof -
  let ?m = "pending_message (sv_conns s ! nat fd)" and ?h = "sv_hist s @ [Getsockopt_error fd]"
  obtain r cs where S: "send_tcp_message k fd ?m ?h = Some (r, ?h @ cs)" "r = - 1 \<or> r = int (length ?m)"
    "sends_rest k fd ?m ?h r cs"
    using send_tcp_message_spec [OF kernel_okD(1,2) [OF ker], of fd ?m ?h] by blast
  have "syscalls (sys k (Getsockopt_error fd)) s = (k (sv_hist s) (Getsockopt_error fd), s\<lparr>sv_hist := ?h\<rparr>)"
    by (simp add: syscalls_def)
  with S(1) fd up have "handle_connection_success k envs s fd =
      Some (call (Epoll_ctl (epollfd (sv_ctx s)) EPOLL_CTL_MOD fd [EPOLLIN, EPOLLONESHOT]) (s\<lparr>sv_hist := ?h @ cs,
        sv_conns := (sv_conns s)[nat fd := (sv_conns s ! nat fd)\<lparr>pending_message := []\<rparr>]\<rparr>))"
    by (simp add: handle_connection_success_def Let_def)
  with S(2,3) show ?thesis by (auto simp: call_def)
qed

section \<open>Sample messages\<close>

lemma sample_conns [simp]: "sv_conns (sample_server node) = active_connections_init" "length active_connections_init = MAX_FDS"
  "sv_hist (sample_server node) = replicate 10 (Usleep 0)"
  by (simp_all add: sample_server_def active_connections_init_def)

lemma sample_ip: "strncpy 16 (cn_ip (sv_conns (sample_server node) ! nat 5)) = []"
  by (simp add: active_connections_init_def MAX_FDS_def strncpy_def)

lemma sample_no_match: "\<forall>c \<in> set active_connections_init. \<not> cn_matches ip p c"
  by (simp add: active_connections_init_def cn_matches_def)

definition sample_msg :: out_msg_t where
  "sample_msg = \<lparr>target_ip = ''10.0.0.2'', target_port = 9000, target_fd = - 1, message = ''GRANTED 7 cpu 3\<newline>''\<rparr>"

definition sample_petition :: job_petition_t where
  "sample_petition = \<lparr>jp_ip = None, jp_port = 0, jp_type = CPU, jp_quantity = 12, jp_is_granted = 0\<rparr>"

text \<open>A kernel that delivers one buffer.\<close>

definition recv_kernel :: "string \<Rightarrow> kernel" where
  "recv_kernel data h c = \<lparr>sr_ret = int (length data), sr_err = EOTHER, sr_data = data, sr_addr = 0\<rparr>"

section \<open>Properties\<close>



text \<open>
  Claim C37. When several messages arrive in one buffer, \<^verbatim>\<open>handle_client_message\<close> does what it would do
  for each of them alone: it answers each line once, in the order of arrival, each on the state the
  line before it left, and sends its answers before the next line is read.
\<close>

theorem lines_in_order:
  assumes fd: "0 \<le> fd" "fd < int MAX_FDS" and a: "k (sv_hist s) (Recv fd (BUFFER_SIZE - 1)) = a"
    and data: "sr_data a = concat (map (\<lambda>l. l @ ''\<newline>'') lines)" "sr_ret a = int (length (sr_data a))"
    and lines: "lines \<noteq> []" "list_all (\<lambda>l. l \<noteq> [] \<and> CHR ''\<newline>'' \<notin> set l \<and> CHR 0x00 \<notin> set l) lines"
  shows "handle_client_message k envs s fd = map_option (Pair 1)
    (runs (answer_line k envs (strncpy 16 (cn_ip (sv_conns s ! nat fd))) fd) lines (call (Recv fd (BUFFER_SIZE - 1)) s))"
proof -
  have "strtok CHR ''\<newline>'' (sr_data a) = lines" unfolding data(1) by (rule strtok_lines) (use lines(2) in \<open>simp add: list_all_iff\<close>)
  moreover have "sr_data a \<noteq> []" "CHR 0x00 \<notin> set (sr_data a)" using lines by (auto simp: data(1) list_all_iff)
  ultimately show ?thesis using recv_lines [where k = k, OF fd a data(2)] by (simp add: lines_bucle_runs)
qed

theorem lines_in_order_witness:
  "\<exists>node. init_node True True 8 64 2 = Some node \<and>
     handle_client_message (recv_kernel ''GET_NODES\<newline>JOB_RELEASE 7\<newline>'') (\<lambda>_. ej_env) (sample_server node) 5 =
     map_option (Pair 1) (runs (answer_line (recv_kernel ''GET_NODES\<newline>JOB_RELEASE 7\<newline>'') (\<lambda>_. ej_env) [] 5)
       [''GET_NODES'', ''JOB_RELEASE 7''] (call (Recv 5 (BUFFER_SIZE - 1)) (sample_server node)))"
proof -
  obtain node where node: "init_node True True 8 64 2 = Some node" using sample_node by blast
  let ?k = "recv_kernel ''GET_NODES\<newline>JOB_RELEASE 7\<newline>''"
  have "handle_client_message ?k (\<lambda>_. ej_env) (sample_server node) 5 = map_option (Pair 1)
      (runs (answer_line ?k (\<lambda>_. ej_env) (strncpy 16 (cn_ip (sv_conns (sample_server node) ! nat 5))) 5)
        [''GET_NODES'', ''JOB_RELEASE 7''] (call (Recv 5 (BUFFER_SIZE - 1)) (sample_server node)))"
    by (rule lines_in_order [OF _ _ refl]) (simp_all add: recv_kernel_def MAX_FDS_def)
  with node show ?thesis unfolding sample_ip by blast
qed

text \<open>
  Claim C38. The receiver does not put fragments together. When TCP delivers a RESERVE message without
  its last two bytes (the last digit and the end of the line), \<^verbatim>\<open>handle_client_message\<close> does what it
  does for a complete message that asks for a tenth of the quantity.
\<close>

theorem fragment_misread:
  assumes fd: "0 \<le> fd" "fd < int MAX_FDS" and a: "k (sv_hist s) (Recv fd (BUFFER_SIZE - 1)) = a"
    and m: "m = petition_msg ''RESERVE'' jid p" "10 \<le> jp_quantity p"
    and data: "sr_data a = take (length m - 2) m" "sr_ret a = int (length m - 2)"
  shows "handle_client_message k envs s fd = map_option (Pair 1)
    (lines_bucle k envs (strncpy 16 (cn_ip (sv_conns s ! nat fd))) fd
      (strtok CHR ''\<newline>'' (petition_msg ''RESERVE'' jid (p\<lparr>jp_quantity := jp_quantity p div 10\<rparr>)))
      (call (Recv fd (BUFFER_SIZE - 1)) s))"
proof -
  have len: "sr_ret a = int (length (sr_data a))" using data by simp
  have "10 < length m" unfolding m(1) by (subst petition_msg_eq) simp_all
  then have "sr_data a \<noteq> []" using data(1) by auto
  moreover have "CHR 0x00 \<notin> set (sr_data a)"
    using petition_no_nul [of "''RESERVE''" jid p] data(1) m(1) by (auto dest: in_set_takeD)
  moreover have "strtok CHR ''\<newline>'' (sr_data a) =
      strtok CHR ''\<newline>'' (petition_msg ''RESERVE'' jid (p\<lparr>jp_quantity := jp_quantity p div 10\<rparr>))"
    unfolding data(1) m(1) by (rule fragment_line [OF m(2)]) simp_all
  ultimately show ?thesis using recv_lines [where k = k, OF fd a len] by simp
qed


theorem fragment_misread_witness:
  "\<exists>node. init_node True True 8 64 2 = Some node \<and>
     handle_client_message (recv_kernel ''RESERVE 7 cpu 1'') (\<lambda>_. ej_env) (sample_server node) 5 = map_option (Pair 1)
       (lines_bucle (recv_kernel ''RESERVE 7 cpu 1'') (\<lambda>_. ej_env) [] 5 [''RESERVE 7 cpu 1'']
         (call (Recv 5 (BUFFER_SIZE - 1)) (sample_server node)))"
proof -
  obtain node where node: "init_node True True 8 64 2 = Some node" using sample_node by blast
  have n: "fmt_u 7 = ''7''" "fmt_u 12 = ''12''" "fmt_u 1 = ''1''" by (simp_all add: fmt_u_def dec_of_nat.simps)
  have m: "''RESERVE 7 cpu 12\<newline>'' = petition_msg ''RESERVE'' 7 sample_petition" "10 \<le> jp_quantity sample_petition"
    by (subst petition_msg_eq) (simp_all add: sample_petition_def n res_text_def)
  have q: "sample_petition\<lparr>jp_quantity := jp_quantity sample_petition div 10\<rparr> = sample_petition\<lparr>jp_quantity := 1\<rparr>"
    by (simp add: sample_petition_def)
  have line: "strtok CHR ''\<newline>'' (petition_msg ''RESERVE'' 7 (sample_petition\<lparr>jp_quantity := 1\<rparr>)) = [''RESERVE 7 cpu 1'']"
    by (subst petition_line) (simp_all add: sample_petition_def n res_text_def)
  let ?k = "recv_kernel ''RESERVE 7 cpu 1''"
  have "handle_client_message ?k (\<lambda>_. ej_env) (sample_server node) 5 = map_option (Pair 1)
      (lines_bucle ?k (\<lambda>_. ej_env) (strncpy 16 (cn_ip (sv_conns (sample_server node) ! nat 5))) 5
        (strtok CHR ''\<newline>'' (petition_msg ''RESERVE'' 7 (sample_petition\<lparr>jp_quantity := jp_quantity sample_petition div 10\<rparr>)))
        (call (Recv 5 (BUFFER_SIZE - 1)) (sample_server node)))"
    by (rule fragment_misread [OF _ _ refl m]) (simp_all add: recv_kernel_def MAX_FDS_def)
  with node show ?thesis unfolding sample_ip q line by blast
qed

end
