(* ===== verification/Cluster.thy ===== *)
theory Cluster
  imports Server_Safety
begin

text \<open>
  Several agents. A cluster is one node for each address, the messages on their way between agents, and
  what the schedulers were told. Each agent runs the handlers of \<^verbatim>\<open>c_agent/src/comms/resource_adapter.c\<close>
  on the lines it receives and sends the messages of its outbox the way \<^verbatim>\<open>send_outbox\<close> does. Messages
  arrive in any order. The abstract view of a negotiation is a sequence of requests to the inventories
  of the nodes that takes effect as a whole or not at all.
\<close>

section \<open>Agents and their connections\<close>

text \<open>The address and port under which an agent is known.\<close>

type_synonym addr = "string \<times> u32"

text \<open>
  The network: the table of connections of each agent, and for a descriptor of an agent the agent and
  the descriptor at the other end. A descriptor without other end belongs to a local scheduler.
\<close>

record network =
  nw_conns :: "addr \<Rightarrow> connections"
  nw_end :: "addr \<times> int \<Rightarrow> (addr \<times> int) option"

record packet =
  pk_to :: addr
  pk_fd :: int
  pk_bytes :: string

text \<open>
  \<open>cl_wire\<close> holds the messages on their way, \<open>cl_told\<close> what was written to descriptors of schedulers, and
  \<open>cl_unsent\<close> the messages that need a new connection (theory \<open>Delivery\<close> shows how they get it).
\<close>

record cluster =
  cl_nodes :: "addr \<Rightarrow> node_data_t"
  cl_wire :: "packet list"
  cl_told :: "(addr \<times> int \<times> string) list"
  cl_unsent :: "(addr \<times> out_msg_t) list"

text \<open>The descriptor \<^verbatim>\<open>send_outbox\<close> uses for a message; -1 means that there is no connection.\<close>

definition target_of :: "connections \<Rightarrow> out_msg_t \<Rightarrow> int result" where
  "target_of conns m =
     (if target_fd m = - 1 then find_fd_by_ip_port conns (Some (target_ip m)) (u32_of_int (target_port m))
      else Some (target_fd m))"

definition route :: "network \<Rightarrow> addr \<Rightarrow> out_msg_t \<Rightarrow> cluster \<Rightarrow> cluster result" where
  "route nw a m c =
     do {
       fd \<leftarrow> target_of (nw_conns nw a) m;
       Some (if fd = - 1 then c\<lparr>cl_unsent := cl_unsent c @ [(a, m)]\<rparr>
         else case nw_end nw (a, fd) of
           None \<Rightarrow> c\<lparr>cl_told := cl_told c @ [(a, fd, message m)]\<rparr>
         | Some (b, fd') \<Rightarrow> c\<lparr>cl_wire := cl_wire c @ [\<lparr>pk_to = b, pk_fd = fd', pk_bytes = message m\<rparr>]\<rparr>)
     }"

text \<open>An agent handles one line, and sends what the handler put in the outbox.\<close>

definition hear :: "network \<Rightarrow> env \<Rightarrow> addr \<Rightarrow> int \<Rightarrow> string \<Rightarrow> cluster \<Rightarrow> cluster result" where
  "hear nw env b fd line c =
     do {
       (node, outbox) \<leftarrow> handle_respond env (nw_conns nw b) (cl_nodes c b) (Some (strncpy 16 (cn_ip (nw_conns nw b ! nat fd))))
         (u32_of_int fd) line [];
       runs (route nw b) outbox (c\<lparr>cl_nodes := (cl_nodes c)(b := node)\<rparr>)
     }"

text \<open>One of the messages on their way arrives. Each message is one line.\<close>

definition deliver :: "network \<Rightarrow> nat \<times> env \<Rightarrow> cluster \<Rightarrow> cluster result" where
  "deliver nw l c =
     (let ps = cl_wire c; i = fst l mod length ps; p = ps ! i
      in if ps = [] then Some c
         else runs (hear nw (snd l) (pk_to p) (pk_fd p)) (strtok CHR ''\<newline>'' (pk_bytes p))
           (c\<lparr>cl_wire := take i ps @ drop (Suc i) ps\<rparr>))"

abbreviation cl_reaches :: "network \<Rightarrow> cluster \<Rightarrow> nat \<Rightarrow> cluster \<Rightarrow> bool" where
  "cl_reaches nw \<equiv> reaches (deliver nw) (\<lambda>l. env_ok (snd l))"

text \<open>With a connection, \<open>send_one\<close> writes the message to the descriptor \<open>target_of\<close> gives.\<close>

lemma target_of_send_one:
  assumes "target_of (sv_conns s) m = Some fd" "fd \<noteq> - 1"
  shows "send_one k m s = map_option (\<lambda>(sent, h). s\<lparr>sv_hist := h\<rparr>) (send_tcp_message k fd (message m) (sv_hist s))"
  using assms by (cases "send_tcp_message k fd (message m) (sv_hist s)") (auto simp: send_one_def target_of_def split: if_splits)

text \<open>
  The connection of agent \<open>a\<close> to agent \<open>b\<close>: the descriptor \<^verbatim>\<open>find_fd_by_ip_port\<close> gives at \<open>a\<close>, and the one
  at \<open>b\<close>; the entry of \<open>a\<close> has the address and port of \<open>b\<close>.
\<close>

definition link :: "network \<Rightarrow> addr \<Rightarrow> addr \<Rightarrow> (int \<times> int) option" where
  "link nw a b =
     do {
       fd \<leftarrow> find_fd_by_ip_port (nw_conns nw a) (Some (fst b)) (snd b);
       (b', fd') \<leftarrow> nw_end nw (a, fd);
       (if b' = b \<and> nw_end nw (b, fd') = Some (a, fd) \<and> cn_ip (nw_conns nw a ! nat fd) = fst b \<and>
           get_connection_port (nw_conns nw a) fd = snd b \<and> 0 \<le> fd \<and> fd < int MAX_FDS \<and> 0 \<le> fd' \<and> fd' < int MAX_FDS
        then Some (fd, fd') else None)
     }"

section \<open>The negotiation, abstractly\<close>

type_synonym token = "string \<times> u32 \<times> resource_t \<times> u32"

fun token_addr :: "token \<Rightarrow> addr" where
  "token_addr (ip, port, type, quantity) = (ip, port)"

fun token_key :: "token \<Rightarrow> addr \<times> resource_t" where
  "token_key (ip, port, type, quantity) = ((ip, port), type)"

text \<open>
  The inventories are asked one after the other, until one does not grant. \<open>sock b\<close> is the descriptor
  on which \<open>b\<close> is asked. The result is that of the last request: 1 granted, 0 waiting, -1 denied.
\<close>

fun spec_negotiate :: "u32 \<Rightarrow> (addr \<Rightarrow> u32) \<Rightarrow> token list \<Rightarrow> (addr \<Rightarrow> inventory) \<Rightarrow> int \<times> (addr \<Rightarrow> inventory)" where
  "spec_negotiate jid sock [] S = (1, S)"
| "spec_negotiate jid sock ((ip, port, type, quantity) # ts) S =
     (let (r, I) = spec_request jid (sock (ip, port)) (unat quantity) type (S (ip, port));
          S' = S((ip, port) := I)
      in if r = 1 then spec_negotiate jid sock ts S' else (r, S'))"

text \<open>All or nothing: a job that is denied leaves every inventory as it was.\<close>

definition spec_job :: "u32 \<Rightarrow> (addr \<Rightarrow> u32) \<Rightarrow> token list \<Rightarrow> (addr \<Rightarrow> inventory) \<Rightarrow> int \<times> (addr \<Rightarrow> inventory)" where
  "spec_job jid sock ts S = (case spec_negotiate jid sock ts S of (r, S') \<Rightarrow> (r, if r = - 1 then S else S'))"

definition inv_keys :: "inventory \<Rightarrow> grant_key set" where
  "inv_keys I = dom (grants I) \<union> (\<Union>r \<in> {CPU, GPU, RAM}. (\<lambda>(j, s, n). (j, s, r)) ` set (waiting I r))"

lemma spec_negotiate_append:
  "spec_negotiate jid sock (xs @ ys) S =
     (case spec_negotiate jid sock xs S of (r, S') \<Rightarrow> if r = 1 then spec_negotiate jid sock ys S' else (r, S'))"
  by (induction xs arbitrary: S rule: list.induct) (auto simp: Let_def split: prod.splits)

lemma spec_request_simps:
  assumes "spec_request jid s n r I = (c, I')"
  shows "c = 1 \<Longrightarrow> I' = I\<lparr>grants := (grants I)((jid, s, r) \<mapsto> n)\<rparr> \<and> n \<le> inv_free I r" "c = - 1 \<Longrightarrow> I' = I" "c = 1 \<or> c = - 1 \<or> c = 0"
  using assms by (auto simp: spec_request_def split: if_splits)

lemma release_grant [simp]: "spec_release jid s (I\<lparr>grants := (grants I)((jid, s, r) \<mapsto> n)\<rparr>) = spec_release jid s I"
  by (cases I) (auto simp: spec_release_def fun_eq_iff)

lemma keys_grant [simp]: "inv_keys (I\<lparr>grants := (grants I)(k \<mapsto> n)\<rparr>) = insert k (inv_keys I)"
  by (simp add: inv_keys_def)

text \<open>What a negotiation that was granted so far did: the grants of the job.\<close>

lemma spec_negotiate_granted:
  assumes "spec_negotiate jid sock ts S = (1, S')"
  shows "capacity (S' b) = capacity (S b) \<and> waiting (S' b) = waiting (S b) \<and>
    spec_release jid (sock b) (S' b) = spec_release jid (sock b) (S b) \<and>
    inv_keys (S' b) \<subseteq> inv_keys (S b) \<union> {(jid, sock b, r) | r. (b, r) \<in> set (map token_key ts)} \<and>
    (b \<notin> set (map token_addr ts) \<longrightarrow> S' b = S b)"
  using assms
proof (induction ts arbitrary: S)
  case (Cons t ts)
  obtain ip port type q where t: "t = (ip, port, type, q)" by (cases t)
  obtain c I where c: "spec_request jid (sock (ip, port)) (unat q) type (S (ip, port)) = (c, I)"
    by (cases "spec_request jid (sock (ip, port)) (unat q) type (S (ip, port))")
  with Cons.prems have c1: "c = 1" and n: "spec_negotiate jid sock ts (S((ip, port) := I)) = (1, S')"
    by (auto simp: t Let_def split: if_splits)
  have I: "I = (S (ip, port))\<lparr>grants := (grants (S (ip, port)))((jid, sock (ip, port), type) \<mapsto> unat q)\<rparr>"
    using spec_request_simps(1) [OF c c1] by simp
  let ?S = "S((ip, port) := I)"
  have keep: "capacity (?S b) = capacity (S b)" "waiting (?S b) = waiting (S b)"
    "spec_release jid (sock b) (?S b) = spec_release jid (sock b) (S b)" "b \<noteq> (ip, port) \<longrightarrow> ?S b = S b"
    by (auto simp: I)
  have keys: "inv_keys (?S b) \<subseteq> inv_keys (S b) \<union> {(jid, sock b, r) | r. (b, r) = token_key t}"
    by (auto simp: I t)
  note IH = Cons.IH [OF n]
  have "b \<notin> set (map token_addr (t # ts)) \<longrightarrow> S' b = S b" using IH keep(4) by (simp add: t)
  moreover have "inv_keys (S' b) \<subseteq> inv_keys (S b) \<union> {(jid, sock b, r) | r. (b, r) \<in> set (map token_key (t # ts))}"
    using IH keys by auto
  ultimately show ?case using IH keep(1-3) by simp
qed simp

section \<open>The nodes that are asked\<close>

abbreviation node_inventory :: "node_data_t \<Rightarrow> inventory" where
  "node_inventory node \<equiv> abs_inventory (resources node) (active_jobs node)"

definition cl_inventory :: "cluster \<Rightarrow> addr \<Rightarrow> inventory" where
  "cl_inventory c b = node_inventory (cl_nodes c b)"

lemma cl_inventory_simps [simp]:
  "cl_inventory (c\<lparr>cl_nodes := (cl_nodes c)(b := node)\<rparr>) = (cl_inventory c)(b := node_inventory node)"
  "cl_inventory (c\<lparr>cl_wire := w\<rparr>) = cl_inventory c" "cl_inventory (c\<lparr>cl_told := w'\<rparr>) = cl_inventory c"
  by (auto simp: cl_inventory_def fun_eq_iff)

text \<open>The books of a node are exact, and there is room for \<open>k\<close> more grants.\<close>

definition peer_ok :: "nat \<Rightarrow> node_data_t \<Rightarrow> bool" where
  "peer_ok k node \<longleftrightarrow> lr_exact (resources node) (active_jobs node) \<and> lr_ids_ok (resources node) \<and>
     th_room (k + lr_waiting (resources node)) (active_jobs node)"

lemma peer_ok_mono: "peer_ok k node \<Longrightarrow> j \<le> k \<Longrightarrow> peer_ok j node"
  by (auto simp: peer_ok_def elim: th_room_mono)

lemma peer_ok_owned [simp]: "peer_ok k (node\<lparr>owned_jobs := jobs\<rparr>) \<longleftrightarrow> peer_ok k node"
  by (simp add: peer_ok_def)

lemma lr_keys_abs:
  assumes "lr_exact R J"
  shows "lr_keys R J = inv_keys (abs_inventory R J)"
proof -
  note inv = lr_exactD(1) [OF assms]
  have "jr_key ` set (request_queue R r) = (\<lambda>(j, s, n). (j, s, r)) ` set (map abs_request (request_queue R r))"
    if "r \<noteq> INVALID_RES_TYPE" for r
    using lr_invD(4) [OF inv that] by (auto simp: jr_key_def abs_request_def image_iff)
  then show ?thesis
    using dom_abs_grants [OF lr_invD(1) [OF inv]] by (simp add: lr_keys_def inv_keys_def) (simp add: abs_inventory_def)
qed

lemma reserve_step:
  assumes ok: "peer_ok (Suc k) node" and fresh: "(jid, socket, jp_type p) \<notin> inv_keys (node_inventory node)"
    and type: "jp_type p \<noteq> INVALID_RES_TYPE" and env: "env_ok env"
  shows "\<exists>line node' c. strtok CHR ''\<newline>'' (petition_msg ''RESERVE'' jid p) = [line] \<and>
    handle_respond env conns node ip socket line [] = Some (node', reserve_reply jid socket c []) \<and>
    spec_request jid socket (unat (jp_quantity p)) (jp_type p) (node_inventory node) = (c, node_inventory node') \<and>
    (c \<noteq> 0 \<longrightarrow> peer_ok k node') \<and> owned_jobs node' = owned_jobs node"
proof -
  let ?R = "resources node" and ?J = "active_jobs node"
  have ex: "lr_exact ?R ?J" "lr_ids_ok ?R" "th_room (Suc k + lr_waiting ?R) ?J" using ok by (simp_all add: peer_ok_def)
  obtain c R J where new: "new_job_request True ?R ?J jid socket (jp_quantity p) (jp_type p) = Some (c, R, J)" "th_room (k + lr_waiting R) J"
    using new_job_request_room [OF lr_exactD(1) [OF ex(1)] ex(3) type] by blast
  have spec: "spec_request jid socket (unat (jp_quantity p)) (jp_type p) (node_inventory node) = (c, abs_inventory R J)"
    by (rule request_refines [OF ex(1) type new(1)])
  have "(jid, socket, jp_type p) \<notin> lr_keys ?R ?J" using fresh lr_keys_abs [OF ex(1)] by simp
  from new_job_request_exact [OF ex(1) this new(1)] have "lr_exact R J" .
  moreover have "request_queue R = request_queue ?R" if "c \<noteq> 0"
    using new(1) that type by (auto simp: new_job_request_def split: if_splits option.splits)
  ultimately have peer: "c \<noteq> 0 \<longrightarrow> peer_ok k (node\<lparr>resources := R, active_jobs := J\<rparr>)"
    using ex(2) new(2) by (simp add: peer_ok_def lr_ids_ok_def)
  have mem: "env_mem env 0" using env by (simp add: env_ok_def)
  note line = reserve_line [of jid p]
  show ?thesis
    by (rule exI, rule exI [of _ "node\<lparr>resources := R, active_jobs := J\<rparr>"], rule exI [of _ c], rule conjI [OF line])
      (use new(1) spec peer mem in \<open>simp add: respond_reserve_line [OF type] del: append_Cons append.append_Cons\<close>)
qed

text \<open>A RELEASE after which no waiting request fits only takes out the grants of the job.\<close>

lemma release_bucle_idle:
  assumes "lr_exact R J" "lr_ids_ok R" "th_room (lr_waiting R) J" "inv_idle (abs_inventory R J)" "env_ok env"
  shows "release_bucle env k R J msg q outbox = Some (R, J, outbox)"
proof -
  have "th_room (0 + lr_waiting R) J" using assms(3) by simp
  from chk_job_request_room [OF lr_exactD(1) [OF assms(1)] this, where mem = "\<lambda>i. env_mem env (3 + 3 * k + i)" and
      rnd = "env_rnd env k" and OUT = msg and n = 64 and s = q] assms(5)
  obtain out msg' s' R1 J1 where run: "chk_job_request (env_rnd env k) (\<lambda>i. env_mem env (3 + 3 * k + i)) R J msg 64 (Some q) =
      Some (out, msg', Some s', R1, J1)" by (auto simp: env_ok_def)
  from chk_spec [OF assms(1) run assms(2)] assms(4) run show ?thesis by (subst release_bucle.simps) auto
qed

lemma release_step:
  assumes ok: "peer_ok k node" and idle: "inv_idle (spec_release jid socket (node_inventory node))" and env: "env_ok env"
  shows "\<exists>line node'. strtok CHR ''\<newline>'' (petition_msg ''RELEASE'' jid p) = [line] \<and>
    handle_respond env conns node ip socket line [] = Some (node', []) \<and>
    node_inventory node' = spec_release jid socket (node_inventory node) \<and> peer_ok k node' \<and> owned_jobs node' = owned_jobs node"
proof -
  let ?R = "resources node" and ?J = "active_jobs node" and ?mem = "\<lambda>t. env_mem env (res_index t)"
  have ex: "lr_exact ?R ?J" "lr_ids_ok ?R" "th_room (k + lr_waiting ?R) ?J" using ok by (simp_all add: peer_ok_def)
  note inv = lr_exactD(1) [OF ex(1)]
  have mem: "?mem t" for t using env by (simp add: env_ok_def)
  obtain R J where del: "del_active_job ?mem ?R ?J jid socket = Some (R, J)" "abs_inventory R J = spec_release jid socket (node_inventory node)"
    using release_refines [where mem = ?mem, OF inv mem] by blast
  have q: "request_queue R = request_queue ?R" using del_active_bucle_spec [OF inv del(1) [unfolded del_active_job_def]] by simp
  have room: "th_room (k + lr_waiting R) J" using del_active_job_room [OF inv ex(3), of ?mem jid socket] del(1) by auto
  have ex': "lr_exact R J" "lr_ids_ok R" using del_active_job_exact [OF ex(1) del(1)] ex(2) q by (simp_all add: lr_ids_ok_def)
  have bucle: "release_bucle env 0 R J [] 0 [] = Some (R, J, [])"
    by (rule release_bucle_idle [OF ex' _ _ env]) (use th_room_mono [OF room, of "lr_waiting R"] idle del(2) in simp_all)
  note line = release_line [of jid p]
  have peer: "peer_ok k (node\<lparr>resources := R, active_jobs := J\<rparr>)" using ex' room by (simp add: peer_ok_def)
  show ?thesis
    by (rule exI, rule exI [of _ "node\<lparr>resources := R, active_jobs := J\<rparr>"], rule conjI [OF line])
      (use del bucle peer in \<open>simp add: respond_release_line del: append_Cons append.append_Cons\<close>)
qed

section \<open>Messages between agents\<close>

definition out_petition :: "string \<Rightarrow> u32 \<Rightarrow> job_petition_t \<Rightarrow> out_msg_t" where
  "out_petition word jid p = (out_release jid p)\<lparr>message := petition_msg word jid p\<rparr>"

lemma send_reserve_out: "jp_ip p = Some ip \<Longrightarrow> send_reserve jid p [] = [out_petition ''RESERVE'' jid p]"
  by (simp add: send_reserve_def add_to_outbox_def out_petition_def out_release_def petition_msg_short strncpy_def MAX_OUTBOX_def)

lemma out_petition_release: "out_petition ''RELEASE'' jid p = out_release jid p"
  by (simp add: out_petition_def out_release_def)

lemma petition_ungranted [simp]:
  "petition_msg word jid (p\<lparr>jp_is_granted := g\<rparr>) = petition_msg word jid p"
  "out_petition word jid (p\<lparr>jp_is_granted := g\<rparr>) = out_petition word jid p"
  by (simp_all add: petition_msg_def out_petition_def out_release_def)

lemma token_petition_simps [simp]:
  "jp_ip (token_petition t) = Some (fst (token_addr t))" "jp_port (token_petition t) = snd (token_addr t)"
  "jp_type (token_petition t) = snd (token_key t)" "fst (token_key t) = token_addr t"
  by (cases t; simp add: token_petition_def)+

lemma linkD:
  assumes "link nw a b = Some (fd, fd')"
  shows "find_fd_by_ip_port (nw_conns nw a) (Some (fst b)) (snd b) = Some fd" "nw_end nw (a, fd) = Some (b, fd')"
    "nw_end nw (b, fd') = Some (a, fd)" "cn_ip (nw_conns nw a ! nat fd) = fst b" "get_connection_port (nw_conns nw a) fd = snd b"
    "0 \<le> fd" "fd < int MAX_FDS" "0 \<le> fd'" "fd' < int MAX_FDS"
  using assms by (auto simp: link_def bind_eq_Some_conv split: if_splits)

lemma small_fd: "0 \<le> fd \<Longrightarrow> fd < int MAX_FDS \<Longrightarrow> int_of_u32 (u32_of_int fd) = fd"
  using int_of_u32_small [of "nat fd"] by (simp add: u32_of_int_def MAX_FDS_def)

lemma route_petition:
  assumes l: "link nw a b = Some (fd, fd')" and p: "jp_ip p = Some (fst b)" "jp_port p = snd b" "length (fst b) \<le> 15"
  shows "route nw a (out_petition word jid p) c = Some (c\<lparr>cl_wire := cl_wire c @ [\<lparr>pk_to = b, pk_fd = fd', pk_bytes = petition_msg word jid p\<rparr>]\<rparr>)"
  using linkD [OF l] p by (simp add: route_def target_of_def out_petition_def out_release_def)

lemma route_notice:
  assumes "0 \<le> fd" "fd < int MAX_FDS"
  shows "route nw a (out_notice (u32_of_int fd) word jid) c = Some (case nw_end nw (a, fd) of
      None \<Rightarrow> c\<lparr>cl_told := cl_told c @ [(a, fd, job_msg word jid)]\<rparr>
    | Some (b, fd') \<Rightarrow> c\<lparr>cl_wire := cl_wire c @ [\<lparr>pk_to = b, pk_fd = fd', pk_bytes = job_msg word jid\<rparr>]\<rparr>)"
  using assms by (simp add: route_def target_of_def out_notice_def small_fd split: option.split)

text \<open>A message of one line arrives.\<close>

lemma deliver_answer:
  assumes wire: "cl_wire c = xs @ p # ys" "i mod length (cl_wire c) = length xs" and line: "strtok CHR ''\<newline>'' (pk_bytes p) = [line]"
    and answer: "handle_respond env (nw_conns nw (pk_to p)) (cl_nodes c (pk_to p)) (Some (strncpy 16 (cn_ip (nw_conns nw (pk_to p) ! nat (pk_fd p)))))
      (u32_of_int (pk_fd p)) line [] = Some (node, outbox)"
  shows "deliver nw (i, env) c = runs (route nw (pk_to p)) outbox (c\<lparr>cl_nodes := (cl_nodes c)(pk_to p := node), cl_wire := xs @ ys\<rparr>)"
proof -
  let ?c = "c\<lparr>cl_nodes := (cl_nodes c)(pk_to p := node), cl_wire := xs @ ys\<rparr>"
  have "cl_wire c ! length xs = p" "take (length xs) (cl_wire c) @ drop (Suc (length xs)) (cl_wire c) = xs @ ys" "cl_wire c \<noteq> []"
    using wire(1) by (simp_all add: nth_append)
  then have "deliver nw (i, env) c = runs (hear nw env (pk_to p) (pk_fd p)) [line] (c\<lparr>cl_wire := xs @ ys\<rparr>)"
    using wire(2) line by (simp add: deliver_def Let_def)
  also have "\<dots> = hear nw env (pk_to p) (pk_fd p) line (c\<lparr>cl_wire := xs @ ys\<rparr>)"
    by (cases "hear nw env (pk_to p) (pk_fd p) line (c\<lparr>cl_wire := xs @ ys\<rparr>)") simp_all
  also have "\<dots> = runs (route nw (pk_to p)) outbox ?c" using answer by (cases c) (simp add: hear_def)
  finally show ?thesis .
qed

end
