(* ===== verification/Negotiation.thy ===== *)
theory Negotiation
  imports Cluster
begin

text \<open>
  The negotiation of one job across the agents of a cluster, from the JOB_REQUEST of the scheduler to
  JOB_GRANTED or JOB_DENIED, and from JOB_RELEASE to the release of everything. The state of the cluster
  goes through phases; each message that arrives leads to the next one, whatever the order.
\<close>

section \<open>A negotiation\<close>

text \<open>The network, the agent and descriptor that get the request, the job, its petitions and the cluster at the start.\<close>

record negotiation =
  ng_net :: network
  ng_at :: addr
  ng_fd :: int
  ng_job :: u32
  ng_tokens :: "token list"
  ng_start :: cluster

abbreviation ng_count :: "negotiation \<Rightarrow> nat" where
  "ng_count N \<equiv> length (ng_tokens N)"

abbreviation ng_link :: "negotiation \<Rightarrow> addr \<Rightarrow> (int \<times> int) option" where
  "ng_link N b \<equiv> link (ng_net N) (ng_at N) b"

text \<open>The descriptor on which an agent is asked, and its inventory at the start.\<close>

definition ng_sock :: "negotiation \<Rightarrow> addr \<Rightarrow> u32" where
  "ng_sock N b = u32_of_int (snd (the (ng_link N b)))"

abbreviation ng_inventory :: "negotiation \<Rightarrow> addr \<Rightarrow> inventory" where
  "ng_inventory N \<equiv> cl_inventory (ng_start N)"

abbreviation ng_jobs :: "negotiation \<Rightarrow> u32 \<rightharpoonup> elem_owned_job_t" where
  "ng_jobs N \<equiv> oj_job (owned_jobs (cl_nodes (ng_start N) (ng_at N)))"

definition request_packet :: "negotiation \<Rightarrow> packet" where
  "request_packet N = \<lparr>pk_to = ng_at N, pk_fd = ng_fd N, pk_bytes = request_line (ng_job N) (ng_tokens N) @ ''\<newline>''\<rparr>"

text \<open>
  What a petition needs: its agent is connected and listens on a port, has exact books and room for the
  grants, no waiting request that fits, and nothing granted to or asked by this job.
\<close>

definition token_ready :: "negotiation \<Rightarrow> token \<Rightarrow> bool" where
  "token_ready N t \<longleftrightarrow> token_ok t \<and> CHR ''\<newline>'' \<notin> set (fst (token_addr t)) \<and> snd (token_addr t) \<noteq> 0 \<and>
     ng_link N (token_addr t) \<noteq> None \<and> peer_ok (ng_count N) (cl_nodes (ng_start N) (token_addr t)) \<and>
     inv_idle (ng_inventory N (token_addr t)) \<and>
     (\<forall>r \<in> {CPU, GPU, RAM, INVALID_RES_TYPE}. (ng_job N, ng_sock N (token_addr t), r) \<notin> inv_keys (ng_inventory N (token_addr t)))"

text \<open>
  The request is one line of 1 to 50 petitions, none twice for one resource of one agent, that fits the
  buffer and arrives on the descriptor of a scheduler; nothing else is on its way.
\<close>

definition nego_ok :: "negotiation \<Rightarrow> bool" where
  "nego_ok N \<longleftrightarrow> ng_tokens N \<noteq> [] \<and> ng_count N \<le> MAX_JOB_RESOURCES \<and> list_all (token_ready N) (ng_tokens N) \<and>
     distinct (map token_key (ng_tokens N)) \<and> length (pk_bytes (request_packet N)) < BUFFER_SIZE \<and>
     0 \<le> ng_fd N \<and> ng_fd N < int MAX_FDS \<and> nw_end (ng_net N) (ng_at N, ng_fd N) = None \<and>
     oj_inv (owned_jobs (cl_nodes (ng_start N) (ng_at N))) \<and> th_room 1 (owned_jobs (cl_nodes (ng_start N) (ng_at N))) \<and>
     cl_wire (ng_start N) = [request_packet N] \<and> cl_told (ng_start N) = [] \<and> cl_unsent (ng_start N) = []"

section \<open>Phases\<close>

definition petition_packet :: "negotiation \<Rightarrow> string \<Rightarrow> token \<Rightarrow> packet" where
  "petition_packet N word t = \<lparr>pk_to = token_addr t, pk_fd = snd (the (ng_link N (token_addr t))),
     pk_bytes = petition_msg word (ng_job N) (token_petition t)\<rparr>"

definition reply_packet :: "negotiation \<Rightarrow> string \<Rightarrow> token \<Rightarrow> packet" where
  "reply_packet N word t = \<lparr>pk_to = ng_at N, pk_fd = fst (the (ng_link N (token_addr t))), pk_bytes = job_msg word (ng_job N)\<rparr>"

text \<open>The specification after the first \<open>i\<close> petitions.\<close>

definition asked :: "negotiation \<Rightarrow> nat \<Rightarrow> int \<times> (addr \<Rightarrow> inventory)" where
  "asked N i = spec_negotiate (ng_job N) (ng_sock N) (take i (ng_tokens N)) (ng_inventory N)"

text \<open>The inventories \<open>S\<close> when all but the petitions \<open>rest\<close> of the first \<open>i\<close> were given back.\<close>

definition restored :: "negotiation \<Rightarrow> nat \<Rightarrow> (addr \<Rightarrow> inventory) \<Rightarrow> token list \<Rightarrow> addr \<Rightarrow> inventory" where
  "restored N i S rest b =
     (if list_ex (\<lambda>t. token_addr t = b \<and> t \<notin> set rest) (take i (ng_tokens N)) then ng_inventory N b else S b)"

datatype phase = Requested | Reserving nat | Granting nat | Denying nat | Stalled nat | Complete | Releasing nat "token list"

fun phase_valid :: "negotiation \<Rightarrow> phase \<Rightarrow> bool" where
  "phase_valid N Requested \<longleftrightarrow> True"
| "phase_valid N (Reserving i) \<longleftrightarrow> i < ng_count N \<and> fst (asked N i) = 1"
| "phase_valid N (Granting i) \<longleftrightarrow> i < ng_count N \<and> fst (asked N (Suc i)) = 1"
| "phase_valid N (Denying i) \<longleftrightarrow> i < ng_count N \<and> fst (asked N i) = 1 \<and> fst (asked N (Suc i)) = - 1"
| "phase_valid N (Stalled i) \<longleftrightarrow> i < ng_count N \<and> fst (asked N i) = 1 \<and> fst (asked N (Suc i)) = 0"
| "phase_valid N Complete \<longleftrightarrow> fst (asked N (ng_count N)) = 1"
| "phase_valid N (Releasing i rest) \<longleftrightarrow> i < ng_count N \<and> fst (asked N i) = 1 \<and> fst (asked N (Suc i)) = - 1 \<and>
     distinct rest \<and> set rest \<subseteq> set (take i (ng_tokens N))"

fun phase_wire :: "negotiation \<Rightarrow> phase \<Rightarrow> packet list" where
  "phase_wire N Requested = [request_packet N]"
| "phase_wire N (Reserving i) = [petition_packet N ''RESERVE'' (ng_tokens N ! i)]"
| "phase_wire N (Granting i) = [reply_packet N ''GRANTED'' (ng_tokens N ! i)]"
| "phase_wire N (Denying i) = [reply_packet N ''DENIED'' (ng_tokens N ! i)]"
| "phase_wire N (Releasing i rest) = map (petition_packet N ''RELEASE'') rest"
| "phase_wire N ph = []"

fun phase_told :: "negotiation \<Rightarrow> phase \<Rightarrow> (addr \<times> int \<times> string) list" where
  "phase_told N Complete = [(ng_at N, ng_fd N, job_msg ''JOB_GRANTED'' (ng_job N))]"
| "phase_told N (Releasing i rest) = [(ng_at N, ng_fd N, job_msg ''JOB_DENIED'' (ng_job N))]"
| "phase_told N ph = []"

fun phase_inventory :: "negotiation \<Rightarrow> phase \<Rightarrow> addr \<Rightarrow> inventory" where
  "phase_inventory N Requested = ng_inventory N"
| "phase_inventory N (Reserving i) = snd (asked N i)"
| "phase_inventory N (Granting i) = snd (asked N (Suc i))"
| "phase_inventory N (Denying i) = snd (asked N i)"
| "phase_inventory N (Stalled i) = snd (asked N (Suc i))"
| "phase_inventory N Complete = snd (asked N (ng_count N))"
| "phase_inventory N (Releasing i rest) = restored N i (snd (asked N i)) rest"

text \<open>The room for grants; the agent where the request waits is not asked again.\<close>

fun phase_room :: "negotiation \<Rightarrow> phase \<Rightarrow> addr \<Rightarrow> node_data_t \<Rightarrow> bool" where
  "phase_room N (Stalled i) b node \<longleftrightarrow> b = token_addr (ng_tokens N ! i) \<or> peer_ok 0 node"
| "phase_room N Requested b node \<longleftrightarrow> peer_ok (ng_count N) node"
| "phase_room N (Reserving i) b node \<longleftrightarrow> peer_ok (ng_count N - i) node"
| "phase_room N (Granting i) b node \<longleftrightarrow> peer_ok (ng_count N - Suc i) node"
| "phase_room N ph b node \<longleftrightarrow> peer_ok 0 node"

text \<open>The job with its petitions, the first \<open>i\<close> of them granted.\<close>

definition job_has :: "negotiation \<Rightarrow> nat \<Rightarrow> elem_owned_job_t \<Rightarrow> bool" where
  "job_has N i job \<longleftrightarrow> oj_owner_socket job = u32_of_int (ng_fd N) \<and> oj_grants job = i \<and>
     map (\<lambda>p. p\<lparr>jp_is_granted := 0\<rparr>) (oj_petitions job) = map token_petition (ng_tokens N)"

fun phase_jobs :: "negotiation \<Rightarrow> phase \<Rightarrow> owned_jobs_t \<Rightarrow> bool" where
  "phase_jobs N Requested jobs \<longleftrightarrow> oj_job jobs = ng_jobs N \<and> th_room 1 jobs"
| "phase_jobs N (Reserving i) jobs \<longleftrightarrow> (\<exists>job. oj_job jobs = (ng_jobs N)(ng_job N \<mapsto> job) \<and> job_has N i job \<and> oj_outstanding job)"
| "phase_jobs N (Granting i) jobs \<longleftrightarrow> (\<exists>job. oj_job jobs = (ng_jobs N)(ng_job N \<mapsto> job) \<and> job_has N i job \<and> oj_outstanding job)"
| "phase_jobs N (Denying i) jobs \<longleftrightarrow> (\<exists>job. oj_job jobs = (ng_jobs N)(ng_job N \<mapsto> job) \<and> job_has N i job \<and> oj_outstanding job)"
| "phase_jobs N (Stalled i) jobs \<longleftrightarrow> (\<exists>job. oj_job jobs = (ng_jobs N)(ng_job N \<mapsto> job) \<and> job_has N i job \<and> oj_outstanding job)"
| "phase_jobs N Complete jobs \<longleftrightarrow> (\<exists>job. oj_job jobs = (ng_jobs N)(ng_job N \<mapsto> job) \<and> job_has N (ng_count N) job)"
| "phase_jobs N (Releasing i rest) jobs \<longleftrightarrow> oj_job jobs = (ng_jobs N)(ng_job N := None)"

definition nego_state :: "negotiation \<Rightarrow> phase \<Rightarrow> cluster \<Rightarrow> bool" where
  "nego_state N ph c \<longleftrightarrow> phase_valid N ph \<and> cl_wire c = phase_wire N ph \<and> cl_told c = phase_told N ph \<and> cl_unsent c = [] \<and>
     cl_inventory c = phase_inventory N ph \<and>
     list_all (\<lambda>t. phase_room N ph (token_addr t) (cl_nodes c (token_addr t))) (ng_tokens N) \<and>
     oj_inv (owned_jobs (cl_nodes c (ng_at N))) \<and> phase_jobs N ph (owned_jobs (cl_nodes c (ng_at N)))"

text \<open>How many messages still arrive, at most.\<close>

fun rank :: "negotiation \<Rightarrow> phase \<Rightarrow> nat" where
  "rank N Requested = 3 * ng_count N + 1"
| "rank N (Reserving i) = 2 * (ng_count N - i) + ng_count N"
| "rank N (Granting i) = 2 * (ng_count N - i) - 1 + ng_count N"
| "rank N (Denying i) = 2 * (ng_count N - i) - 1 + ng_count N"
| "rank N (Releasing i rest) = length rest"
| "rank N ph = 0"

section \<open>Facts on the specification\<close>

lemma nego_okD:
  assumes "nego_ok N"
  shows "ng_tokens N \<noteq> []" "ng_count N \<le> MAX_JOB_RESOURCES" "\<And>t. t \<in> set (ng_tokens N) \<Longrightarrow> token_ready N t"
    "distinct (map token_key (ng_tokens N))" "0 \<le> ng_fd N" "ng_fd N < int MAX_FDS" "nw_end (ng_net N) (ng_at N, ng_fd N) = None"
  using assms by (simp_all add: nego_ok_def list_all_iff)

lemma token_readyD:
  assumes "token_ready N t"
  shows "token_ok t" "CHR ''\<newline>'' \<notin> set (fst (token_addr t))" "snd (token_addr t) \<noteq> 0"
    "ng_link N (token_addr t) = Some (fst (the (ng_link N (token_addr t))), snd (the (ng_link N (token_addr t))))"
    "inv_idle (ng_inventory N (token_addr t))"
    "\<And>r. (ng_job N, ng_sock N (token_addr t), r) \<notin> inv_keys (ng_inventory N (token_addr t))"
    "length (fst (token_addr t)) \<le> 15" "snd (token_key t) \<noteq> INVALID_RES_TYPE"
proof -
  show "(ng_job N, ng_sock N (token_addr t), r) \<notin> inv_keys (ng_inventory N (token_addr t))" for r
    using assms by (cases r) (simp_all add: token_ready_def)
qed (use assms in \<open>auto simp: token_ready_def token_ok_def split: prod.splits\<close>)

lemma asked_0 [simp]: "asked N 0 = (1, ng_inventory N)"
  by (simp add: asked_def)

lemma asked_Suc:
  assumes "i < ng_count N" "fst (asked N i) = 1"
  shows "asked N (Suc i) =
    (let t = ng_tokens N ! i; b = token_addr t;
         (r, I) = spec_request (ng_job N) (ng_sock N b) (unat (jp_quantity (token_petition t))) (snd (token_key t)) (snd (asked N i) b)
     in (r, (snd (asked N i))(b := I)))"
proof -
  obtain S where S: "spec_negotiate (ng_job N) (ng_sock N) (take i (ng_tokens N)) (ng_inventory N) = (1, S)"
    using assms(2) by (cases "asked N i") (simp add: asked_def)
  obtain ip port type q where t: "ng_tokens N ! i = (ip, port, type, q)" by (cases "ng_tokens N ! i")
  show ?thesis unfolding asked_def take_Suc_conv_app_nth [OF assms(1)] spec_negotiate_append S
    by (simp add: t token_petition_def Let_def split: prod.split)
qed

text \<open>The outcome is known at the first petition that is not granted.\<close>

lemma asked_all: "asked N (ng_count N) = spec_negotiate (ng_job N) (ng_sock N) (ng_tokens N) (ng_inventory N)"
  by (simp add: asked_def)

lemma asked_stop:
  assumes "i \<le> ng_count N" "fst (asked N i) \<noteq> 1"
  shows "asked N (ng_count N) = asked N i"
  using spec_negotiate_append [of "ng_job N" "ng_sock N" "take i (ng_tokens N)" "drop i (ng_tokens N)" "ng_inventory N"] assms
  by (auto simp: asked_def split: prod.splits)

lemma asked_prefix:
  assumes "fst (asked N (Suc i)) = 1" "i < ng_count N"
  shows "fst (asked N i) = 1"
proof (rule ccontr)
  assume "fst (asked N i) \<noteq> 1"
  with spec_negotiate_append [of "ng_job N" "ng_sock N" "take i (ng_tokens N)" "[ng_tokens N ! i]" "ng_inventory N"] assms
  show False by (auto simp: asked_def take_Suc_conv_app_nth split: prod.splits)
qed

lemma spec_release_fresh: "(\<And>r. (jid, s, r) \<notin> inv_keys I) \<Longrightarrow> spec_release jid s I = I"
proof -
  assume fresh: "\<And>r. (jid, s, r) \<notin> inv_keys I"
  have "grants I (jid, s, r) = None" for r using fresh [of r] by (auto simp: inv_keys_def domIff)
  then have "(if fst k = jid \<and> fst (snd k) = s then None else grants I k) = grants I k" for k by (cases k) auto
  then show ?thesis by (simp add: spec_release_def)
qed

text \<open>Giving the job's grants back restores the inventory of the start.\<close>

lemma asked_release:
  assumes ok: "nego_ok N" and i: "fst (asked N i) = 1" and t: "t \<in> set (ng_tokens N)"
  shows "spec_release (ng_job N) (ng_sock N (token_addr t)) (snd (asked N i) (token_addr t)) = ng_inventory N (token_addr t)"
    "spec_release (ng_job N) (ng_sock N (token_addr t)) (ng_inventory N (token_addr t)) = ng_inventory N (token_addr t)"
proof -
  show S: "spec_release (ng_job N) (ng_sock N (token_addr t)) (ng_inventory N (token_addr t)) = ng_inventory N (token_addr t)"
    by (rule spec_release_fresh) (rule token_readyD(6) [OF nego_okD(3) [OF ok t]])
  obtain S' where "asked N i = (1, S')" using i by (cases "asked N i") simp
  with spec_negotiate_granted [of "ng_job N" "ng_sock N" "take i (ng_tokens N)" "ng_inventory N" S' "token_addr t"] S
  show "spec_release (ng_job N) (ng_sock N (token_addr t)) (snd (asked N i) (token_addr t)) = ng_inventory N (token_addr t)"
    by (simp add: asked_def)
qed

lemma asked_fresh:
  assumes ok: "nego_ok N" and i: "i < ng_count N" "fst (asked N i) = 1"
  defines "t \<equiv> ng_tokens N ! i"
  shows "(ng_job N, ng_sock N (token_addr t), snd (token_key t)) \<notin> inv_keys (snd (asked N i) (token_addr t))"
proof -
  have t: "t \<in> set (ng_tokens N)" using i(1) by (simp add: t_def)
  have "distinct (map token_key (take (Suc i) (ng_tokens N)))"
    using nego_okD(4) [OF ok] by (metis distinct_take take_map)
  then have "token_key t \<notin> set (map token_key (take i (ng_tokens N)))"
    using i(1) by (simp add: take_Suc_conv_app_nth t_def)
  then have new: "(token_addr t, snd (token_key t)) \<notin> set (map token_key (take i (ng_tokens N)))"
    by (cases t) simp
  obtain S' where "asked N i = (1, S')" using i(2) by (cases "asked N i") simp
  with spec_negotiate_granted [of "ng_job N" "ng_sock N" "take i (ng_tokens N)" "ng_inventory N" S' "token_addr t"]
  have "inv_keys (snd (asked N i) (token_addr t)) \<subseteq> inv_keys (ng_inventory N (token_addr t)) \<union>
      {(ng_job N, ng_sock N (token_addr t), r) | r. (token_addr t, r) \<in> set (map token_key (take i (ng_tokens N)))}"
    by (simp add: asked_def)
  with new token_readyD(6) [OF nego_okD(3) [OF ok t], of "snd (token_key t)"] show ?thesis by blast
qed

lemma restored_Nil: "restored N i S [] = (\<lambda>b. if b \<in> token_addr ` set (take i (ng_tokens N)) then ng_inventory N b else S b)"
proof
  fix b
  have "list_ex (\<lambda>t. token_addr t = b \<and> t \<notin> set []) (take i (ng_tokens N)) \<longleftrightarrow> b \<in> token_addr ` set (take i (ng_tokens N))"
    unfolding list_ex_iff image_iff by (simp only: list.set empty_iff not_False_eq_True simp_thms) metis
  then show "restored N i S [] b = (if b \<in> token_addr ` set (take i (ng_tokens N)) then ng_inventory N b else S b)"
    by (simp add: restored_def)
qed

lemma asked_elsewhere: "fst (asked N i) = 1 \<Longrightarrow> b \<notin> token_addr ` set (take i (ng_tokens N)) \<Longrightarrow> snd (asked N i) b = ng_inventory N b"
  using spec_negotiate_granted [of "ng_job N" "ng_sock N" "take i (ng_tokens N)" "ng_inventory N" "snd (asked N i)" b]
  by (cases "asked N i") (simp add: asked_def)

section \<open>The steps\<close>

text \<open>Where the messages of the negotiation go.\<close>

lemma route_token:
  assumes "token_ready N t" and "p\<lparr>jp_is_granted := 0\<rparr> = token_petition t"
  shows "route (ng_net N) (ng_at N) (out_petition word (ng_job N) p) c =
    Some (c\<lparr>cl_wire := cl_wire c @ [petition_packet N word t]\<rparr>)"
proof -
  note R = token_readyD [OF assms(1)]
  have "out_petition word (ng_job N) p = out_petition word (ng_job N) (token_petition t)"
    using petition_ungranted(2) [where word = word and jid = "ng_job N" and p = p and g = 0] assms(2) by simp
  with route_petition [OF R(4), of "token_petition t"] R(7) show ?thesis by (simp add: petition_packet_def)
qed

lemma route_tokens:
  assumes "list_all (token_ready N) ts" and "map (\<lambda>p. p\<lparr>jp_is_granted := 0\<rparr>) ps = map token_petition ts"
  shows "runs (route (ng_net N) (ng_at N)) (map (out_petition word (ng_job N)) ps) c =
    Some (c\<lparr>cl_wire := cl_wire c @ map (petition_packet N word) ts\<rparr>)"
  using assms
proof (induction ts arbitrary: ps c)
  case (Cons t ts)
  then obtain p ps' where p: "ps = p # ps'" "p\<lparr>jp_is_granted := 0\<rparr> = token_petition t"
    "map (\<lambda>p. p\<lparr>jp_is_granted := 0\<rparr>) ps' = map token_petition ts" by (cases ps) auto
  from Cons.IH [OF _ p(3)] Cons.prems(1) route_token [OF _ p(2)] p(1) show ?case by simp
qed simp

lemma route_reply:
  assumes "token_ready N t"
  shows "route (ng_net N) (token_addr t) (out_notice (ng_sock N (token_addr t)) word (ng_job N)) c =
    Some (c\<lparr>cl_wire := cl_wire c @ [reply_packet N word t]\<rparr>)"
proof -
  note L = linkD [OF token_readyD(4) [OF assms]]
  from route_notice [OF L(8,9)] L(3) show ?thesis by (simp add: ng_sock_def reply_packet_def)
qed

lemma route_scheduler:
  assumes "nego_ok N"
  shows "route (ng_net N) (ng_at N) (out_notice (u32_of_int (ng_fd N)) word (ng_job N)) c =
    Some (c\<lparr>cl_told := cl_told c @ [(ng_at N, ng_fd N, job_msg word (ng_job N))]\<rparr>)"
  using route_notice [OF nego_okD(5,6) [OF assms]] nego_okD(7) [OF assms] by simp

lemma request_packet_line:
  assumes "nego_ok N"
  shows "strtok CHR ''\<newline>'' (pk_bytes (request_packet N)) = [request_line (ng_job N) (ng_tokens N)]"
proof -
  let ?l = "request_line (ng_job N) (ng_tokens N)"
  have "CHR ''\<newline>'' \<notin> set (job_token t)" if "t \<in> set (ng_tokens N)" for t
    using token_readyD(2) [OF nego_okD(3) [OF assms that]] fmt_u_not [of "CHR ''\<newline>''"]
    by (cases t) (auto simp: job_token_def is_digit_def res_text_def)
  then have "CHR ''\<newline>'' \<notin> set ?l" using fmt_u_not [of "CHR ''\<newline>''"] by (auto simp: request_line_def is_digit_def)
  moreover have "?l \<noteq> []" by (simp add: request_line_def)
  ultimately show ?thesis using strtok_word [of ?l "CHR ''\<newline>''" "[]"] by (simp add: request_packet_def strtok_def)
qed

text \<open>The agent that asks reads the address and port of the one that answers from its table.\<close>

lemma reply_sender:
  assumes "token_ready N t"
  defines "fd \<equiv> fst (the (ng_link N (token_addr t)))"
  shows "strncpy 16 (cn_ip (nw_conns (ng_net N) (ng_at N) ! nat fd)) = fst (token_addr t)"
    "get_connection_port (nw_conns (ng_net N) (ng_at N)) (int_of_u32 (u32_of_int fd)) = snd (token_addr t)"
  using linkD [OF token_readyD(4) [OF assms(1)]] token_readyD(7) [OF assms(1)] unfolding fd_def
  by (simp_all add: small_fd strncpy_def)

lemma Requested_step:
  assumes ok: "nego_ok N" and env: "env_ok env" and st: "nego_state N Requested c"
  shows "\<exists>c'. deliver (ng_net N) (i, env) c = Some c' \<and> nego_state N (Reserving 0) c'"
proof -
  let ?a = "ng_at N" and ?t = "hd (ng_tokens N)" and ?node = "cl_nodes c (ng_at N)"
  have t: "?t \<in> set (ng_tokens N)" "?t = ng_tokens N ! 0" using nego_okD(1) [OF ok] by (simp_all add: hd_conv_nth)
  have toks: "list_all token_ok (ng_tokens N)" using nego_okD(3) [OF ok] token_readyD(1) unfolding list_all_iff by blast
  have st': "cl_wire c = [] @ request_packet N # []" "cl_told c = []" "cl_unsent c = []" "oj_inv (owned_jobs ?node)" "th_room 1 (owned_jobs ?node)"
    "oj_job (owned_jobs ?node) = ng_jobs N" "cl_inventory c = ng_inventory N"
    "list_all (\<lambda>t. peer_ok (ng_count N) (cl_nodes c (token_addr t))) (ng_tokens N)"
    using st by (simp_all add: nego_state_def)
  let ?ip = "Some (strncpy 16 (cn_ip (nw_conns (ng_net N) ?a ! nat (ng_fd N))))"
  let ?job = "\<lparr>oj_job_id = ng_job N, oj_owner_socket = u32_of_int (ng_fd N), oj_grant_notified = 0, oj_created_at = env_now env,
    oj_next_reserve_idx = 1, oj_petitions = map token_petition (ng_tokens N)\<rparr>"
  obtain jobs' where h: "handle_respond env (nw_conns (ng_net N) ?a) ?node ?ip (u32_of_int (ng_fd N)) (request_line (ng_job N) (ng_tokens N)) [] =
      Some (?node\<lparr>owned_jobs := jobs'\<rparr>, send_reserve (ng_job N) (token_petition ?t) [])" "oj_inv jobs'"
      "oj_job jobs' = (ng_jobs N)(ng_job N \<mapsto> ?job)"
    using respond_job_request_spec [OF st'(4,5) env toks nego_okD(1,2) [OF ok], of "nw_conns (ng_net N) ?a" ?ip "u32_of_int (ng_fd N)" "ng_job N"]
    unfolding st'(6) by blast
  have "deliver (ng_net N) (i, env) c = Some (c\<lparr>cl_nodes := (cl_nodes c)(?a := ?node\<lparr>owned_jobs := jobs'\<rparr>),
      cl_wire := [petition_packet N ''RESERVE'' ?t]\<rparr>)"
    using deliver_answer [OF st'(1) _ request_packet_line [OF ok], of i env "ng_net N"] h(1) st'(1)
      route_token [OF nego_okD(3) [OF ok t(1)], of "token_petition ?t" "''RESERVE''"]
    by (simp add: request_packet_def send_reserve_out) (simp add: token_petition_def split: prod.split)
  moreover have "job_has N 0 ?job \<and> oj_outstanding ?job"
    by (cases "ng_tokens N") (auto simp: job_has_def oj_grants_def oj_outstanding_def token_petition_def split: prod.split)
  moreover have "node_inventory ?node = ng_inventory N ?a" using st'(7) by (simp flip: cl_inventory_def)
  ultimately show ?thesis using h(2,3) st' nego_okD(1) [OF ok] t(2)
    by (auto simp: nego_state_def list_all_iff)
qed

lemma Reserving_step:
  assumes ok: "nego_ok N" and env: "env_ok env" and st: "nego_state N (Reserving j) c"
  shows "\<exists>c' ph. deliver (ng_net N) (i, env) c = Some c' \<and> nego_state N ph c' \<and> ph \<in> {Granting j, Denying j, Stalled j}"
proof -
  define t where "t = ng_tokens N ! j"
  let ?b = "token_addr t" and ?s = "ng_sock N (token_addr t)" and ?node = "cl_nodes c (token_addr t)"
  have j: "j < ng_count N" "fst (asked N j) = 1" "t \<in> set (ng_tokens N)" using st by (simp_all add: nego_state_def t_def)
  note R = nego_okD(3) [OF ok j(3)]
  have st': "cl_wire c = [] @ petition_packet N ''RESERVE'' t # []" "cl_told c = []" "cl_unsent c = []"
    "cl_inventory c = snd (asked N j)"
    "\<And>u. u \<in> set (ng_tokens N) \<Longrightarrow> peer_ok (ng_count N - j) (cl_nodes c (token_addr u))"
    "oj_inv (owned_jobs (cl_nodes c (ng_at N)))" "phase_jobs N (Stalled j) (owned_jobs (cl_nodes c (ng_at N)))"
    using st by (simp_all add: nego_state_def t_def list_all_iff)
  have room: "peer_ok (Suc (ng_count N - Suc j)) ?node" using st'(5) [OF j(3)] j(1) by (simp add: Suc_diff_Suc)
  have fresh: "(ng_job N, ?s, jp_type (token_petition t)) \<notin> inv_keys (node_inventory ?node)"
    using asked_fresh [OF ok j(1,2)] st'(4) by (simp add: t_def flip: cl_inventory_def)
  let ?ip = "Some (strncpy 16 (cn_ip (nw_conns (ng_net N) ?b ! nat (snd (the (ng_link N ?b))))))"
  obtain line node' r where h: "strtok CHR ''\<newline>'' (petition_msg ''RESERVE'' (ng_job N) (token_petition t)) = [line]"
    "handle_respond env (nw_conns (ng_net N) ?b) ?node ?ip ?s line [] = Some (node', reserve_reply (ng_job N) ?s r [])"
    "spec_request (ng_job N) ?s (unat (jp_quantity (token_petition t))) (snd (token_key t)) (snd (asked N j) ?b) = (r, node_inventory node')"
    "r \<noteq> 0 \<longrightarrow> peer_ok (ng_count N - Suc j) node'" "owned_jobs node' = owned_jobs ?node"
    using reserve_step [OF room fresh _ env, of "nw_conns (ng_net N) ?b" ?ip] token_readyD(8) [OF R] st'(4) by (auto simp flip: cl_inventory_def)
  have next_inv: "asked N (Suc j) = (r, (snd (asked N j))(?b := node_inventory node'))"
    using asked_Suc [OF j(1,2)] h(3) by (simp add: t_def Let_def)
  let ?c = "c\<lparr>cl_nodes := (cl_nodes c)(?b := node'), cl_wire := []\<rparr>"
  have d: "deliver (ng_net N) (i, env) c = runs (route (ng_net N) ?b) (reserve_reply (ng_job N) ?s r []) ?c"
    using deliver_answer [OF st'(1), of i line env "ng_net N"] h(1,2) st'(1) by (simp add: petition_packet_def ng_sock_def)
  have frame: "owned_jobs (cl_nodes ?c (ng_at N)) = owned_jobs (cl_nodes c (ng_at N))"
    "cl_inventory ?c = snd (asked N (Suc j))" using h(5) next_inv st'(4) by auto
  have peers: "peer_ok (ng_count N - Suc j) (cl_nodes ?c (token_addr u))" if "r \<noteq> 0" "u \<in> set (ng_tokens N)" for u
    using h(4) that peer_ok_mono [OF st'(5) [OF that(2)]] by auto
  have reply: "reserve_reply (ng_job N) ?s r [] = (if r = 1 then [out_notice ?s ''GRANTED'' (ng_job N)]
      else if r = - 1 then [out_notice ?s ''DENIED'' (ng_job N)] else [])"
    by (simp add: reserve_reply_def add_notice MAX_OUTBOX_def)
  consider (granted) "r = 1" | (denied) "r = - 1" | (waits) "r = 0" using spec_request_simps(3) [OF h(3)] by blast
  then show ?thesis
  proof cases
    case granted
    with d reply route_reply [OF R] have "deliver (ng_net N) (i, env) c = Some (?c\<lparr>cl_wire := [reply_packet N ''GRANTED'' t]\<rparr>)" by simp
    moreover have "nego_state N (Granting j) (?c\<lparr>cl_wire := [reply_packet N ''GRANTED'' t]\<rparr>)"
      using frame peers st' j granted next_inv by (simp add: nego_state_def t_def list_all_iff)
    ultimately show ?thesis by blast
  next
    case denied
    with d reply route_reply [OF R] have "deliver (ng_net N) (i, env) c = Some (?c\<lparr>cl_wire := [reply_packet N ''DENIED'' t]\<rparr>)" by simp
    moreover have "node_inventory node' = snd (asked N j) ?b" using spec_request_simps(2) [OF h(3)] denied by simp
    then have "nego_state N (Denying j) (?c\<lparr>cl_wire := [reply_packet N ''DENIED'' t]\<rparr>)"
      using frame peers st' j denied next_inv peer_ok_mono [where j = 0] by (fastforce simp: nego_state_def t_def list_all_iff)
    ultimately show ?thesis by blast
  next
    case waits
    have "peer_ok 0 (cl_nodes c (token_addr u))" if "u \<in> set (ng_tokens N)" for u using peer_ok_mono [OF st'(5) [OF that]] by simp
    then have "nego_state N (Stalled j) ?c"
      using frame st'(2,3,4,6,7) j waits next_inv by (simp add: nego_state_def list_all_iff t_def)
    with d reply waits show ?thesis by auto
  qed
qed

lemma job_petition:
  assumes "job_has N i job" "k < ng_count N"
  shows "(oj_petitions job ! k)\<lparr>jp_is_granted := 0\<rparr> = token_petition (ng_tokens N ! k)" "petition_count job = ng_count N"
    "jp_ip (oj_petitions job ! k) = Some (fst (token_addr (ng_tokens N ! k)))"
    "jp_port (oj_petitions job ! k) = snd (token_addr (ng_tokens N ! k))"
proof -
  have m: "map (\<lambda>p. p\<lparr>jp_is_granted := 0\<rparr>) (oj_petitions job) = map token_petition (ng_tokens N)" using assms(1) by (simp add: job_has_def)
  then show len: "petition_count job = ng_count N" by (rule map_eq_imp_length_eq)
  show p: "(oj_petitions job ! k)\<lparr>jp_is_granted := 0\<rparr> = token_petition (ng_tokens N ! k)"
    using arg_cong [OF m, of "\<lambda>xs. xs ! k"] assms(2) len by simp
  show "jp_ip (oj_petitions job ! k) = Some (fst (token_addr (ng_tokens N ! k)))"
    "jp_port (oj_petitions job ! k) = snd (token_addr (ng_tokens N ! k))"
    using arg_cong [OF p, of jp_ip] arg_cong [OF p, of jp_port] by simp_all
qed

lemma job_has_grant:
  assumes "job_has N i job" "oj_ok job" "oj_outstanding job"
  shows "job_has N (Suc i) (oj_grant job)"
proof -
  have "map (\<lambda>p. p\<lparr>jp_is_granted := 0\<rparr>) (oj_petitions (oj_grant job)) = map (\<lambda>p. p\<lparr>jp_is_granted := 0\<rparr>) (oj_petitions job)"
    by (cases "oj_grants job < petition_count job")
      (auto simp: oj_grant_def Let_def map_update list_update_beyond intro!: nth_equalityI simp: nth_list_update)
  with assms oj_grant_ok [OF assms(2,3)] show ?thesis by (simp add: job_has_def)
qed

lemma Granting_step:
  assumes ok: "nego_ok N" and st: "nego_state N (Granting j) c"
  shows "\<exists>c'. deliver (ng_net N) (i, env) c = Some c' \<and> nego_state N (if Suc j = ng_count N then Complete else Reserving (Suc j)) c'"
proof -
  define t where "t = ng_tokens N ! j"
  let ?a = "ng_at N" and ?fd = "fst (the (ng_link N (token_addr t)))" and ?node = "cl_nodes c (ng_at N)"
  have j: "j < ng_count N" "fst (asked N (Suc j)) = 1" "t \<in> set (ng_tokens N)" using st by (simp_all add: nego_state_def t_def)
  note R = nego_okD(3) [OF ok j(3)]
  have st': "cl_wire c = [] @ reply_packet N ''GRANTED'' t # []" "cl_told c = []" "cl_unsent c = []"
    "cl_inventory c = snd (asked N (Suc j))" "oj_inv (owned_jobs ?node)"
    "\<And>u. u \<in> set (ng_tokens N) \<Longrightarrow> peer_ok (ng_count N - Suc j) (cl_nodes c (token_addr u))"
    using st by (simp_all add: nego_state_def t_def list_all_iff)
  obtain job where job: "oj_job (owned_jobs ?node) = (ng_jobs N)(ng_job N \<mapsto> job)" "job_has N j job" "oj_outstanding job"
    using st by (auto simp: nego_state_def)
  have known: "oj_job (owned_jobs ?node) (ng_job N) = Some job" using job(1) by simp
  have g: "oj_grants job = j" "oj_owner_socket job = u32_of_int (ng_fd N)" using job(2) by (simp_all add: job_has_def)
  note P = job_petition [OF job(2)] and jok = oj_invD(2) [OF st'(5) known]
  have aw: "oj_awaits job (fst (token_addr t)) (snd (token_addr t))" using P(3,4) [OF j(1)] job(3) by (simp add: oj_awaits_def g t_def)
  let ?last = "Suc j = ng_count N"
  let ?job = "if ?last then oj_grant job else oj_advance (oj_grant job)"
  let ?out = "if ?last then [out_notice (u32_of_int (ng_fd N)) ''JOB_GRANTED'' (ng_job N)] else send_reserve (ng_job N) (oj_petitions job ! Suc j) []"
  obtain jobs' where h: "oj_inv jobs'" "oj_job jobs' = (ng_jobs N)(ng_job N \<mapsto> ?job)"
    "handle_respond env (nw_conns (ng_net N) ?a) ?node (Some (fst (token_addr t))) (u32_of_int ?fd) (''GRANTED'' @ '' '' @ fmt_u (ng_job N)) [] =
      Some (?node\<lparr>owned_jobs := jobs'\<rparr>, ?out)"
    using respond_granted_spec [OF st'(5) known reply_sender(2) [OF R] token_readyD(3) [OF R] aw, of env "[]"] job(1) P(2) [OF j(1)]
    by (auto simp: g add_notice MAX_OUTBOX_def simp del: append_Cons append.append_Cons)
  let ?c = "c\<lparr>cl_nodes := (cl_nodes c)(?a := ?node\<lparr>owned_jobs := jobs'\<rparr>), cl_wire := []\<rparr>"
  have d: "deliver (ng_net N) (i, env) c = runs (route (ng_net N) ?a) ?out ?c"
    using deliver_answer [OF st'(1), of i _ env "ng_net N"] granted_line [of "ng_job N"] h(3) reply_sender(1) [OF R] st'(1)
    by (simp add: reply_packet_def)
  have inv: "node_inventory ?node = snd (asked N (Suc j)) ?a" using st'(4) by (simp flip: cl_inventory_def)
  have peers: "peer_ok (ng_count N - Suc j) (cl_nodes ?c (token_addr u))" if "u \<in> set (ng_tokens N)" for u
    using st'(6) [OF that] by auto
  show ?thesis
  proof (cases ?last)
    case True
    have "nego_state N Complete (?c\<lparr>cl_told := [(?a, ng_fd N, job_msg ''JOB_GRANTED'' (ng_job N))]\<rparr>)"
      using True inv peers h(1,2) st'(3,4) j(2) job_has_grant [OF job(2) jok job(3)] by (auto simp: nego_state_def list_all_iff)
    with True d route_scheduler [OF ok] st'(2) show ?thesis by simp
  next
    case False
    then have j': "Suc j < ng_count N" using j(1) by simp
    note G = oj_grant_ok [OF jok job(3)]
    have "oj_next_reserve_idx (oj_grant job) < petition_count (oj_grant job)"
      using job(3) G P(2) [OF j(1)] j' by (simp add: oj_outstanding_def g)
    with oj_advance_ok G have "oj_outstanding (oj_advance (oj_grant job))" by blast
    moreover have "job_has N (Suc j) (oj_advance (oj_grant job))"
      using job_has_grant [OF job(2) jok job(3)] by (simp add: job_has_def) (simp add: oj_advance_def)
    ultimately have "nego_state N (Reserving (Suc j)) (?c\<lparr>cl_wire := [petition_packet N ''RESERVE'' (ng_tokens N ! Suc j)]\<rparr>)"
      using False inv peers h(1,2) st'(2,3,4) j(2) j' by (auto simp: nego_state_def list_all_iff)
    with False d route_token [OF nego_okD(3) [OF ok nth_mem [OF j']] P(1) [OF j']] send_reserve_out [OF P(3) [OF j']]
    show ?thesis by simp
  qed
qed

lemma Denying_step:
  assumes ok: "nego_ok N" and st: "nego_state N (Denying j) c"
  shows "\<exists>c'. deliver (ng_net N) (i, env) c = Some c' \<and> nego_state N (Releasing j (take j (ng_tokens N))) c'"
proof -
  define t where "t = ng_tokens N ! j"
  let ?a = "ng_at N" and ?fd = "fst (the (ng_link N (token_addr t)))" and ?node = "cl_nodes c (ng_at N)" and ?rest = "take j (ng_tokens N)"
  have j: "j < ng_count N" "fst (asked N j) = 1" "fst (asked N (Suc j)) = - 1" "t \<in> set (ng_tokens N)"
    using st by (simp_all add: nego_state_def t_def)
  have st': "cl_wire c = [] @ reply_packet N ''DENIED'' t # []" "cl_told c = []" "cl_unsent c = []"
    "cl_inventory c = snd (asked N j)" "oj_inv (owned_jobs ?node)"
    "\<And>u. u \<in> set (ng_tokens N) \<Longrightarrow> peer_ok 0 (cl_nodes c (token_addr u))"
    using st by (simp_all add: nego_state_def t_def list_all_iff)
  obtain job where job: "oj_job (owned_jobs ?node) = (ng_jobs N)(ng_job N \<mapsto> job)" "job_has N j job" using st by (auto simp: nego_state_def)
  have known: "oj_job (owned_jobs ?node) (ng_job N) = Some job" using job(1) by simp
  have g: "oj_grants job = j" "oj_owner_socket job = u32_of_int (ng_fd N)"
    "map (\<lambda>p. p\<lparr>jp_is_granted := 0\<rparr>) (take j (oj_petitions job)) = map token_petition ?rest"
    using job(2) by (simp_all add: job_has_def flip: take_map)
  have fits: "length [] + oj_grants job < MAX_OUTBOX" using g(1) j(1) nego_okD(2) [OF ok] by (simp add: MAX_OUTBOX_def MAX_JOB_RESOURCES_def)
  let ?out = "map (out_petition ''RELEASE'' (ng_job N)) (take j (oj_petitions job)) @ [out_notice (u32_of_int (ng_fd N)) ''JOB_DENIED'' (ng_job N)]"
  obtain jobs' where h: "abort_job ''JOB_DENIED'' (ng_job N) (owned_jobs ?node) [] = Some (jobs', ?out)" "oj_inv jobs'"
    "oj_job jobs' = (ng_jobs N)(ng_job N := None)"
    using abort_job_spec [OF st'(5) known fits, of "''JOB_DENIED''"] job(1) by (auto simp: g(1,2) out_petition_release)
  let ?c = "c\<lparr>cl_nodes := (cl_nodes c)(?a := ?node\<lparr>owned_jobs := jobs'\<rparr>), cl_wire := []\<rparr>"
  have d: "deliver (ng_net N) (i, env) c = runs (route (ng_net N) ?a) ?out ?c"
    using deliver_answer [OF st'(1), of i _ env "ng_net N"] denied_line [of "ng_job N"] h(1) st'(1)
    by (simp add: reply_packet_def respond_denied_line del: append_Cons append.append_Cons)
  have "list_all (token_ready N) ?rest" using nego_okD(3) [OF ok] in_set_takeD unfolding list_all_iff by metis
  from route_tokens [OF this g(3), of "''RELEASE''" ?c] d st'(2) route_scheduler [OF ok]
  have "deliver (ng_net N) (i, env) c = Some (?c\<lparr>cl_wire := map (petition_packet N ''RELEASE'') ?rest,
      cl_told := [(?a, ng_fd N, job_msg ''JOB_DENIED'' (ng_job N))]\<rparr>)" by (simp add: runs_append)
  moreover have "node_inventory ?node = snd (asked N j) ?a" using st'(4) by (simp flip: cl_inventory_def)
  moreover have "restored N j S ?rest = S" for S by (auto simp: restored_def list_ex_iff fun_eq_iff)
  moreover have "distinct ?rest" using nego_okD(4) [OF ok] distinct_map distinct_take by blast
  moreover have "peer_ok 0 (cl_nodes ?c (token_addr u))" if "u \<in> set (ng_tokens N)" for u using st'(6) [OF that] by auto
  ultimately show ?thesis using h(2,3) j st'(3,4) by (simp add: nego_state_def list_all_iff)
qed

section \<open>Releasing\<close>

text \<open>The first \<open>i\<close> petitions are given back; the messages for \<open>rest\<close> are on their way.\<close>

definition releasing :: "negotiation \<Rightarrow> nat \<Rightarrow> (addr \<Rightarrow> inventory) \<Rightarrow> token list \<Rightarrow> cluster \<Rightarrow> bool" where
  "releasing N i S rest c \<longleftrightarrow> fst (asked N i) = 1 \<and> distinct rest \<and> set rest \<subseteq> set (take i (ng_tokens N)) \<and>
     cl_wire c = map (petition_packet N ''RELEASE'') rest \<and> cl_inventory c = restored N i S rest \<and>
     list_all (\<lambda>t. S (token_addr t) = snd (asked N i) (token_addr t) \<and> peer_ok 0 (cl_nodes c (token_addr t))) (take i (ng_tokens N))"

lemma restored_next:
  assumes "distinct (xs @ t # ys)" "t \<in> set (take i (ng_tokens N))"
  shows "restored N i S (xs @ ys) = (restored N i S (xs @ t # ys))(token_addr t := ng_inventory N (token_addr t))"
  using assms by (auto simp: restored_def list_ex_iff fun_eq_iff)

lemma release_deliver:
  assumes ok: "nego_ok N" and env: "env_ok env" and st: "releasing N m S0 rest c" and ne: "rest \<noteq> []"
  shows "\<exists>c' rest'. deliver (ng_net N) (i, env) c = Some c' \<and> releasing N m S0 rest' c' \<and> length rest = Suc (length rest') \<and>
    cl_told c' = cl_told c \<and> cl_unsent c' = cl_unsent c \<and>
    (\<forall>b. owned_jobs (cl_nodes c' b) = owned_jobs (cl_nodes c b) \<and> (peer_ok 0 (cl_nodes c b) \<longrightarrow> peer_ok 0 (cl_nodes c' b)))"
proof -
  define k where "k = i mod length rest"
  define t where "t = rest ! k"
  define xs where "xs = take k rest"
  define ys where "ys = drop (Suc k) rest"
  have k: "k < length rest" using ne by (simp add: k_def)
  have rest: "rest = xs @ t # ys" using id_take_nth_drop [OF k] by (simp add: xs_def ys_def t_def)
  have S: "fst (asked N m) = 1" "distinct rest" "set rest \<subseteq> set (take m (ng_tokens N))" "cl_inventory c = restored N m S0 rest"
    "cl_wire c = map (petition_packet N ''RELEASE'') rest" "\<And>u. u \<in> set (take m (ng_tokens N)) \<Longrightarrow> S0 (token_addr u) = snd (asked N m) (token_addr u) \<and> peer_ok 0 (cl_nodes c (token_addr u))"
    using st by (simp_all add: releasing_def list_all_iff)
  have t: "t \<in> set (take m (ng_tokens N))" "t \<in> set (ng_tokens N)" using S(3) rest in_set_takeD [of t m] by auto
  let ?b = "token_addr t" and ?s = "ng_sock N (token_addr t)" and ?node = "cl_nodes c (token_addr t)"
  note R = nego_okD(3) [OF ok t(2)]
  have given: "spec_release (ng_job N) ?s (node_inventory ?node) = ng_inventory N ?b"
    using asked_release [OF ok S(1) t(2)] S(4) S(6) [OF t(1)] by (auto simp: restored_def simp flip: cl_inventory_def)
  let ?ip = "Some (strncpy 16 (cn_ip (nw_conns (ng_net N) ?b ! nat (snd (the (ng_link N ?b))))))"
  obtain line node' where h: "strtok CHR ''\<newline>'' (petition_msg ''RELEASE'' (ng_job N) (token_petition t)) = [line]"
    "handle_respond env (nw_conns (ng_net N) ?b) ?node ?ip ?s line [] = Some (node', [])" "node_inventory node' = ng_inventory N ?b"
    "peer_ok 0 node'" "owned_jobs node' = owned_jobs ?node"
    using release_step [OF conjunct2 [OF S(6) [OF t(1)]] _ env, of "ng_job N" ?s "token_petition t" "nw_conns (ng_net N) ?b" ?ip]
      token_readyD(5) [OF R] given by auto
  let ?w = "map (petition_packet N ''RELEASE'') (xs @ ys)"
  let ?c = "c\<lparr>cl_nodes := (cl_nodes c)(?b := node'), cl_wire := ?w\<rparr>"
  have wire: "cl_wire c = map (petition_packet N ''RELEASE'') xs @ petition_packet N ''RELEASE'' t # map (petition_packet N ''RELEASE'') ys"
    using S(5) rest by simp
  have "deliver (ng_net N) (i, env) c = Some ?c"
    using deliver_answer [OF wire, of i line env "ng_net N"] h(1,2) S(5) k by (simp add: petition_packet_def ng_sock_def k_def xs_def)
  moreover have "releasing N m S0 (xs @ ys) ?c"
    using S h restored_next [of xs t ys m N S0] t(1) rest by (auto simp: releasing_def list_all_iff)
  moreover have "length rest = Suc (length (xs @ ys))" using rest by simp
  ultimately show ?thesis using h(4,5) by (intro exI [of _ ?c] exI [of _ "xs @ ys"]) auto
qed

text \<open>JOB_RELEASE of the scheduler, while the first \<open>m\<close> petitions are granted.\<close>

definition cancel_packet :: "negotiation \<Rightarrow> packet" where
  "cancel_packet N = \<lparr>pk_to = ng_at N, pk_fd = ng_fd N, pk_bytes = job_msg ''JOB_RELEASE'' (ng_job N)\<rparr>"

definition cancelling :: "negotiation \<Rightarrow> nat \<Rightarrow> (addr \<Rightarrow> inventory) \<Rightarrow> cluster \<Rightarrow> bool" where
  "cancelling N m S c \<longleftrightarrow> m \<le> ng_count N \<and> fst (asked N m) = 1 \<and> cl_wire c = [cancel_packet N] \<and> cl_inventory c = S \<and>
     list_all (\<lambda>t. S (token_addr t) = snd (asked N m) (token_addr t) \<and> peer_ok 0 (cl_nodes c (token_addr t))) (take m (ng_tokens N)) \<and>
     oj_inv (owned_jobs (cl_nodes c (ng_at N))) \<and>
     (\<exists>job. oj_job (owned_jobs (cl_nodes c (ng_at N))) = (ng_jobs N)(ng_job N \<mapsto> job) \<and> job_has N m job)"

lemma cancel_step:
  assumes ok: "nego_ok N" and st: "cancelling N m S c"
  shows "\<exists>c'. deliver (ng_net N) (i, env) c = Some c' \<and> releasing N m S (take m (ng_tokens N)) c' \<and> cl_told c' = cl_told c \<and>
    cl_unsent c' = cl_unsent c \<and> oj_job (owned_jobs (cl_nodes c' (ng_at N))) = (ng_jobs N)(ng_job N := None)"
proof -
  let ?a = "ng_at N" and ?node = "cl_nodes c (ng_at N)" and ?rest = "take m (ng_tokens N)"
  have m: "m \<le> ng_count N" "fst (asked N m) = 1" "cl_wire c = [] @ cancel_packet N # []" "cl_inventory c = S" "oj_inv (owned_jobs ?node)"
    "\<And>u. u \<in> set ?rest \<Longrightarrow> S (token_addr u) = snd (asked N m) (token_addr u) \<and> peer_ok 0 (cl_nodes c (token_addr u))"
    using st by (simp_all add: cancelling_def list_all_iff)
  obtain job where job: "oj_job (owned_jobs ?node) = (ng_jobs N)(ng_job N \<mapsto> job)" "job_has N m job" using st by (auto simp: cancelling_def)
  have known: "oj_job (owned_jobs ?node) (ng_job N) = Some job" using job(1) by simp
  have g: "oj_grants job = m" "map (\<lambda>p. p\<lparr>jp_is_granted := 0\<rparr>) (take m (oj_petitions job)) = map token_petition ?rest"
    using job(2) by (simp_all add: job_has_def flip: take_map)
  note G = granted_prefix [OF m(5) known]
  obtain jobs' where rem: "remove_owned_job (owned_jobs ?node) (ng_job N) = Some jobs'" "oj_job jobs' = (ng_jobs N)(ng_job N := None)"
    using ojp.remove_job_inv [OF m(5), of "ng_job N"] job(1) by auto
  let ?out = "map (out_petition ''RELEASE'' (ng_job N)) (take m (oj_petitions job))"
  have "send_releases (ng_job N) (take m (oj_petitions job)) [] = [] @ map (out_release (ng_job N)) (take m (oj_petitions job))"
    by (rule send_releases_fits) (use G g(1) in \<open>auto simp: MAX_OUTBOX_def MAX_JOB_RESOURCES_def\<close>)
  then have send: "send_releases (ng_job N) (take m (oj_petitions job)) [] = ?out" by (simp add: out_petition_release)
  let ?c = "c\<lparr>cl_nodes := (cl_nodes c)(?a := ?node\<lparr>owned_jobs := jobs'\<rparr>), cl_wire := []\<rparr>"
  have d: "deliver (ng_net N) (i, env) c = runs (route (ng_net N) ?a) ?out ?c"
    using deliver_answer [OF m(3), of i _ env "ng_net N"] job_release_line [of "ng_job N"] rem(1) G send g(1) m(3)
    by (simp add: cancel_packet_def respond_job_release_line del: append_Cons append.append_Cons)
  have "list_all (token_ready N) ?rest" using nego_okD(3) [OF ok] in_set_takeD unfolding list_all_iff by metis
  from route_tokens [OF this g(2), of "''RELEASE''" ?c] d
  have "deliver (ng_net N) (i, env) c = Some (?c\<lparr>cl_wire := map (petition_packet N ''RELEASE'') ?rest\<rparr>)" by simp
  moreover have "node_inventory ?node = S ?a" using m(4) by (simp flip: cl_inventory_def)
  moreover have "restored N m S ?rest = S" by (auto simp: restored_def list_ex_iff fun_eq_iff)
  moreover have "distinct ?rest" using nego_okD(4) [OF ok] distinct_map distinct_take by blast
  moreover have "peer_ok 0 (cl_nodes ?c (token_addr u))" if "u \<in> set ?rest" for u using m(6) [OF that] by auto
  ultimately show ?thesis using rem(2) m(2,4,6) by (simp add: releasing_def list_all_iff)
qed

section \<open>Every order\<close>

lemma nego_step:
  assumes ok: "nego_ok N" and env: "env_ok env" and st: "nego_state N ph c"
  shows "\<exists>c' ph'. deliver (ng_net N) (i, env) c = Some c' \<and> nego_state N ph' c' \<and> rank N ph' \<le> rank N ph - 1"
proof (cases ph)
  case Requested
  with Requested_step [OF ok env, of c i] st show ?thesis by fastforce
next
  case (Reserving j)
  with Reserving_step [OF ok env, of j c i] st show ?thesis by (fastforce simp: nego_state_def)
next
  case (Granting j)
  then have "j < ng_count N" using st by (simp add: nego_state_def)
  then have "rank N (if Suc j = ng_count N then Complete else Reserving (Suc j)) \<le> rank N (Granting j) - 1" unfolding rank.simps by auto
  with Granting_step [OF ok, of j c i env] st Granting show ?thesis by blast
next
  case (Denying j)
  then have "j < ng_count N" using st by (simp add: nego_state_def)
  then have "rank N (Releasing j (take j (ng_tokens N))) \<le> rank N (Denying j) - 1" unfolding rank.simps by simp
  with Denying_step [OF ok, of j c i env] st Denying show ?thesis by blast
next
  case (Releasing j rest)
  have r: "releasing N j (snd (asked N j)) rest c"
    using st in_set_takeD [of _ j "ng_tokens N"] by (auto simp: Releasing nego_state_def releasing_def list_all_iff)
  show ?thesis
  proof (cases "rest = []")
    case True
    with st show ?thesis unfolding Releasing by (intro exI [of _ c] exI [of _ ph]) (simp add: Releasing deliver_def nego_state_def)
  next
    case False
    obtain c' rest' where d: "deliver (ng_net N) (i, env) c = Some c'" "releasing N j (snd (asked N j)) rest' c'" "length rest = Suc (length rest')"
      "cl_told c' = cl_told c" "cl_unsent c' = cl_unsent c"
      "\<And>b. owned_jobs (cl_nodes c' b) = owned_jobs (cl_nodes c b) \<and> (peer_ok 0 (cl_nodes c b) \<longrightarrow> peer_ok 0 (cl_nodes c' b))"
      using release_deliver [OF ok env r False, of i] by blast
    have "nego_state N (Releasing j rest') c'" using st d by (simp add: Releasing nego_state_def releasing_def list_all_iff)
    with d(1,3) show ?thesis unfolding Releasing by (intro exI [of _ c'] exI [of _ "Releasing j rest'"]) simp
  qed
next
  case (Stalled j)
  with st show ?thesis by (intro exI [of _ c] exI [of _ ph]) (simp add: nego_state_def deliver_def)
next
  case Complete
  with st show ?thesis by (intro exI [of _ c] exI [of _ ph]) (simp add: nego_state_def deliver_def)
qed

text \<open>The deliveries are a step system: the budget is the number of messages still to come.\<close>

interpretation ng: step_system "\<lambda>N. deliver (ng_net N)" nego_ok "\<lambda>N l. env_ok (snd l)"
  "\<lambda>N j c. \<exists>ph. nego_state N ph c \<and> rank N ph \<le> j" 1
proof
  fix N j c and l :: "nat \<times> env"
  assume N: "nego_ok N" "env_ok (snd l)" and "\<exists>ph. nego_state N ph c \<and> rank N ph \<le> 1 + j"
  then obtain ph where ph: "nego_state N ph c" "rank N ph \<le> Suc j" by auto
  from nego_step [OF N ph(1), of "fst l"] ph(2) show "\<exists>c'. deliver (ng_net N) l c = Some c' \<and> (\<exists>ph. nego_state N ph c' \<and> rank N ph \<le> j)"
    by fastforce
qed

lemma nego_start:
  assumes "nego_ok N"
  shows "nego_state N Requested (ng_start N)"
  using assms token_ready_def by (simp add: nego_ok_def nego_state_def list_all_iff)

lemma nego_reached:
  assumes ok: "nego_ok N" and reach: "cl_reaches (ng_net N) (ng_start N) n c"
  shows "\<exists>ph. nego_state N ph c \<and> rank N ph \<le> 3 * ng_count N + 1 - n"
proof -
  have "\<exists>ph. nego_state N ph (ng_start N) \<and> rank N ph \<le> 1 * (n + (3 * ng_count N + 1 - n))"
    using nego_start [OF ok] by (intro exI [of _ Requested]) simp
  from ng.reaches_inv [OF ok reach this] show ?thesis by simp
qed

text \<open>The release of a job, after JOB_RELEASE.\<close>

definition cancel_inv :: "negotiation \<times> nat \<times> (addr \<Rightarrow> inventory) \<Rightarrow> nat \<Rightarrow> cluster \<Rightarrow> bool" where
  "cancel_inv w k c \<longleftrightarrow> (case w of (N, m, S) \<Rightarrow> cancelling N m S c \<and> m < k \<or>
     (\<exists>rest. releasing N m S rest c \<and> oj_job (owned_jobs (cl_nodes c (ng_at N))) = (ng_jobs N)(ng_job N := None) \<and> length rest \<le> k))"

interpretation nc: step_system "\<lambda>w. deliver (ng_net (fst w))" "\<lambda>w. nego_ok (fst w)" "\<lambda>w l. env_ok (snd l)" cancel_inv 1
proof
  fix w k c and l :: "nat \<times> env"
  assume w: "nego_ok (fst w)" "env_ok (snd l)" "cancel_inv w (1 + k) c"
  obtain N m S where N: "w = (N, m, S)" by (cases w)
  from w(3) consider (asked) "cancelling N m S c" "m \<le> k"
    | (rest) rest where "releasing N m S rest c" "oj_job (owned_jobs (cl_nodes c (ng_at N))) = (ng_jobs N)(ng_job N := None)" "length rest \<le> Suc k"
    by (auto simp: cancel_inv_def N)
  then show "\<exists>c'. deliver (ng_net (fst w)) l c = Some c' \<and> cancel_inv w k c'"
  proof cases
    case asked
    obtain c' where "deliver (ng_net N) l c = Some c'" "releasing N m S (take m (ng_tokens N)) c'"
      "oj_job (owned_jobs (cl_nodes c' (ng_at N))) = (ng_jobs N)(ng_job N := None)"
      using cancel_step [OF w(1) [unfolded N, simplified] asked(1), of "fst l" "snd l"] by auto
    with asked(2) show ?thesis by (auto simp: cancel_inv_def N intro!: exI [of _ "take m (ng_tokens N)"])
  next
    case rest
    show ?thesis
    proof (cases "rest = []")
      case True
      with rest show ?thesis by (auto simp: cancel_inv_def N deliver_def releasing_def)
    next
      case False
      obtain c' rest' where "deliver (ng_net N) l c = Some c'" "releasing N m S rest' c'" "length rest = Suc (length rest')"
        "owned_jobs (cl_nodes c' (ng_at N)) = owned_jobs (cl_nodes c (ng_at N))"
        using release_deliver [OF w(1) [unfolded N, simplified] w(2) rest(1) False, of "fst l"] unfolding prod.collapse by blast
      with rest(2,3) show ?thesis by (auto simp: cancel_inv_def N intro!: exI [of _ rest'])
    qed
  qed
qed

lemma cancel_reached:
  assumes ok: "nego_ok N" and st: "cancelling N m S c" and reach: "cl_reaches (ng_net N) c k c'" and k: "m < k"
  shows "cl_wire c' = [] \<and> cl_inventory c' = restored N m S [] \<and>
    oj_job (owned_jobs (cl_nodes c' (ng_at N))) = (ng_jobs N)(ng_job N := None)"
proof -
  have "cancel_inv (N, m, S) (1 * (k + 0)) c" using st k by (simp add: cancel_inv_def)
  from nc.reaches_inv [where w = "(N, m, S)", OF _ _ this] ok reach have "cancel_inv (N, m, S) 0 c'" by simp
  then show ?thesis by (auto simp: cancel_inv_def releasing_def)
qed

section \<open>Outcomes\<close>

text \<open>When nothing is on its way, the job is complete, waits, or was rolled back.\<close>

abbreviation ng_spec :: "negotiation \<Rightarrow> int \<times> (addr \<Rightarrow> inventory)" where
  "ng_spec N \<equiv> spec_job (ng_job N) (ng_sock N) (ng_tokens N) (ng_inventory N)"

lemma ng_spec_asked: "ng_spec N = (fst (asked N (ng_count N)), if fst (asked N (ng_count N)) = - 1 then ng_inventory N else snd (asked N (ng_count N)))"
  by (simp add: spec_job_def asked_all case_prod_unfold)

lemma rank_0:
  assumes "nego_state N ph c" "rank N ph = 0"
  obtains (complete) "ph = Complete" "ng_spec N = (1, phase_inventory N ph)"
    | (stalled) i where "ph = Stalled i" "ng_spec N = (0, phase_inventory N ph)"
    | (denied) i where "ph = Releasing i []" "ng_spec N = (- 1, phase_inventory N ph)"
proof -
  have v: "phase_valid N ph" using assms(1) by (simp add: nego_state_def)
  show thesis
  proof (cases ph)
    case Complete
    with v that(1) show ?thesis by (simp add: ng_spec_asked)
  next
    case (Stalled i)
    with v asked_stop [of "Suc i" N] that(2) show ?thesis by (simp add: ng_spec_asked)
  next
    case (Releasing i rest)
    have "restored N i (snd (asked N i)) [] = ng_inventory N"
      using v Releasing asked_elsewhere [of N i] unfolding restored_Nil by auto
    with Releasing assms(2) v asked_stop [of "Suc i" N] that(3) show ?thesis by (simp add: ng_spec_asked)
  qed (use v assms(2) in auto)
qed

lemma nego_ended:
  assumes "nego_ok N" "cl_reaches (ng_net N) (ng_start N) n c" "3 * ng_count N + 1 \<le> n"
  obtains ph where "nego_state N ph c" "rank N ph = 0"
  using nego_reached [OF assms(1,2)] assms(3) by auto

lemma asked_waits:
  assumes "i < ng_count N" "fst (asked N i) = 1" "fst (asked N (Suc i)) = 0"
  defines "t \<equiv> ng_tokens N ! i"
  shows "snd (asked N (Suc i)) = (snd (asked N i))(token_addr t := (snd (asked N i) (token_addr t))
    \<lparr>waiting := (waiting (snd (asked N i) (token_addr t)))(snd (token_key t) := waiting (snd (asked N i) (token_addr t)) (snd (token_key t)) @
      [(ng_job N, ng_sock N (token_addr t), unat (jp_quantity (token_petition t)))])\<rparr>)"
  using asked_Suc [OF assms(1,2)] assms(3) by (auto simp: t_def Let_def spec_request_def split: if_splits)

text \<open>A complete or waiting job when JOB_RELEASE arrives.\<close>

lemma complete_cancelling:
  assumes "nego_state N Complete c"
  shows "cancelling N (ng_count N) (cl_inventory c) (c\<lparr>cl_wire := [cancel_packet N]\<rparr>)"
  using assms by (simp add: nego_state_def cancelling_def list_all_iff)

lemma stalled_cancelling:
  assumes st: "nego_state N (Stalled i) c" and dist: "distinct (map token_addr (ng_tokens N))"
  shows "cancelling N i (cl_inventory c) (c\<lparr>cl_wire := [cancel_packet N]\<rparr>)" "token_addr (ng_tokens N ! i) \<notin> token_addr ` set (take i (ng_tokens N))"
proof -
  have i: "i < ng_count N" "fst (asked N i) = 1" "fst (asked N (Suc i)) = 0" using st by (simp_all add: nego_state_def)
  have "distinct (map token_addr (take (Suc i) (ng_tokens N)))" using dist by (metis distinct_take take_map)
  then show new: "token_addr (ng_tokens N ! i) \<notin> token_addr ` set (take i (ng_tokens N))"
    using i(1) by (simp add: take_Suc_conv_app_nth)
  have other: "token_addr u \<noteq> token_addr (ng_tokens N ! i)" "u \<in> set (ng_tokens N)" if "u \<in> set (take i (ng_tokens N))" for u
    using new that in_set_takeD [OF that] by (metis imageI, blast)
  have inv: "cl_inventory c = snd (asked N (Suc i))" "\<And>u. u \<in> set (ng_tokens N) \<Longrightarrow> phase_room N (Stalled i) (token_addr u) (cl_nodes c (token_addr u))"
    "oj_inv (owned_jobs (cl_nodes c (ng_at N)))" "phase_jobs N (Stalled i) (owned_jobs (cl_nodes c (ng_at N)))"
    using st by (simp_all add: nego_state_def list_all_iff)
  have "snd (asked N (Suc i)) (token_addr u) = snd (asked N i) (token_addr u) \<and> peer_ok 0 (cl_nodes c (token_addr u))"
    if "u \<in> set (take i (ng_tokens N))" for u
    using asked_waits [OF i] inv(2) [OF other(2) [OF that]] other(1) [OF that] by simp
  with i(1,2) inv(1,3,4) show "cancelling N i (cl_inventory c) (c\<lparr>cl_wire := [cancel_packet N]\<rparr>)"
    by (auto simp: cancelling_def list_all_iff)
qed

text \<open>There are such runs of every length.\<close>

lemma nego_runs:
  assumes "nego_ok N"
  shows "\<exists>c. cl_reaches (ng_net N) (ng_start N) n c"
proof -
  let ?l = "replicate n (0 :: nat, ej_env)"
  have "\<exists>ph. nego_state N ph (ng_start N) \<and> rank N ph \<le> 1 * length ?l + (3 * ng_count N + 1)"
    using nego_start [OF assms] by (intro exI [of _ Requested]) simp
  from ng.runs_safe [where w = N and ls = ?l, OF assms _ this] show ?thesis
    unfolding reaches_iff_runs by (auto simp: list_all_iff intro!: exI [of _ ?l])
qed

lemma cancel_runs:
  assumes "nego_ok N" "cancelling N m S c"
  shows "\<exists>c'. cl_reaches (ng_net N) c n c'"
proof -
  let ?l = "replicate n (0 :: nat, ej_env)"
  have "cancel_inv (N, m, S) (1 * length ?l + Suc m) c" using assms(2) by (simp add: cancel_inv_def)
  from nc.runs_safe [where w = "(N, m, S)" and ls = ?l, OF _ _ this] assms(1) show ?thesis
    unfolding reaches_iff_runs by (auto simp: list_all_iff intro!: exI [of _ ?l])
qed

section \<open>A sample\<close>

text \<open>Two agents: 10.0.0.9, where the scheduler is on descriptor 4, and 10.0.0.1, with five of eight CPUs free.\<close>

definition sample_net :: network where
  "sample_net = \<lparr>nw_conns = (\<lambda>_. ej_conns), nw_end = (\<lambda>x. if x = ((''10.0.0.9'', 8000), 3) then Some ((''10.0.0.1'', 9000), 7)
     else if x = ((''10.0.0.1'', 9000), 7) then Some ((''10.0.0.9'', 8000), 3) else None)\<rparr>"

definition sample_peer :: "active_jobs_t \<Rightarrow> node_data_t" where
  "sample_peer J = \<lparr>active_jobs = J, resources = ej_resources\<lparr>request_queue := (\<lambda>_. [])\<rparr>, known_nodes = create_known_nodes,
     owned_jobs = create_owned_jobs\<rparr>"

definition sample_nego :: "active_jobs_t \<Rightarrow> u32 \<Rightarrow> negotiation" where
  "sample_nego J q =
     (let ts = [(''10.0.0.1'', 9000, CPU, q)]
      in \<lparr>ng_net = sample_net, ng_at = (''10.0.0.9'', 8000), ng_fd = 4, ng_job = 7, ng_tokens = ts,
          ng_start = \<lparr>cl_nodes = (\<lambda>_. sample_peer J),
            cl_wire = [\<lparr>pk_to = (''10.0.0.9'', 8000), pk_fd = 4, pk_bytes = request_line 7 ts @ ''\<newline>''\<rparr>],
            cl_told = [], cl_unsent = []\<rparr>\<rparr>)"

lemma sample_nego_simps:
  "ng_net (sample_nego J q) = sample_net" "ng_at (sample_nego J q) = (''10.0.0.9'', 8000)" "ng_fd (sample_nego J q) = 4"
  "ng_job (sample_nego J q) = 7" "ng_tokens (sample_nego J q) = [(''10.0.0.1'', 9000, CPU, q)]"
  "cl_nodes (ng_start (sample_nego J q)) b = sample_peer J"
  by (simp_all add: sample_nego_def Let_def)

lemma sample_link: "link sample_net (''10.0.0.9'', 8000) (''10.0.0.1'', 9000) = Some (3, 7)"
proof -
  let ?m = "cn_matches ''10.0.0.1'' 9000"
  have len: "length ej_conns = MAX_FDS" by (simp add: ej_conns_def active_connections_init_def)
  have at: "ej_conns ! k = (if k = 3 then \<lparr>is_active = 1, cn_ip = ''10.0.0.1'', cn_port = 9000, pending_message = [], cn_job_id = 0\<rparr>
      else \<lparr>is_active = 0, cn_ip = [], cn_port = 0, pending_message = [], cn_job_id = 0\<rparr>)" if "k < MAX_FDS" for k
    using that by (simp add: ej_conns_def active_connections_init_def nth_list_update)
  have hit: "?m (ej_conns ! k) \<longleftrightarrow> k = 3" if "k < MAX_FDS" for k using at [OF that] by (simp add: cn_matches_def)
  have "ej_conns ! 3 \<in> set ej_conns" "?m (ej_conns ! 3)" using len hit [of 3] by (simp_all add: MAX_FDS_def)
  with find_bucle_spec [of 0 ej_conns "''10.0.0.1''" 9000] len hit
  have "find_fd_by_ip_port ej_conns (Some ''10.0.0.1'') 9000 = Some 3" by (fastforce simp: find_fd_by_ip_port_def)
  with at [of 3] show ?thesis by (simp add: link_def sample_net_def get_connection_port_def MAX_FDS_def)
qed

lemma sample_nego_ok:
  assumes J: "aj_inv J" "th_set J = {ej_grant}" "th_room RES_NUM J" and q: "q < 100"
  shows "nego_ok (sample_nego J q)"
    "capacity (cl_inventory (ng_start (sample_nego J q)) b) CPU = 8" "inv_free (cl_inventory (ng_start (sample_nego J q)) b) CPU = 5"
    "waiting (cl_inventory (ng_start (sample_nego J q)) b) CPU = []"
proof -
  let ?N = "sample_nego J q" and ?R = "ej_resources\<lparr>request_queue := (\<lambda>_. [])\<rparr>"
  have exact: "lr_exact ?R J" using J
    by (auto simp: lr_exact_def lr_inv_def ej_resources_def ej_grant_def held_def aj_amount_def)
  have inv: "cl_inventory (ng_start ?N) b = abs_inventory ?R J" for b
    by (simp add: cl_inventory_def sample_nego_def sample_peer_def Let_def)
  show "capacity (cl_inventory (ng_start ?N) b) CPU = 8" "waiting (cl_inventory (ng_start ?N) b) CPU = []"
    unfolding inv by (simp_all add: abs_inventory_def ej_resources_def)
  show "inv_free (cl_inventory (ng_start ?N) b) CPU = 5"
    unfolding inv using abs_free [OF exact, of CPU] by (simp add: ej_resources_def)
  have keys: "(7, s, r) \<notin> inv_keys (abs_inventory ?R J)" for s r
    unfolding lr_keys_abs [OF exact, symmetric] using J(2) by (simp add: lr_keys_def ej_grant_def aj_key_def)
  have peer: "peer_ok 1 (sample_peer J)"
    using exact th_room_mono [OF J(3), of 1] by (simp add: peer_ok_def sample_peer_def lr_ids_ok_def lr_waiting_def RES_NUM_def)
  have "inv_idle (abs_inventory ?R J)" by (simp add: inv_idle_def abs_inventory_def)
  with keys peer sample_link have "list_all (token_ready ?N) (ng_tokens ?N)"
    by (simp add: token_ready_def inv sample_nego_simps token_ok_def)
  moreover have "length (pk_bytes (request_packet ?N)) < BUFFER_SIZE"
    using length_fmt_u [of q] length_fmt_u [of 7] length_fmt_u [of 9000]
    by (simp add: request_packet_def sample_nego_def Let_def request_line_def job_token_def res_text_def BUFFER_SIZE_def)
  ultimately show "nego_ok ?N"
    using create_owned_jobs_inv [of oj_ok 1]
    by (simp add: nego_ok_def) (simp add: sample_nego_def Let_def sample_peer_def request_packet_def sample_net_def MAX_JOB_RESOURCES_def MAX_FDS_def)
qed

section \<open>Properties\<close>

text \<open>
  Claim C13. A job gets everything or nothing. From the JOB_REQUEST on, whatever the order in which the
  messages arrive, every message is handled without undefined behaviour, and after at most 3 n + 1 of
  them, for n petitions, none is left and the cluster is where the specification says: the scheduler
  was told JOB_GRANTED and every agent holds what it was asked for; or it was told JOB_DENIED, the job
  is forgotten and every inventory is as before the request; or a request waits at an agent and the
  scheduler was told nothing. No other job of the agent changes. The agents must be connected, have
  exact books and no waiting request that fits, and no petition may repeat the agent and resource of
  another.
\<close>

theorem job_all_or_nothing:
  assumes ok: "nego_ok N" and reach: "cl_reaches (ng_net N) (ng_start N) n c"
  shows "(\<forall>l. env_ok (snd l) \<longrightarrow> deliver (ng_net N) l c \<noteq> None) \<and>
    (3 * length (ng_tokens N) + 1 \<le> n \<longrightarrow> cl_wire c = [] \<and> cl_unsent c = [] \<and>
      (case spec_job (ng_job N) (ng_sock N) (ng_tokens N) (cl_inventory (ng_start N)) of (r, S) \<Rightarrow>
         cl_inventory c = S \<and>
         cl_told c = (if r = 1 then [(ng_at N, ng_fd N, job_msg ''JOB_GRANTED'' (ng_job N))]
           else if r = - 1 then [(ng_at N, ng_fd N, job_msg ''JOB_DENIED'' (ng_job N))] else []) \<and>
         (\<exists>new. oj_job (owned_jobs (cl_nodes c (ng_at N))) = (oj_job (owned_jobs (cl_nodes (ng_start N) (ng_at N))))(ng_job N := new) \<and>
            (if r = - 1 then new = None
             else if r = 1 then \<exists>job. new = Some job \<and> job_has N (length (ng_tokens N)) job
             else \<exists>job i. new = Some job \<and> job_has N i job \<and> oj_outstanding job))))"
proof (intro conjI allI impI)
  obtain ph where ph: "nego_state N ph c" using nego_reached [OF ok reach] by blast
  show "deliver (ng_net N) l c \<noteq> None" if "env_ok (snd l)" for l
    using nego_step [OF ok that ph, of "fst l"] by auto
next
  assume "3 * length (ng_tokens N) + 1 \<le> n"
  with nego_ended [OF ok reach] obtain ph where ph: "nego_state N ph c" "rank N ph = 0" by blast
  have "phase_wire N ph = []" using ph by (cases rule: rank_0) auto
  with ph(1) show "cl_wire c = []" "cl_unsent c = []" by (simp_all add: nego_state_def)
  let ?out = "\<lambda>r S. cl_inventory c = S \<and>
         cl_told c = (if r = 1 then [(ng_at N, ng_fd N, job_msg ''JOB_GRANTED'' (ng_job N))]
           else if r = - 1 then [(ng_at N, ng_fd N, job_msg ''JOB_DENIED'' (ng_job N))] else []) \<and>
         (\<exists>new. oj_job (owned_jobs (cl_nodes c (ng_at N))) = (ng_jobs N)(ng_job N := new) \<and>
            (if r = - 1 then new = None
             else if r = 1 then \<exists>job. new = Some job \<and> job_has N (length (ng_tokens N)) job
             else \<exists>job i. new = Some job \<and> job_has N i job \<and> oj_outstanding job))"
  from ph show "case spec_job (ng_job N) (ng_sock N) (ng_tokens N) (cl_inventory (ng_start N)) of (r, S) \<Rightarrow> ?out r S"
  proof (cases rule: rank_0)
    case complete
    with ph(1) show ?thesis by (auto simp: nego_state_def)
  next
    case (stalled i)
    with ph(1) show ?thesis by (auto simp: nego_state_def)
  next
    case (denied i)
    with ph(1) show ?thesis by (auto simp: nego_state_def)
  qed
qed

theorem job_all_or_nothing_witness:
  "\<exists>J c. th_set J = {ej_grant} \<and> cl_reaches sample_net (ng_start (sample_nego J 2)) 4 c \<and> cl_wire c = [] \<and>
     cl_told c = [((''10.0.0.9'', 8000), 4, job_msg ''JOB_GRANTED'' 7)]"
proof -
  obtain J where J: "aj_inv J" "th_set J = {ej_grant}" "th_room RES_NUM J" using ej_table by blast
  let ?N = "sample_nego J 2"
  note S = sample_nego_ok [OF J, of 2, simplified]
  note N = sample_nego_simps [of J 2]
  obtain c where c: "cl_reaches sample_net (ng_start ?N) 4 c" using nego_runs [OF S(1), of 4] N(1) by auto
  have "fst (spec_job (ng_job ?N) (ng_sock ?N) (ng_tokens ?N) (cl_inventory (ng_start ?N))) = 1"
    using S(2-3) by (simp add: spec_job_def N(5) spec_request_def)
  with job_all_or_nothing [OF S(1), of 4 c] c J(2) show ?thesis by (auto simp: N case_prod_unfold)
qed

text \<open>
  Claim C28. JOB_RELEASE undoes a job. When the scheduler releases a job that was granted, the agent
  forgets it and, whatever the order in which the RELEASE messages arrive, after one for each petition
  every inventory of the cluster is as it was before the job was requested.
\<close>

theorem job_release_restores:
  assumes ok: "nego_ok N" and reach: "cl_reaches (ng_net N) (ng_start N) n c" "3 * length (ng_tokens N) + 1 \<le> n"
    and granted: "fst (spec_job (ng_job N) (ng_sock N) (ng_tokens N) (cl_inventory (ng_start N))) = 1"
    and release: "cl_reaches (ng_net N) (c\<lparr>cl_wire := [cancel_packet N]\<rparr>) k c'" "length (ng_tokens N) < k"
  shows "cl_wire c' = [] \<and> cl_inventory c' = cl_inventory (ng_start N) \<and>
    oj_job (owned_jobs (cl_nodes c' (ng_at N))) = (oj_job (owned_jobs (cl_nodes (ng_start N) (ng_at N))))(ng_job N := None)"
proof -
  from nego_ended [OF ok reach] obtain ph where ph: "nego_state N ph c" "rank N ph = 0" by blast
  from ph granted have "ph = Complete" by (cases rule: rank_0) simp_all
  then have st: "nego_state N Complete c" using ph(1) by simp
  have "restored N (ng_count N) (cl_inventory c) [] = ng_inventory N"
    using st asked_elsewhere [of N "ng_count N"] unfolding restored_Nil by (auto simp: nego_state_def)
  with cancel_reached [OF ok complete_cancelling [OF st] release] show ?thesis by simp
qed

theorem job_release_restores_witness:
  "\<exists>J c c'. th_set J = {ej_grant} \<and> cl_reaches sample_net (ng_start (sample_nego J 2)) 4 c \<and>
     cl_reaches sample_net (c\<lparr>cl_wire := [cancel_packet (sample_nego J 2)]\<rparr>) 2 c' \<and> cl_wire c' = [] \<and>
     cl_inventory c' = cl_inventory (ng_start (sample_nego J 2))"
proof -
  obtain J where J: "aj_inv J" "th_set J = {ej_grant}" "th_room RES_NUM J" using ej_table by blast
  let ?N = "sample_nego J 2"
  note S = sample_nego_ok [OF J, of 2, simplified]
  have N: "ng_net ?N = sample_net" "ng_tokens ?N = [(''10.0.0.1'', 9000, CPU, 2)]" "3 * length (ng_tokens ?N) + 1 \<le> 4"
    by (simp_all add: sample_nego_simps)
  obtain c where c: "cl_reaches (ng_net ?N) (ng_start ?N) 4 c" using nego_runs [OF S(1), of 4] by auto
  have g: "fst (ng_spec ?N) = 1" using S(2-3) by (simp add: spec_job_def N(2) spec_request_def)
  from nego_ended [OF S(1) c N(3)] obtain ph where ph: "nego_state ?N ph c" "rank ?N ph = 0" by blast
  from ph g have "ph = Complete" by (cases rule: rank_0) simp_all
  with cancel_runs [OF S(1) complete_cancelling, of c 2] ph(1) obtain c' where
    c': "cl_reaches (ng_net ?N) (c\<lparr>cl_wire := [cancel_packet ?N]\<rparr>) 2 c'" by blast
  from job_release_restores [OF S(1) c N(3) g c'] N(2) c c' J(2) show ?thesis unfolding N(1) by auto
qed

text \<open>
  Claim C14. A request that waits is not withdrawn. When the scheduler gives up a job while one of its
  petitions waits in the queue of an agent, the agent that asked forgets the job and takes back what was
  granted, but sends nothing to the agent where the petition waits: its request stays in the queue,
  for a job that no agent knows any more. Once it fits it is granted, and the GRANTED for an unknown job is
  ignored. A job that is forgotten because of a time-out
  or a closed connection is rolled back in the same way.
\<close>

theorem waiting_request_not_withdrawn:
  assumes ok: "nego_ok N" and dist: "distinct (map token_addr (ng_tokens N))"
    and reach: "cl_reaches (ng_net N) (ng_start N) n c" "3 * length (ng_tokens N) + 1 \<le> n"
    and waits: "fst (spec_job (ng_job N) (ng_sock N) (ng_tokens N) (cl_inventory (ng_start N))) = 0"
    and release: "cl_reaches (ng_net N) (c\<lparr>cl_wire := [cancel_packet N]\<rparr>) k c'" "length (ng_tokens N) < k"
  shows "\<exists>ip port type quantity. (ip, port, type, quantity) \<in> set (ng_tokens N) \<and> cl_wire c' = [] \<and>
    oj_job (owned_jobs (cl_nodes c' (ng_at N))) (ng_job N) = None \<and>
    cl_inventory c' = (cl_inventory (ng_start N))((ip, port) := (cl_inventory (ng_start N) (ip, port))
      \<lparr>waiting := (waiting (cl_inventory (ng_start N) (ip, port)))(type := waiting (cl_inventory (ng_start N) (ip, port)) type @
        [(ng_job N, ng_sock N (ip, port), unat quantity)])\<rparr>)"
proof -
  from nego_ended [OF ok reach] obtain ph where ph: "nego_state N ph c" "rank N ph = 0" by blast
  from ph waits obtain i where "ph = Stalled i" by (cases rule: rank_0) simp_all
  then have st: "nego_state N (Stalled i) c" using ph(1) by simp
  then have i: "i < ng_count N" "fst (asked N i) = 1" "fst (asked N (Suc i)) = 0" "cl_inventory c = snd (asked N (Suc i))"
    by (simp_all add: nego_state_def)
  obtain ip port type q where t: "ng_tokens N ! i = (ip, port, type, q)" by (cases "ng_tokens N ! i")
  note C = stalled_cancelling [OF st dist]
  have k: "i < k" using i(1) release(2) by simp
  have new: "snd (asked N i) (ip, port) = ng_inventory N (ip, port)" using C(2) by (intro asked_elsewhere i(2)) (simp add: t)
  have "restored N i (cl_inventory c) [] = (ng_inventory N)((ip, port) := (ng_inventory N (ip, port))
      \<lparr>waiting := (waiting (ng_inventory N (ip, port)))(type := waiting (ng_inventory N (ip, port)) type @ [(ng_job N, ng_sock N (ip, port), unat q)])\<rparr>)"
    using asked_waits [OF i(1-3)] C(2) asked_elsewhere [OF i(2)] new unfolding restored_Nil i(4)
    by (auto simp: t token_petition_def)
  with cancel_reached [OF ok C(1) release(1) k] nth_mem [OF i(1)] t show ?thesis
    by (intro exI [of _ ip] exI [of _ port] exI [of _ type] exI [of _ q]) simp
qed

theorem waiting_request_not_withdrawn_witness:
  "\<exists>J c c'. th_set J = {ej_grant} \<and> cl_reaches sample_net (ng_start (sample_nego J 6)) 4 c \<and>
     cl_reaches sample_net (c\<lparr>cl_wire := [cancel_packet (sample_nego J 6)]\<rparr>) 2 c' \<and> cl_wire c' = [] \<and>
     waiting (cl_inventory c' (''10.0.0.1'', 9000)) CPU = [(7, 7, 6)]"
proof -
  obtain J where J: "aj_inv J" "th_set J = {ej_grant}" "th_room RES_NUM J" using ej_table by blast
  let ?N = "sample_nego J 6"
  note S = sample_nego_ok [OF J, of 6, simplified]
  have N: "ng_net ?N = sample_net" "ng_tokens ?N = [(''10.0.0.1'', 9000, CPU, 6)]" "3 * length (ng_tokens ?N) + 1 \<le> 4"
    "distinct (map token_addr (ng_tokens ?N))" "ng_sock ?N (''10.0.0.1'', 9000) = 7" "ng_job ?N = 7"
    by (simp_all add: sample_nego_simps ng_sock_def sample_link u32_of_int_def)
  obtain c where c: "cl_reaches (ng_net ?N) (ng_start ?N) 4 c" using nego_runs [OF S(1), of 4] by auto
  have w: "fst (ng_spec ?N) = 0" using S(2-3) by (simp add: spec_job_def N(2) spec_request_def)
  from nego_ended [OF S(1) c N(3)] obtain ph where ph: "nego_state ?N ph c" "rank ?N ph = 0" by blast
  from ph w obtain i where "ph = Stalled i" by (cases rule: rank_0) simp_all
  with cancel_runs [OF S(1) stalled_cancelling(1) [OF _ N(4)], of i c 2] ph(1) obtain c' where
    c': "cl_reaches (ng_net ?N) (c\<lparr>cl_wire := [cancel_packet ?N]\<rparr>) 2 c'" by blast
  from waiting_request_not_withdrawn [OF S(1) N(4) c N(3) w c'] N(2)
  have "cl_wire c' = [] \<and> waiting (cl_inventory c' (''10.0.0.1'', 9000)) CPU = [(7, 7, 6)]" by (auto simp: N(5,6) S(4))
  with c c' J(2) show ?thesis unfolding N(1) by blast
qed

end
