(* ===== verification/Thread_Pool.thy ===== *)
theory Thread_Pool
  imports Queues
begin

text \<open>
  The task queue of \<^verbatim>\<open>c_agent/src/comms/thread_pool.c\<close>: a ring buffer of 1024 tasks filled by the event
  loop and emptied by the worker threads. Every access is made with \<^verbatim>\<open>queue.lock\<close> held, so a
  concurrent execution is a sequence of the two critical sections \<open>thread_pool_push_task\<close> and
  \<open>worker_take\<close>, in the order in which the threads get the lock. A worker that finds the queue
  empty waits on the condition variable, which is \<open>None\<close> here: it takes nothing and tries again.
\<close>

section \<open>The ring buffer\<close>

datatype TaskType = TASK_TCP_CLIENT_MSG | TASK_UDP_DISCOVERY | TASK_UDP_ANNOUNCE | TASK_GARBAGE_COLLECTOR

record WorkerTask =
  wt_fd :: int
  wt_type :: TaskType

definition MAX_QUEUE :: nat where
  "MAX_QUEUE = 1024"

record TaskQueue =
  tasks :: "WorkerTask list"
  head :: nat
  tail :: nat
  count :: nat

text \<open>\<^verbatim>\<open>init_thread_pool\<close> leaves the array as it is (zeroed, as a static variable).\<close>

definition init_thread_pool :: "TaskQueue \<Rightarrow> TaskQueue" where
  "init_thread_pool q = q\<lparr>head := 0, tail := 0, count := 0\<rparr>"

definition static_queue :: TaskQueue where
  "static_queue = \<lparr>tasks = replicate MAX_QUEUE \<lparr>wt_fd = 0, wt_type = TASK_TCP_CLIENT_MSG\<rparr>,
     head = 0, tail = 0, count = 0\<rparr>"

definition thread_pool_push_task :: "TaskQueue \<Rightarrow> WorkerTask \<Rightarrow> TaskQueue" where
  "thread_pool_push_task q task =
     (if count q < MAX_QUEUE then
        q\<lparr>tasks := (tasks q)[tail q := task], tail := (tail q + 1) mod MAX_QUEUE, count := count q + 1\<rparr>
      else q)"

definition worker_take :: "TaskQueue \<Rightarrow> (WorkerTask \<times> TaskQueue) option" where
  "worker_take q =
     (if count q = 0 then None
      else Some (tasks q ! head q, q\<lparr>head := (head q + 1) mod MAX_QUEUE, count := count q - 1\<rparr>))"

section \<open>The ring is a first in, first out buffer\<close>

definition tq_inv :: "TaskQueue \<Rightarrow> bool" where
  "tq_inv q \<longleftrightarrow> length (tasks q) = MAX_QUEUE \<and> head q < MAX_QUEUE \<and> count q \<le> MAX_QUEUE \<and>
     tail q = (head q + count q) mod MAX_QUEUE"

definition tq_items :: "TaskQueue \<Rightarrow> WorkerTask list" where
  "tq_items q = map (\<lambda>i. tasks q ! ((head q + i) mod MAX_QUEUE)) [0..<count q]"

definition tq_accepts :: "TaskQueue \<Rightarrow> bool" where
  "tq_accepts q \<longleftrightarrow> length (tq_items q) < MAX_QUEUE"

lemma ring_apart:
  assumes "i < c" "c < (n :: nat)"
  shows "(h + i) mod n \<noteq> (h + c) mod n"
proof
  assume "(h + i) mod n = (h + c) mod n"
  then have "n dvd (h + c) - (h + i)" using assms mod_eq_dvd_iff_nat [of "h + i" "h + c" n] by simp
  then show False using assms dvd_imp_le [of n "c - i"] by simp
qed

lemma tq_push:
  assumes inv: "tq_inv q"
  shows "tq_inv (thread_pool_push_task q task) \<and>
    tq_items (thread_pool_push_task q task) = (if tq_accepts q then tq_items q @ [task] else tq_items q)"
proof (cases "count q < MAX_QUEUE")
  case True
  let ?q = "thread_pool_push_task q task"
  have q: "?q = q\<lparr>tasks := (tasks q)[tail q := task], tail := (tail q + 1) mod MAX_QUEUE, count := count q + 1\<rparr>"
    using True by (simp add: thread_pool_push_task_def)
  have tail: "tail q = (head q + count q) mod MAX_QUEUE" "tail q < length (tasks q)"
    using inv by (auto simp: tq_inv_def MAX_QUEUE_def)
  have "tasks ?q ! ((head ?q + i) mod MAX_QUEUE) = tasks q ! ((head q + i) mod MAX_QUEUE)" if "i < count q" for i
    using ring_apart [OF that True, of "head q"] by (simp add: q tail(1))
  moreover have "tasks ?q ! ((head ?q + count q) mod MAX_QUEUE) = task"
    using tail by (simp add: q)
  moreover have "tq_inv ?q"
    using inv True by (auto simp: tq_inv_def q mod_Suc_eq)
  ultimately show ?thesis
    using True by (simp add: tq_items_def q tq_accepts_def)
next
  case False
  with inv show ?thesis by (simp add: thread_pool_push_task_def tq_accepts_def tq_items_def)
qed

lemma tq_take:
  assumes inv: "tq_inv q" and items: "tq_items q = x # xs"
  shows "\<exists>r. worker_take q = Some (x, r) \<and> tq_inv r \<and> tq_items r = xs"
proof -
  have c: "count q \<noteq> 0"
  proof
    assume "count q = 0"
    then show False using items by (simp add: tq_items_def)
  qed
  let ?r = "q\<lparr>head := (head q + 1) mod MAX_QUEUE, count := count q - 1\<rparr>"
  have "[0..<count q] = 0 # map Suc [0..<count q - 1]"
    using c by (simp add: upt_conv_Cons map_Suc_upt)
  then have "tq_items q = tasks q ! (head q mod MAX_QUEUE) # tq_items ?r"
    by (simp add: tq_items_def mod_Suc_eq mod_add_left_eq comp_def)
  then have "x = tasks q ! head q" "tq_items ?r = xs" using items inv by (simp_all add: tq_inv_def)
  moreover have "tq_inv ?r"
  proof -
    obtain n where n: "count q = Suc n" using c by (cases "count q") auto
    show ?thesis using inv by (auto simp: tq_inv_def n mod_add_left_eq)
  qed
  ultimately show ?thesis using c by (simp add: worker_take_def)
qed

interpretation tq: fifo tq_inv tq_items tq_accepts thread_pool_push_task worker_take
proof (unfold_locales, goal_cases)
  case (1 q x) then show ?case by (rule tq_push)
next
  case (2 q) then show ?case by (simp add: tq_items_def worker_take_def)
next
  case (3 q x xs) then show ?case by (rule tq_take)
qed

lemma init_thread_pool_inv:
  "tq_inv (init_thread_pool static_queue) \<and> tq_items (init_thread_pool static_queue) = []"
  by (simp add: init_thread_pool_def static_queue_def tq_inv_def tq_items_def MAX_QUEUE_def)

section \<open>Properties\<close>

text \<open>
  Claim C11. The workers get the tasks in the order in which they were queued, each exactly once:
  after any interleaving of pushes and takes on the queue that \<^verbatim>\<open>init_thread_pool\<close> sets up, the tasks
  delivered so far followed by the tasks in the ring are the tasks that were accepted, and the ring
  indices are in range.
\<close>

theorem thread_pool_fifo:
  assumes "fifo_run tq_accepts thread_pool_push_task worker_take ops (init_thread_pool static_queue) =
    (q, accepted, delivered)"
  shows "accepted = delivered @ tq_items q \<and> head q < MAX_QUEUE \<and> tail q < MAX_QUEUE \<and>
    count q = length accepted - length delivered"
proof -
  have "tq_inv q" "accepted = delivered @ tq_items q"
    using tq.run_order [OF _ assms] init_thread_pool_inv by auto
  then show ?thesis by (auto simp: tq_inv_def tq_items_def MAX_QUEUE_def)
qed

theorem thread_pool_fifo_witness:
  "\<exists>q accepted delivered.
     fifo_run tq_accepts thread_pool_push_task worker_take
       [Pop, Push \<lparr>wt_fd = 7, wt_type = TASK_TCP_CLIENT_MSG\<rparr>, Push \<lparr>wt_fd = 3, wt_type = TASK_UDP_DISCOVERY\<rparr>, Pop]
       (init_thread_pool static_queue) = (q, accepted, delivered) \<and> accepted = delivered @ tq_items q"
proof -
  let ?ops = "[Pop, Push \<lparr>wt_fd = 7, wt_type = TASK_TCP_CLIENT_MSG\<rparr>,
    Push \<lparr>wt_fd = 3, wt_type = TASK_UDP_DISCOVERY\<rparr>, Pop]"
  obtain q a d where run: "fifo_run tq_accepts thread_pool_push_task worker_take ?ops
      (init_thread_pool static_queue) = (q, a, d)" by (rule prod_cases3)
  from thread_pool_fifo [OF run] run show ?thesis by blast
qed

text \<open>
  A task is dropped only when 1024 tasks wait: \<^verbatim>\<open>thread_pool_push_task\<close> on any reachable
  queue appends the task to the queue, or leaves the queue as it was when it is full.
\<close>

theorem thread_pool_drops_only_when_full:
  assumes "fifo_run tq_accepts thread_pool_push_task worker_take ops (init_thread_pool static_queue) =
    (q, accepted, delivered)"
  shows "if length (tq_items q) < MAX_QUEUE
    then tq_items (thread_pool_push_task q task) = tq_items q @ [task]
    else thread_pool_push_task q task = q \<and> length (tq_items q) = MAX_QUEUE"
proof -
  have inv: "tq_inv q" using tq.run_order [OF _ assms] init_thread_pool_inv by auto
  then have "count q \<le> MAX_QUEUE" "length (tq_items q) = count q" by (simp_all add: tq_inv_def tq_items_def)
  moreover have "thread_pool_push_task q task = q" if "\<not> count q < MAX_QUEUE"
    using that by (simp add: thread_pool_push_task_def)
  ultimately show ?thesis using tq_push [OF inv, of task] by (simp add: tq_accepts_def)
qed

theorem thread_pool_drops_only_when_full_witness:
  "tq_items (thread_pool_push_task (init_thread_pool static_queue) \<lparr>wt_fd = 7, wt_type = TASK_TCP_CLIENT_MSG\<rparr>) =
     [\<lparr>wt_fd = 7, wt_type = TASK_TCP_CLIENT_MSG\<rparr>]"
  using thread_pool_drops_only_when_full [of "[]" "init_thread_pool static_queue" "[]" "[]"]
    init_thread_pool_inv by (simp add: MAX_QUEUE_def)

end
