(* ===== verification/Agent.thy ===== *)
theory Agent
  imports Server_Safety Thread_Pool
begin

text \<open>
  The agent as a whole: the start (\<^verbatim>\<open>c_agent/main.c\<close>, \<^verbatim>\<open>c_agent/src/comms/server_init.c\<close>), the loop of
  \<^verbatim>\<open>main\<close> and the workers of \<^verbatim>\<open>c_agent/src/comms/thread_pool.c\<close>. A run is a sequence of events of the
  main thread and turns of workers in any order; a handler is one step (theory \<open>Concurrency\<close> cuts
  the handlers into their critical sections).
\<close>

section \<open>Start\<close>

text \<open>\<^verbatim>\<open>exit (EXIT_FAILURE)\<close> is \<open>Inl\<close> of the status. \<^verbatim>\<open>mynode\<close> is set by \<^verbatim>\<open>main\<close>.\<close>

definition EXIT_FAILURE :: int where
  "EXIT_FAILURE = 1"

definition init_server :: "kernel \<Rightarrow> string list \<Rightarrow> (int + ServerContext) sysprog" where
  "init_server k argv =
     (if length argv \<noteq> 7 then State_Monad.return (Inl EXIT_FAILURE)
      else
        do {
          let ip = argv ! 1;
          let p = atoi (argv ! 2);
          e \<leftarrow> sys k Epoll_create;
          let ep = sr_ret e;
          public \<leftarrow> create_tcp_listener k ip p;
          erlang \<leftarrow> create_tcp_listener k ''127.0.0.1'' (p + 1);
          udp \<leftarrow> create_udp_listener_broadcaster k UDP_PORT;
          t1 \<leftarrow> sys k Timerfd_create;
          t2 \<leftarrow> sys k Timerfd_create;
          t3 \<leftarrow> sys k Timerfd_create;
          _ \<leftarrow> sys k (Timerfd_settime (sr_ret t1) 2 0);
          _ \<leftarrow> sys k (Timerfd_settime (sr_ret t2) 1 5);
          _ \<leftarrow> sys k (Timerfd_settime (sr_ret t3) 5 5);
          _ \<leftarrow> add_to_epoll_interest_list k ep (sr_ret t1) [EPOLLIN];
          _ \<leftarrow> add_to_epoll_interest_list k ep (sr_ret t2) [EPOLLIN];
          _ \<leftarrow> add_to_epoll_interest_list k ep udp [EPOLLIN, EPOLLONESHOT];
          _ \<leftarrow> add_to_epoll_interest_list k ep (sr_ret t3) [EPOLLIN];
          State_Monad.return (Inr \<lparr>ctx_port = p, lan_ip = ip, epollfd = ep, tcp_public_fd = public, erlang_tcp_fd = erlang,
            udp_fd = udp, tcp_timerfd = sr_ret t1, udp_timerfd = sr_ret t2, gc_timerfd = sr_ret t3, mynode = None\<rparr>)
        })"

record agent =
  ag_server :: server
  ag_queue :: TaskQueue

text \<open>The beginning of \<^verbatim>\<open>main\<close>; \<open>mem\<close> and \<open>mem_res\<close> are the allocations of \<^verbatim>\<open>init_node\<close>.\<close>

definition main_start :: "kernel \<Rightarrow> bool \<Rightarrow> bool \<Rightarrow> string list \<Rightarrow> int + agent" where
  "main_start k mem mem_res argv =
     (case run_state (init_server k argv) [] of
        (Inl status, h) \<Rightarrow> Inl status
      | (Inr ctx, h) \<Rightarrow>
          let my_node = init_node mem mem_res (u32_of_int (atoi (argv ! 3))) (u32_of_int (atoi (argv ! 4)))
                (u32_of_int (atoi (argv ! 5)))
          in Inr \<lparr>ag_server = \<lparr>sv_ctx = ctx\<lparr>mynode := my_node\<rparr>, sv_conns = active_connections_init, sv_hist = h, sv_calls = 0\<rparr>,
                  ag_queue = init_thread_pool static_queue\<rparr>)"

section \<open>The loops\<close>

text \<open>The body of \<^verbatim>\<open>worker_thread\<close> after a task was taken.\<close>

definition worker_task :: "kernel \<Rightarrow> (nat \<Rightarrow> env) \<Rightarrow> WorkerTask \<Rightarrow> server \<Rightarrow> server result" where
  "worker_task k envs task s =
     (case wt_type task of
        TASK_TCP_CLIENT_MSG \<Rightarrow>
          do {
            (r, s1) \<leftarrow> handle_client_message k envs s (wt_fd task);
            Some (if r \<noteq> 0 then snd (syscalls (rearm_epoll_fd k (epollfd (sv_ctx s1)) (wt_fd task)) s1) else s1)
          }
      | TASK_UDP_DISCOVERY \<Rightarrow>
          do {
            s1 \<leftarrow> handle_incoming_discovery k envs s;
            Some (call (Epoll_ctl (epollfd (sv_ctx s1)) EPOLL_CTL_MOD (udp_fd (sv_ctx s1)) [EPOLLIN, EPOLLONESHOT]) s1)
          }
      | TASK_UDP_ANNOUNCE \<Rightarrow> handle_udp_timer_expiration k envs s
      | TASK_GARBAGE_COLLECTOR \<Rightarrow> handle_gc_timer_expiration k envs s)"

text \<open>One turn of a worker; with nothing in the queue it waits.\<close>

definition worker_thread :: "kernel \<Rightarrow> (nat \<Rightarrow> env) \<Rightarrow> agent \<Rightarrow> agent result" where
  "worker_thread k envs a =
     (case worker_take (ag_queue a) of
        None \<Rightarrow> Some a
      | Some (task, q) \<Rightarrow>
          do {
            s \<leftarrow> worker_task k envs task (ag_server a);
            Some (a\<lparr>ag_server := s, ag_queue := q\<rparr>)
          })"

definition push_task :: "WorkerTask \<Rightarrow> agent \<Rightarrow> agent" where
  "push_task task a = a\<lparr>ag_queue := thread_pool_push_task (ag_queue a) task\<rparr>"

text \<open>The body of the loop of \<^verbatim>\<open>main\<close> for one event \<open>(curr_fd, event_type)\<close> of \<^verbatim>\<open>epoll_wait\<close>.\<close>

definition main_event :: "kernel \<Rightarrow> (nat \<Rightarrow> env) \<Rightarrow> int \<times> epoll_flag list \<Rightarrow> agent \<Rightarrow> agent result" where
  "main_event k envs ev a =
     (let (curr_fd, event_type) = ev; s = ag_server a; ctx = sv_ctx s
      in if curr_fd = tcp_timerfd ctx then Some (a\<lparr>ag_server := handle_tcp_timer_expiration k s\<rparr>)
         else if curr_fd = udp_timerfd ctx then
           Some (push_task \<lparr>wt_fd = - 1, wt_type = TASK_UDP_ANNOUNCE\<rparr> (a\<lparr>ag_server := call (Read curr_fd) s\<rparr>))
         else if curr_fd = gc_timerfd ctx then
           Some (push_task \<lparr>wt_fd = - 1, wt_type = TASK_GARBAGE_COLLECTOR\<rparr> (a\<lparr>ag_server := call (Read curr_fd) s\<rparr>))
         else if curr_fd = udp_fd ctx then
           Some (push_task \<lparr>wt_fd = udp_fd ctx, wt_type = TASK_UDP_DISCOVERY\<rparr> a)
         else if curr_fd = tcp_public_fd ctx \<or> curr_fd = erlang_tcp_fd ctx then
           map_option (\<lambda>s'. a\<lparr>ag_server := s'\<rparr>) (handle_new_tcp_connection k s curr_fd)
         else
           let a1 = (if EPOLLIN \<in> set event_type then push_task \<lparr>wt_fd = curr_fd, wt_type = TASK_TCP_CLIENT_MSG\<rparr> a else a)
           in if EPOLLOUT \<in> set event_type
              then map_option (\<lambda>s'. a1\<lparr>ag_server := s'\<rparr>) (handle_connection_success k envs (ag_server a1) curr_fd)
              else Some a1)"

text \<open>
  The agent runs as a sequence of events of the main thread and turns of workers, in any order. The
  step fails (and a run that needs it does not exist) only on undefined behaviour or a step that
  never ends; \<open>agent_go\<close> is the step as a function, \<open>agent_reaches n\<close> the states after \<open>n\<close> steps.
\<close>

datatype agent_step = Main "int \<times> epoll_flag list" | Worker

fun agent_go :: "kernel \<Rightarrow> (nat \<Rightarrow> env) \<Rightarrow> agent_step \<Rightarrow> agent \<Rightarrow> agent result" where
  "agent_go k envs (Main ev) a = main_event k envs ev a"
| "agent_go k envs Worker a = worker_thread k envs a"

text \<open>epoll only reports descriptors that were registered, which are below \<open>MAX_FDS\<close>.\<close>

fun step_ok :: "agent_step \<Rightarrow> bool" where
  "step_ok (Main (fd, evs)) \<longleftrightarrow> 0 \<le> fd \<and> fd < int MAX_FDS"
| "step_ok Worker \<longleftrightarrow> True"

abbreviation agent_reaches :: "kernel \<Rightarrow> (nat \<Rightarrow> env) \<Rightarrow> agent \<Rightarrow> nat \<Rightarrow> agent \<Rightarrow> bool" where
  "agent_reaches k envs \<equiv> reaches (agent_go k envs) step_ok"

section \<open>The invariant of the agent\<close>

text \<open>Tasks for clients carry a descriptor of the table.\<close>

definition task_ok :: "WorkerTask \<Rightarrow> bool" where
  "task_ok t \<longleftrightarrow> (wt_type t = TASK_TCP_CLIENT_MSG \<longrightarrow> 0 \<le> wt_fd t \<and> wt_fd t < int MAX_FDS)"

definition agent_inv_for :: "(elem_owned_job_t \<Rightarrow> bool) \<Rightarrow> nat \<Rightarrow> (resource_t \<Rightarrow> u32) \<Rightarrow> agent \<Rightarrow> bool" where
  "agent_inv_for ok j tot a \<longleftrightarrow> server_inv_for ok j tot (ag_server a) \<and> tq_inv (ag_queue a) \<and>
     list_all task_ok (tq_items (ag_queue a))"

abbreviation agent_inv :: "nat \<Rightarrow> (resource_t \<Rightarrow> u32) \<Rightarrow> agent \<Rightarrow> bool" where
  "agent_inv \<equiv> agent_inv_for oj_ok"

lemma agent_inv_mono: "agent_inv_for ok j tot a \<Longrightarrow> i \<le> j \<Longrightarrow> agent_inv_for ok i tot a"
  by (auto simp: agent_inv_for_def intro: server_inv_mono)

lemma push_task_inv: "agent_inv_for ok j tot a \<Longrightarrow> task_ok t \<Longrightarrow> agent_inv_for ok j tot (push_task t a)"
  using tq_push [of "ag_queue a" t] by (simp add: agent_inv_for_def push_task_def)

lemma agent_inv_server: "agent_inv_for ok i tot a \<Longrightarrow> server_inv_for ok j tot s \<Longrightarrow> agent_inv_for ok j tot (a\<lparr>ag_server := s\<rparr>)"
  by (simp add: agent_inv_for_def)

lemma worker_task_safe:
  assumes inv: "server_inv (BUFFER_SIZE + j) tot s" and ker: "kernel_ok k \<mu>" and envs: "\<And>i. env_ok (envs i)"
    and peers: "peers_ok k" and task: "task_ok task"
  shows "\<exists>s'. worker_task k envs task s = Some s' \<and> server_inv j tot s'"
proof -
  have one: "server_inv (Suc j) tot s" "server_inv j tot s"
    by (auto intro: server_inv_mono [OF inv] simp: BUFFER_SIZE_def)
  show ?thesis
  proof (cases "wt_type task")
    case TASK_TCP_CLIENT_MSG
    then obtain s1 where "handle_client_message k envs s (wt_fd task) = Some (1, s1)" "server_inv j tot s1"
      using client_message_safe [where envs = envs, OF inv ker envs peers] task by (auto simp: task_ok_def)
    with TASK_TCP_CLIENT_MSG show ?thesis by (simp add: worker_task_def)
  next
    case TASK_UDP_DISCOVERY
    with discovery_safe [where envs = envs, OF one(1) envs, of k] show ?thesis by (auto simp: worker_task_def)
  next
    case TASK_UDP_ANNOUNCE
    with udp_timer_safe [where envs = envs, OF one(1) envs, of k] show ?thesis by (simp add: worker_task_def)
  next
    case TASK_GARBAGE_COLLECTOR
    have "server_inv j tot (call (Read (gc_timerfd (sv_ctx s))) s)" using one(2) by simp
    from gc_bucle_spec [where envs = envs, OF ker envs this] TASK_GARBAGE_COLLECTOR show ?thesis
      by (auto simp: worker_task_def handle_gc_timer_expiration_def)
  qed
qed

lemma worker_thread_safe:
  assumes inv: "agent_inv (BUFFER_SIZE + j) tot a" and ker: "kernel_ok k \<mu>" and envs: "\<And>i. env_ok (envs i)"
    and peers: "peers_ok k"
  shows "\<exists>a'. worker_thread k envs a = Some a' \<and> agent_inv j tot a'"
proof (cases "tq_items (ag_queue a)")
  case Nil
  then have "worker_take (ag_queue a) = None" by (simp add: worker_take_def tq_items_def)
  with agent_inv_mono [OF inv, of j] show ?thesis by (simp add: worker_thread_def)
next
  case (Cons task rest)
  obtain q where q: "worker_take (ag_queue a) = Some (task, q)" "tq_inv q" "tq_items q = rest"
    using tq_take [OF _ Cons] inv by (auto simp: agent_inv_for_def)
  have "task_ok task" using inv Cons by (simp add: agent_inv_for_def)
  then obtain s where "worker_task k envs task (ag_server a) = Some s" "server_inv j tot s"
    using worker_task_safe [where envs = envs, OF _ ker envs peers] inv unfolding agent_inv_for_def by blast
  with q inv Cons show ?thesis by (simp add: worker_thread_def agent_inv_for_def)
qed

lemma main_event_safe:
  assumes inv: "agent_inv (Suc j) tot a" and ker: "kernel_ok k \<mu>" and envs: "\<And>i. env_ok (envs i)"
    and fd: "0 \<le> fd" "fd < int MAX_FDS"
  shows "\<exists>a'. main_event k envs (fd, evs) a = Some a' \<and> agent_inv j tot a'"
proof -
  have low: "agent_inv j tot a" using agent_inv_mono [OF inv, of j] by simp
  with inv have srv: "server_inv (Suc j) tot (ag_server a)" "server_inv j tot (ag_server a)" by (simp_all add: agent_inv_for_def)
  let ?t = "\<lparr>wt_fd = fd, wt_type = TASK_TCP_CLIENT_MSG\<rparr>"
  let ?a1 = "if EPOLLIN \<in> set evs then push_task ?t a else a"
  have a1: "agent_inv j tot ?a1" "ag_server ?a1 = ag_server a"
    using push_task_inv [OF low, of ?t] low fd by (simp_all add: task_ok_def push_task_def)
  obtain s' where s': "handle_connection_success k envs (ag_server a) fd = Some s'" "server_inv j tot s'"
    using connection_success_safe [where envs = envs, OF srv(1) ker envs fd] by blast
  obtain s'' where s'': "handle_new_tcp_connection k (ag_server a) fd = Some s''" "server_inv j tot s''"
    using new_connection_safe [OF srv(2) ker] by blast
  have other: "task_ok \<lparr>wt_fd = n, wt_type = TASK_UDP_ANNOUNCE\<rparr>" "task_ok \<lparr>wt_fd = n, wt_type = TASK_GARBAGE_COLLECTOR\<rparr>"
    "task_ok \<lparr>wt_fd = n, wt_type = TASK_UDP_DISCOVERY\<rparr>" for n by (simp_all add: task_ok_def)
  have read: "agent_inv j tot (a\<lparr>ag_server := call (Read n) (ag_server a)\<rparr>)" for n
    by (rule agent_inv_server [OF inv]) (simp add: srv)
  let ?ctx = "sv_ctx (ag_server a)"
  note defs = main_event_def Let_def
  consider (tcp) "fd = tcp_timerfd ?ctx" | (udp) "fd \<noteq> tcp_timerfd ?ctx" "fd = udp_timerfd ?ctx"
    | (gc) "fd \<notin> {tcp_timerfd ?ctx, udp_timerfd ?ctx}" "fd = gc_timerfd ?ctx"
    | (disc) "fd \<notin> {tcp_timerfd ?ctx, udp_timerfd ?ctx, gc_timerfd ?ctx}" "fd = udp_fd ?ctx"
    | (listen) "fd \<notin> {tcp_timerfd ?ctx, udp_timerfd ?ctx, gc_timerfd ?ctx, udp_fd ?ctx}" "fd \<in> {tcp_public_fd ?ctx, erlang_tcp_fd ?ctx}"
    | (client) "fd \<notin> {tcp_timerfd ?ctx, udp_timerfd ?ctx, gc_timerfd ?ctx, udp_fd ?ctx, tcp_public_fd ?ctx, erlang_tcp_fd ?ctx}"
    by blast
  then show ?thesis
  proof cases
    case tcp
    with agent_inv_server [OF inv tcp_timer_safe [OF srv(2), of k]] show ?thesis by (simp add: defs)
  next
    case udp
    with push_task_inv [OF read other(1)] show ?thesis by (simp add: defs)
  next
    case gc
    with push_task_inv [OF read other(2)] show ?thesis by (simp add: defs)
  next
    case disc
    with push_task_inv [OF low other(3)] show ?thesis by (simp add: defs)
  next
    case listen
    then have "main_event k envs (fd, evs) a = map_option (\<lambda>s'. a\<lparr>ag_server := s'\<rparr>) (handle_new_tcp_connection k (ag_server a) fd)"
      by (auto simp: defs)
    with s''(1) agent_inv_server [OF inv s''(2)] show ?thesis by simp
  next
    case client
    then have "main_event k envs (fd, evs) a = (if EPOLLOUT \<in> set evs
        then map_option (\<lambda>s'. ?a1\<lparr>ag_server := s'\<rparr>) (handle_connection_success k envs (ag_server ?a1) fd) else Some ?a1)"
      by (simp add: defs)
    with a1 s'(1) agent_inv_server [OF a1(1) s'(2)] show ?thesis by (simp del: if_image_distrib)
  qed
qed

text \<open>The agent is a step system; a step may use up a place per byte of the buffer.\<close>

interpretation ag: step_system "\<lambda>(k, envs, tot). agent_go k envs"
  "\<lambda>(k, envs, tot). (\<exists>\<mu>. kernel_ok k \<mu>) \<and> (\<forall>i. env_ok (envs i)) \<and> peers_ok k" "\<lambda>w. step_ok"
  "\<lambda>(k, envs, tot) j a. agent_inv j tot a" BUFFER_SIZE
proof (unfold_locales, clarsimp)
  fix k \<mu> tot a j st and envs :: "nat \<Rightarrow> env"
  assume inv: "agent_inv (BUFFER_SIZE + j) tot a" and ker: "kernel_ok k \<mu>" and envs: "\<forall>i. env_ok (envs i)"
    and peers: "peers_ok k" and st: "step_ok st"
  have one: "agent_inv (Suc j) tot a" by (rule agent_inv_mono [OF inv]) (simp add: BUFFER_SIZE_def)
  show "\<exists>a'. agent_go k envs st a = Some a' \<and> agent_inv j tot a'"
  proof (cases st)
    case Worker
    with worker_thread_safe [where envs = envs, OF inv ker _ peers] envs show ?thesis by simp
  next
    case (Main ev)
    then obtain fd evs where "ev = (fd, evs)" "0 \<le> fd" "fd < int MAX_FDS" using st by (cases ev) simp
    with Main main_event_safe [where envs = envs, OF one ker] envs show ?thesis by simp
  qed
qed


section \<open>The first state\<close>

lemma init_server_run:
  "\<exists>ctx h. run_state (init_server k argv) [] = (if length argv = 7 then Inr ctx else Inl EXIT_FAILURE, h)"
  by (simp add: init_server_def Let_def run_state_bind split: prod.split)

lemma main_start_spec:
  assumes "main_start k mem mem_res argv = Inr a"
  shows "length argv = 7" "sv_conns (ag_server a) = active_connections_init" "ag_queue a = init_thread_pool static_queue"
    "mynode (sv_ctx (ag_server a)) = init_node mem mem_res (u32_of_int (atoi (argv ! 3))) (u32_of_int (atoi (argv ! 4)))
       (u32_of_int (atoi (argv ! 5)))"
proof -
  obtain ctx h where "run_state (init_server k argv) [] = (if length argv = 7 then Inr ctx else Inl EXIT_FAILURE, h)"
    using init_server_run by blast
  with assms show "length argv = 7" "sv_conns (ag_server a) = active_connections_init"
    "ag_queue a = init_thread_pool static_queue"
    "mynode (sv_ctx (ag_server a)) = init_node mem mem_res (u32_of_int (atoi (argv ! 3))) (u32_of_int (atoi (argv ! 4)))
       (u32_of_int (atoi (argv ! 5)))"
    by (auto simp: main_start_def split: if_splits)
qed

definition start_capacity :: "string list \<Rightarrow> resource_t \<Rightarrow> u32" where
  "start_capacity argv = (\<lambda>_. 0)(CPU := u32_of_int (atoi (argv ! 3)), GPU := u32_of_int (atoi (argv ! 5)),
     RAM := u32_of_int (atoi (argv ! 4)))"

lemma main_start_inv:
  assumes start: "main_start k mem mem_res argv = Inr a" and node: "mynode (sv_ctx (ag_server a)) \<noteq> None"
    and room: "10 * j \<le> 7 * 2 ^ 30"
  shows "agent_inv_for ok j (start_capacity argv) a"
proof -
  obtain node where n: "mynode (sv_ctx (ag_server a)) = Some node" using node by blast
  note S = main_start_spec [OF start]
  have "node_inv_for ok node \<and> node_room j node \<and> total (resources node) = start_capacity argv"
    using init_node_inv [OF trans [OF S(4) [symmetric] n], of ok j] room by (simp add: start_capacity_def)
  then show ?thesis using n S(2,3) init_thread_pool_inv by (simp add: agent_inv_for_def server_inv_for_def)
qed

lemma agent_inv_capacity:
  assumes "agent_inv_for ok j tot a" "r \<noteq> INVALID_RES_TYPE"
  shows "unat (avail (resources (sv_node (ag_server a))) r) + held (active_jobs (sv_node (ag_server a))) r \<le> unat (tot r)"
  using assms lr_invD(3) [OF node_invD(1), of ok _ r] by (auto simp: agent_inv_for_def server_inv_for_def sv_node_def split: option.splits)

section \<open>Properties\<close>

text \<open>
  The agent never gets stuck and never gives more than it has. From a successful start, after
  any sequence of up to 734000 events of the main loop and turns of workers, in any order, every
  further event or turn is carried out without undefined behaviour and ends; the table of connections,
  the queue of tasks and the node keep their invariants, and for each resource what is free and what
  is granted together are at most what the command line gave. The kernel must answer as documented, a
  socket must not stay full forever, allocations must succeed, and the second word of a RESERVE line
  must be shorter than 256 characters.
\<close>

theorem agent_safe:
  assumes start: "main_start k mem mem_res argv = Inr a0" "mynode (sv_ctx (ag_server a0)) \<noteq> None"
    and world: "kernel_ok k \<mu>" "\<And>i. env_ok (envs i)" "peers_ok k"
    and reach: "agent_reaches k envs a0 n a" and len: "10 * (BUFFER_SIZE * Suc n) \<le> 7 * 2 ^ 30" and st: "step_ok st"
  shows "\<exists>a'. agent_go k envs st a = Some a' \<and> agent_inv 0 (start_capacity argv) a' \<and>
    (\<forall>r \<in> {CPU, GPU, RAM}. unat (avail (resources (sv_node (ag_server a'))) r) +
       held (active_jobs (sv_node (ag_server a'))) r \<le> unat (start_capacity argv r))"
proof -
  have "agent_inv (BUFFER_SIZE * Suc n) (start_capacity argv) a0" by (rule main_start_inv [OF start len])
  with ag.reaches_not_stuck [of "(k, envs, start_capacity argv)" a0 n a st] world reach st
  obtain a' where "agent_go k envs st a = Some a'" "agent_inv 0 (start_capacity argv) a'" by auto
  with agent_inv_capacity show ?thesis by auto
qed

theorem agent_safe_witness:
  "\<exists>a0 a1 a2. main_start sample_kernel True True [''agent'', ''10.0.0.1'', ''9000'', ''8'', ''64'', ''2'', ''4''] = Inr a0 \<and>
     agent_go sample_kernel (\<lambda>_. ej_env) (Main (900, [EPOLLIN])) a0 = Some a1 \<and>
     agent_go sample_kernel (\<lambda>_. ej_env) Worker a1 = Some a2 \<and>
     agent_inv 0 (start_capacity [''agent'', ''10.0.0.1'', ''9000'', ''8'', ''64'', ''2'', ''4'']) a2"
proof -
  let ?argv = "[''agent'', ''10.0.0.1'', ''9000'', ''8'', ''64'', ''2'', ''4'']"
  let ?step = "agent_go sample_kernel (\<lambda>_. ej_env)" and ?ev = "Main (900, [EPOLLIN])"
  obtain a0 where a0: "main_start sample_kernel True True ?argv = Inr a0"
    using init_server_run [of sample_kernel ?argv] by (auto simp: main_start_def Let_def)
  have node: "mynode (sv_ctx (ag_server a0)) \<noteq> None"
    unfolding main_start_spec(4) [OF a0] by (simp add: init_node_def create_local_resource_eq)
  note safe = agent_safe [where envs = "\<lambda>_. ej_env", OF a0 node sample_kernel_ok sample_env_ok sample_peers_ok]
  have ok: "step_ok ?ev" "step_ok Worker" "10 * (BUFFER_SIZE * Suc 0) \<le> 7 * 2 ^ 30" "10 * (BUFFER_SIZE * Suc 1) \<le> 7 * 2 ^ 30"
    by (simp_all add: MAX_FDS_def BUFFER_SIZE_def)
  obtain a1 where a1: "?step ?ev a0 = Some a1" using safe [OF reaches.start ok(3,1)] by blast
  have "agent_reaches sample_kernel (\<lambda>_. ej_env) a0 1 a1" using reaches.step [where go = ?step and ok = step_ok and l = ?ev, OF reaches.start ok(1) a1] by simp
  from safe [OF this ok(4,2)] a0 a1 show ?thesis by blast
qed

end
