(* ===== verification/Programs.thy ===== *)
theory Programs
  imports Agent
begin

text \<open>
  The code of a thread as a sequence of critical sections. A thread works on its own variables, and
  now and then on what the threads share: under one of the locks of \<^verbatim>\<open>c_agent/src/resources/node_structures.c\<close>,
  \<^verbatim>\<open>event_handler.c\<close> and \<^verbatim>\<open>thread_pool.c\<close>, or without a lock. A section is atomic; between two sections
  any other thread may run.
\<close>

section \<open>Locks and programs\<close>

text \<open>
  \<^verbatim>\<open>connections_lock\<close> is held by many readers or one writer. \<open>NO_LOCK\<close> stands for a system call or an
  access to the constant part of the context, \<open>NO_LOCK_OWNED\<close> for the one access to the table of jobs
  that is made without \<^verbatim>\<open>lock_owned\<close>.
\<close>

datatype lock = LOCK_LOCAL | LOCK_OWNED | LOCK_KNOWN | CONNECTIONS_RD | CONNECTIONS_WR | LOCK_QUEUE
  | NO_LOCK | NO_LOCK_OWNED

text \<open>A section is undefined (\<open>None\<close>), or it gives the rest of the program and the new state.\<close>

datatype 'a prog = Return 'a | Sec lock "agent \<Rightarrow> ('a prog \<times> agent) option"

primrec andthen :: "'a prog \<Rightarrow> ('a \<Rightarrow> 'b prog) \<Rightarrow> 'b prog" where
  "andthen (Return x) g = g x"
| "andthen (Sec l f) g = Sec l (\<lambda>a. map_option (map_prod (\<lambda>p. andthen p g) (\<lambda>a'. a')) (f a))"

text \<open>The program without interruption.\<close>

primrec exec :: "'a prog \<Rightarrow> agent \<Rightarrow> ('a \<times> agent) option" where
  "exec (Return x) = (\<lambda>a. Some (x, a))"
| "exec (Sec l f) = (\<lambda>a. Option.bind (map_option (map_prod exec (\<lambda>a'. a')) (f a)) (\<lambda>(r, a'). r a'))"

section \<open>Sections\<close>

definition sec :: "lock \<Rightarrow> (agent \<Rightarrow> ('a \<times> agent) option) \<Rightarrow> 'a prog" where
  "sec l f = Sec l (\<lambda>a. map_option (map_prod Return (\<lambda>a'. a')) (f a))"

text \<open>Undefined behaviour of the thread.\<close>

definition stuck :: "'a prog" where
  "stuck = sec NO_LOCK (\<lambda>a. None)"

definition server_sec :: "lock \<Rightarrow> (server \<Rightarrow> ('a \<times> server) option) \<Rightarrow> 'a prog" where
  "server_sec l f = sec l (\<lambda>a. map_option (\<lambda>(x, s). (x, a\<lparr>ag_server := s\<rparr>)) (f (ag_server a)))"

text \<open>A section on the node; with no node the pointer is NULL.\<close>

definition put_node :: "node_data_t \<Rightarrow> server \<Rightarrow> server" where
  "put_node node s = s\<lparr>sv_ctx := (sv_ctx s)\<lparr>mynode := Some node\<rparr>\<rparr>"

definition node_sec :: "lock \<Rightarrow> (node_data_t \<Rightarrow> ('a \<times> node_data_t) option) \<Rightarrow> 'a prog" where
  "node_sec l f = server_sec l (\<lambda>s.
     do {
       node \<leftarrow> mynode (sv_ctx s);
       (x, node') \<leftarrow> f node;
       Some (x, put_node node' s)
     })"

definition local_sec :: "(local_resources_t \<Rightarrow> active_jobs_t \<Rightarrow> ('a \<times> local_resources_t \<times> active_jobs_t) option) \<Rightarrow> 'a prog" where
  "local_sec f = node_sec LOCK_LOCAL (\<lambda>node.
     do {
       (x, r, j) \<leftarrow> f (resources node) (active_jobs node);
       Some (x, node\<lparr>resources := r, active_jobs := j\<rparr>)
     })"

text \<open>With \<^verbatim>\<open>lock_owned\<close> or without.\<close>

definition owned_sec :: "lock \<Rightarrow> (owned_jobs_t \<Rightarrow> ('a \<times> owned_jobs_t) option) \<Rightarrow> 'a prog" where
  "owned_sec l f = node_sec l (\<lambda>node.
     do {
       (x, jobs) \<leftarrow> f (owned_jobs node);
       Some (x, node\<lparr>owned_jobs := jobs\<rparr>)
     })"

definition known_sec :: "(known_nodes_t \<Rightarrow> ('a \<times> known_nodes_t) option) \<Rightarrow> 'a prog" where
  "known_sec f = node_sec LOCK_KNOWN (\<lambda>node.
     do {
       (x, known) \<leftarrow> f (known_nodes node);
       Some (x, node\<lparr>known_nodes := known\<rparr>)
     })"

definition conns_rd :: "(connections \<Rightarrow> 'a option) \<Rightarrow> 'a prog" where
  "conns_rd f = server_sec CONNECTIONS_RD (\<lambda>s. map_option (\<lambda>x. (x, s)) (f (sv_conns s)))"

definition conns_wr :: "(connections \<Rightarrow> connections) \<Rightarrow> unit prog" where
  "conns_wr f = server_sec CONNECTIONS_WR (\<lambda>s. Some ((), s\<lparr>sv_conns := f (sv_conns s)\<rparr>))"

definition queue_sec :: "(TaskQueue \<Rightarrow> TaskQueue) \<Rightarrow> unit prog" where
  "queue_sec f = sec LOCK_QUEUE (\<lambda>a. Some ((), a\<lparr>ag_queue := f (ag_queue a)\<rparr>))"

text \<open>
  System calls, a call whose answer is not read, and \<^verbatim>\<open>send_tcp_message\<close>. They use the fields of the
  context, but not what the pointer to the node leads to.
\<close>

definition fixed_ctx :: "server \<Rightarrow> ServerContext" where
  "fixed_ctx s = (sv_ctx s)\<lparr>mynode := None\<rparr>"

definition sys_sec :: "(ServerContext \<Rightarrow> 'a sysprog) \<Rightarrow> 'a prog" where
  "sys_sec m = server_sec NO_LOCK (\<lambda>s. Some (syscalls (m (fixed_ctx s)) s))"

definition call_sec :: "(ServerContext \<Rightarrow> syscall) \<Rightarrow> unit prog" where
  "call_sec c = server_sec NO_LOCK (\<lambda>s. Some ((), call (c (fixed_ctx s)) s))"

definition send_sec :: "kernel \<Rightarrow> int \<Rightarrow> string \<Rightarrow> unit prog" where
  "send_sec k fd msg = server_sec NO_LOCK (\<lambda>s.
     do {
       (sent, h) \<leftarrow> send_tcp_message k fd msg (sv_hist s);
       Some ((), s\<lparr>sv_hist := h\<rparr>)
     })"

section \<open>Laws of programs\<close>

lemma fixed_ctx_simps [simp]:
  "ctx_port (fixed_ctx s) = ctx_port (sv_ctx s)" "epollfd (fixed_ctx s) = epollfd (sv_ctx s)"
  "tcp_public_fd (fixed_ctx s) = tcp_public_fd (sv_ctx s)" "erlang_tcp_fd (fixed_ctx s) = erlang_tcp_fd (sv_ctx s)"
  "udp_fd (fixed_ctx s) = udp_fd (sv_ctx s)" "tcp_timerfd (fixed_ctx s) = tcp_timerfd (sv_ctx s)"
  "udp_timerfd (fixed_ctx s) = udp_timerfd (sv_ctx s)" "gc_timerfd (fixed_ctx s) = gc_timerfd (sv_ctx s)"
  by (simp_all add: fixed_ctx_def)

lemma prog_induct [case_names Return Sec]:
  assumes "\<And>x. P (Return x)" and "\<And>l f. (\<And>a p a'. f a = Some (p, a') \<Longrightarrow> P p) \<Longrightarrow> P (Sec l f)"
  shows "P p"
proof (induction p)
  case (Sec l f)
  show ?case by (rule assms(2)) (metis Sec.IH fsts.intros fst_conv option.set_intros rangeI)
qed (rule assms(1))

lemma exec_Sec: "exec (Sec l f) a = (case f a of None \<Rightarrow> None | Some (p, a') \<Rightarrow> exec p a')"
  by (simp split: option.split prod.split)

lemma exec_andthen [simp]: "exec (andthen p g) a = Option.bind (exec p a) (\<lambda>(x, a'). exec (g x) a')"
proof (induction p arbitrary: a rule: prog_induct)
  case (Sec l f)
  then show ?case by (auto simp: exec_Sec simp del: exec.simps(2) split: option.split prod.split)
qed simp

lemma exec_sec [simp]: "exec (sec l f) = f"
  by (rule ext) (simp add: sec_def exec_Sec del: exec.simps(2) split: option.split prod.split)

declare exec.simps(2) [simp del]

end
