(* ===== verification/Sections.thy ===== *)
theory Sections
  imports Programs
begin

text \<open>
  The handlers of \<^verbatim>\<open>c_agent/src/comms/resource_adapter.c\<close> and \<^verbatim>\<open>event_handler.c\<close>, the worker and the loop
  of \<^verbatim>\<open>main\<close>, cut into their critical sections. Each program takes the same locks in the same order as
  the C function of that name; what a section does is what the definitions of the other theories do,
  and \<open>exec_adapter\<close>, \<open>exec_client_message\<close>, \<open>exec_main\<close> and the like show that a program without
  interruption is the handler.
\<close>

section \<open>The protocol\<close>

definition get_nodes_prog :: "u32 \<Rightarrow> outbox_t \<Rightarrow> outbox_t prog" where
  "get_nodes_prog socket outbox =
     andthen (known_sec (\<lambda>known. Some (get_known_nodes_payload known [] BUFFER_SIZE, known)))
       (\<lambda>msg. Return (add_to_outbox outbox (snprintf (BUFFER_SIZE + 1) msg) (int_of_u32 socket) None 0))"

text \<open>The first RESERVE is taken from the job after \<^verbatim>\<open>lock_owned\<close> was given back.\<close>

definition job_request_prog :: "env \<Rightarrow> u32 \<Rightarrow> string \<Rightarrow> outbox_t \<Rightarrow> outbox_t prog" where
  "job_request_prog env socket buffer outbox =
     (case sscanf (lits ''JOB_REQUEST'' @ [Ws, Fu]) buffer of
        [VU job_id] \<Rightarrow>
          if \<not> env_mem env 0 then Return outbox
          else
            andthen (owned_sec LOCK_OWNED (\<lambda>jobs.
              do {
                (_, jobs1) \<leftarrow> add_new_owned_job (env_mem env 1) (env_now env) jobs job_id socket;
                jobs2 \<leftarrow> peticiones_bucle (\<lambda>i. env_mem env (2 + i)) 0 job_id (drop 2 (strtok CHR '' '' buffer)) jobs1;
                Some ((), jobs2)
              }))
            (\<lambda>_. owned_sec NO_LOCK_OWNED (\<lambda>jobs.
              do {
                (jobs', outbox') \<leftarrow> send_next_reserve jobs job_id outbox;
                Some (outbox', jobs')
              }))
      | _ \<Rightarrow> Return outbox)"

definition job_release_prog :: "string \<Rightarrow> outbox_t \<Rightarrow> outbox_t prog" where
  "job_release_prog buffer outbox =
     (case sscanf (lits ''JOB_RELEASE'' @ [Ws, Fu]) buffer of
        [VU job_id] \<Rightarrow>
          owned_sec LOCK_OWNED (\<lambda>jobs.
            do {
              ps \<leftarrow> get_granted_resources jobs job_id MAX_JOB_RESOURCES;
              jobs' \<leftarrow> remove_owned_job jobs job_id;
              Some (send_releases job_id ps outbox, jobs')
            })
      | _ \<Rightarrow> Return outbox)"

text \<open>A word that overruns its array is undefined before the lock is taken.\<close>

definition reserve_prog :: "env \<Rightarrow> u32 \<Rightarrow> string \<Rightarrow> outbox_t \<Rightarrow> outbox_t prog" where
  "reserve_prog env socket buffer outbox =
     (case sscanf (lits ''RESERVE'' @ [Ws, Fu, Ws, Fs None, Ws, Fu]) buffer of
        VU job_id # VS res # rest \<Rightarrow>
          if 256 \<le> length res then stuck
          else
            (case rest of
               [VU cant] \<Rightarrow>
                 let valid_length = (length res = 3); type = reserve_type res
                 in local_sec (\<lambda>r j.
                      do {
                        (result, r', j') \<leftarrow>
                          (if type \<noteq> INVALID_RES_TYPE \<and> valid_length
                           then new_job_request (env_mem env 0) r j job_id socket cant type
                           else Some (- 1, r, j));
                        Some (if result = 1 then add_to_outbox outbox (job_msg ''GRANTED'' job_id) (int_of_u32 socket) None 0
                          else if result = - 1
                          then add_to_outbox outbox (job_msg ''DENIED'' job_id) (int_of_u32 socket) None 0
                          else outbox, r', j')
                      })
             | _ \<Rightarrow> Return outbox)
      | _ \<Rightarrow> Return outbox)"

definition granted_prog :: "string option \<Rightarrow> u32 \<Rightarrow> string \<Rightarrow> outbox_t \<Rightarrow> outbox_t prog" where
  "granted_prog sender_ip sender_port buffer outbox =
     (case sscanf (lits ''GRANTED'' @ [Ws, Fu]) buffer of
        [VU job_id] \<Rightarrow>
          if sender_port = 0 then Return outbox
          else
            owned_sec LOCK_OWNED (\<lambda>jobs.
              do {
                (grant_result, jobs1) \<leftarrow> mark_petition_as_granted jobs job_id sender_ip sender_port;
                (if grant_result = 1 then
                   do {
                     owner_socket \<leftarrow> get_job_owner_socket jobs1 job_id;
                     Some (add_to_outbox outbox (job_msg ''JOB_GRANTED'' job_id) (int_of_u32 owner_socket) None 0, jobs1)
                   }
                 else if grant_result = 0 then
                   do {
                     (jobs2, outbox') \<leftarrow> send_next_reserve jobs1 job_id outbox;
                     Some (outbox', jobs2)
                   }
                 else Some (outbox, jobs1))
              })
      | _ \<Rightarrow> Return outbox)"

definition denied_prog :: "string \<Rightarrow> outbox_t \<Rightarrow> outbox_t prog" where
  "denied_prog buffer outbox =
     (case sscanf (lits ''DENIED'' @ [Ws, Fu]) buffer of
        [VU job_id] \<Rightarrow>
          owned_sec LOCK_OWNED (\<lambda>jobs.
            do {
              (jobs', outbox') \<leftarrow> abort_job ''JOB_DENIED'' job_id jobs outbox;
              Some (outbox', jobs')
            })
      | _ \<Rightarrow> Return outbox)"

definition release_prog :: "env \<Rightarrow> u32 \<Rightarrow> string \<Rightarrow> outbox_t \<Rightarrow> outbox_t prog" where
  "release_prog env socket buffer outbox =
     (case sscanf (lits ''RELEASE'' @ [Ws, Fu, Ws, Fs (Some 9), Ws, Fu]) buffer of
        [VU job_id, VS res, VU cant] \<Rightarrow>
          local_sec (\<lambda>r j.
            do {
              (r1, j1) \<leftarrow> del_active_job (\<lambda>t. env_mem env (res_index t)) r j job_id socket;
              (r2, j2, outbox') \<leftarrow> release_bucle env 0 r1 j1 [] 0 outbox;
              Some (outbox', r2, j2)
            })
      | _ \<Rightarrow> Return outbox)"

definition find_fd_prog :: "string option \<Rightarrow> u32 \<Rightarrow> int prog" where
  "find_fd_prog ip port = conns_rd (\<lambda>conns. find_fd_by_ip_port conns ip port)"

text \<open>A descriptor out of range is answered without the lock.\<close>

definition connection_port_prog :: "int \<Rightarrow> u32 prog" where
  "connection_port_prog fd =
     (if fd < 0 \<or> int MAX_FDS \<le> fd then Return 0 else conns_rd (\<lambda>conns. Some (get_connection_port conns fd)))"

text \<open>What a dead node's connection held is freed, and the descriptor closed, under \<^verbatim>\<open>lock_local\<close>.\<close>

definition zombie_sec :: "bool \<Rightarrow> int \<Rightarrow> unit prog" where
  "zombie_sec mem zombie_fd = server_sec LOCK_LOCAL (\<lambda>s.
     do {
       node \<leftarrow> mynode (sv_ctx s);
       (r, j) \<leftarrow> free_all_resources_from_socket mem (resources node) (active_jobs node) (u32_of_int zombie_fd);
       Some ((), call (Close zombie_fd) (put_node (node\<lparr>resources := r, active_jobs := j\<rparr>) s))
     })"

fun dead_nodes_prog :: "env \<Rightarrow> nat \<Rightarrow> (string option \<times> u32) list \<Rightarrow> outbox_t \<Rightarrow> outbox_t prog" where
  "dead_nodes_prog env i [] outbox = Return outbox"
| "dead_nodes_prog env i ((ip, port) # dead) outbox =
     andthen (find_fd_prog ip port) (\<lambda>zombie_fd.
     andthen (if zombie_fd \<noteq> - 1 then zombie_sec (env_mem env (11 + i)) zombie_fd else Return ()) (\<lambda>_.
     andthen (owned_sec LOCK_OWNED (\<lambda>jobs.
       do {
         affected \<leftarrow> get_jobs_affected_by_dead_node jobs ip port 20;
         (jobs', outbox') \<leftarrow> abort_bucle ''JOB_DENIED'' affected jobs outbox;
         Some (outbox', jobs')
       }))
     (\<lambda>outbox'. dead_nodes_prog env (Suc i) dead outbox')))"

definition check_deadnodes_prog :: "env \<Rightarrow> outbox_t \<Rightarrow> outbox_t prog" where
  "check_deadnodes_prog env outbox =
     andthen (known_sec (\<lambda>known. remove_inactive_nodes (env_mem env 0) (\<lambda>i. env_mem env (1 + i)) (env_now env) known 10))
       (\<lambda>dead.
     andthen (dead_nodes_prog env 0 dead outbox) (\<lambda>outbox1.
     owned_sec LOCK_OWNED (\<lambda>jobs.
       do {
         (jobs', outbox2) \<leftarrow> timeout_bucle (collect_timed_out_jobs (env_now env) jobs 20) jobs outbox1;
         Some (outbox2, jobs')
       })))"

definition node_announced_prog :: "env \<Rightarrow> string option \<Rightarrow> string \<Rightarrow> unit prog" where
  "node_announced_prog env sender_ip buffer =
     (if \<not> env_mem env 0 then Return ()
      else
        (case strtok CHR '' '' buffer of
           token # port_token # tokens \<Rightarrow>
             if token = ''ANNOUNCE'' then
               let port = u32_of_int (atoi port_token);
                   (cpu, ram, gpu) = announce_bucle tokens (0, 0, 0)
               in if 0 < port then
                    known_sec (\<lambda>known.
                      do {
                        ip \<leftarrow> sender_ip;
                        known' \<leftarrow> update_known_node (env_mem env 1) (env_now env) known ip port cpu ram gpu;
                        Some ((), known')
                      })
                  else Return ()
             else Return ()
         | _ \<Rightarrow> Return ()))"

definition get_resources_prog :: "int \<Rightarrow> outbox_t \<Rightarrow> outbox_t prog" where
  "get_resources_prog port outbox =
     andthen (local_sec (\<lambda>r j. Some (get_local_resources r, r, j)))
       (\<lambda>(cpu, gpu, ram). Return (add_to_outbox outbox (announce_msg port cpu ram gpu) (- 1) None 0))"

definition disconnected_prog :: "env \<Rightarrow> string option \<Rightarrow> u32 \<Rightarrow> outbox_t \<Rightarrow> outbox_t prog" where
  "disconnected_prog env sender_ip socket outbox =
     andthen (local_sec (\<lambda>r j.
       do {
         (r', j') \<leftarrow> free_all_resources_from_socket (env_mem env 0) r j socket;
         Some ((), r', j')
       })) (\<lambda>_.
     andthen (owned_sec LOCK_OWNED (\<lambda>jobs.
       do {
         (jobs', outbox') \<leftarrow> orphans_bucle (get_jobs_by_owner_socket jobs socket 50) jobs outbox;
         Some (outbox', jobs')
       })) (\<lambda>outbox1.
     andthen (connection_port_prog (int_of_u32 socket)) (\<lambda>port.
     case sender_ip of
       Some ip \<Rightarrow>
         if 0 < port then
           owned_sec LOCK_OWNED (\<lambda>jobs.
             do {
               affected \<leftarrow> get_jobs_affected_by_dead_node jobs (Some ip) port 20;
               (jobs', outbox') \<leftarrow> affected_bucle ip port affected jobs outbox1;
               Some (outbox', jobs')
             })
         else Return outbox1
     | None \<Rightarrow> Return outbox1)))"

definition respond_prog :: "env \<Rightarrow> string option \<Rightarrow> u32 \<Rightarrow> string \<Rightarrow> outbox_t \<Rightarrow> outbox_t prog" where
  "respond_prog env sender_ip socket buffer outbox =
     (if strncmp_eq 9 buffer ''GET_NODES'' then get_nodes_prog socket outbox
      else if strncmp_eq 11 buffer ''JOB_REQUEST'' then job_request_prog env socket buffer outbox
      else if strncmp_eq 7 buffer ''RESERVE'' then reserve_prog env socket buffer outbox
      else if strncmp_eq 7 buffer ''GRANTED'' then
        andthen (connection_port_prog (int_of_u32 socket)) (\<lambda>port. granted_prog sender_ip port buffer outbox)
      else if strncmp_eq 6 buffer ''DENIED'' then denied_prog buffer outbox
      else if strncmp_eq 7 buffer ''RELEASE'' then release_prog env socket buffer outbox
      else if strncmp_eq 11 buffer ''JOB_RELEASE'' then job_release_prog buffer outbox
      else Return outbox)"

text \<open>
  The dispatcher. The first step stands for what an event reads of the world (its environment, the
  port in the context, whether there is a node) and counts the event.
\<close>

definition enter_sec :: "(nat \<Rightarrow> env) \<Rightarrow> (env \<times> int \<times> bool) prog" where
  "enter_sec envs = server_sec NO_LOCK (\<lambda>s. Some ((envs (sv_calls s), ctx_port (sv_ctx s), mynode (sv_ctx s) \<noteq> None),
     s\<lparr>sv_calls := Suc (sv_calls s)\<rparr>))"

definition adapter_prog :: "(nat \<Rightarrow> env) \<Rightarrow> string option \<Rightarrow> u32 \<Rightarrow> string option \<Rightarrow> JuaniAction \<Rightarrow> outbox_t prog" where
  "adapter_prog envs SENDER_IP SOCKET BUFFER action =
     andthen (enter_sec envs) (\<lambda>(env, port, has_node).
     if \<not> has_node then Return []
     else
       (case action of
          ACTION_GET_RESOURCES \<Rightarrow> get_resources_prog port []
        | ACTION_NEW_NODE_DISCOVERED \<Rightarrow>
            (case BUFFER of
               None \<Rightarrow> Return []
             | Some buffer \<Rightarrow> andthen (node_announced_prog env SENDER_IP buffer) (\<lambda>_. Return []))
        | ACTION_CHECK_DEADNODES \<Rightarrow> check_deadnodes_prog env []
        | ACTION_DISCONNECTED \<Rightarrow> disconnected_prog env SENDER_IP SOCKET []
        | ACTION_RESPOND \<Rightarrow>
            (case BUFFER of
               None \<Rightarrow> Return []
             | Some buffer \<Rightarrow> respond_prog env SENDER_IP SOCKET buffer [])
        | ACTION_NONE \<Rightarrow> Return []))"

section \<open>Events\<close>

definition send_one_prog :: "kernel \<Rightarrow> out_msg_t \<Rightarrow> unit prog" where
  "send_one_prog k m =
     andthen (if target_fd m = - 1 then find_fd_prog (Some (target_ip m)) (u32_of_int (target_port m))
       else Return (target_fd m)) (\<lambda>target.
     if target \<noteq> - 1 then send_sec k target (message m)
     else
       andthen (sys_sec (\<lambda>ctx. connect_to_tcp_node k (target_ip m) (target_port m))) (\<lambda>new_fd.
       if new_fd = - 1 then Return ()
       else if int MAX_FDS \<le> new_fd then call_sec (\<lambda>ctx. Close new_fd)
       else if new_fd < 0 then stuck
       else
         andthen (conns_wr (open_connection new_fd (strncpy 16 (target_ip m)) (u32_of_int (target_port m))
           (strncpy (BUFFER_SIZE - 1) (message m)))) (\<lambda>_.
         andthen (sys_sec (\<lambda>ctx. add_to_epoll_interest_list k (epollfd ctx) new_fd [EPOLLIN, EPOLLOUT])) (\<lambda>_. Return ()))))"

fun send_outbox_prog :: "kernel \<Rightarrow> outbox_t \<Rightarrow> unit prog" where
  "send_outbox_prog k [] = Return ()"
| "send_outbox_prog k (m # outbox) = andthen (send_one_prog k m) (\<lambda>_. send_outbox_prog k outbox)"

definition tcp_timer_prog :: "kernel \<Rightarrow> unit prog" where
  "tcp_timer_prog k =
     andthen (call_sec (\<lambda>ctx. Read (tcp_timerfd ctx))) (\<lambda>_.
     andthen (sys_sec (\<lambda>ctx. remove_from_epoll_interest_list k (epollfd ctx) (tcp_timerfd ctx))) (\<lambda>_.
     andthen (call_sec (\<lambda>ctx. Close (tcp_timerfd ctx))) (\<lambda>_.
     andthen (server_sec NO_LOCK (\<lambda>s. Some ((), s\<lparr>sv_ctx := (sv_ctx s)\<lparr>tcp_timerfd := - 1\<rparr>\<rparr>))) (\<lambda>_.
     andthen (sys_sec (\<lambda>ctx. add_to_epoll_interest_list k (epollfd ctx) (tcp_public_fd ctx) [EPOLLIN])) (\<lambda>_.
     andthen (sys_sec (\<lambda>ctx. add_to_epoll_interest_list k (epollfd ctx) (erlang_tcp_fd ctx) [EPOLLIN])) (\<lambda>_. Return ()))))))"

definition udp_timer_prog :: "kernel \<Rightarrow> (nat \<Rightarrow> env) \<Rightarrow> unit prog" where
  "udp_timer_prog k envs =
     andthen (adapter_prog envs None 0 None ACTION_GET_RESOURCES) (\<lambda>outbox.
     case outbox of
       [] \<Rightarrow> Return ()
     | m # _ \<Rightarrow> andthen (sys_sec (\<lambda>ctx. broadcast_announce k (udp_fd ctx) UDP_PORT (message m))) (\<lambda>_. Return ()))"

definition discovery_prog :: "kernel \<Rightarrow> (nat \<Rightarrow> env) \<Rightarrow> unit prog" where
  "discovery_prog k envs =
     andthen (sys_sec (\<lambda>ctx. process_discovery_datagram k (udp_fd ctx) BUFFER_SIZE)) (\<lambda>r.
     case r of
       None \<Rightarrow> Return ()
     | Some (buffer, sender_ip) \<Rightarrow>
         andthen (adapter_prog envs (Some sender_ip) 0 (Some buffer) ACTION_NEW_NODE_DISCOVERED) (\<lambda>_. Return ()))"

definition new_connection_prog :: "kernel \<Rightarrow> int \<Rightarrow> unit prog" where
  "new_connection_prog k server_fd =
     andthen (sys_sec (\<lambda>ctx. accept_tcp_connection k server_fd)) (\<lambda>(client_fd, client_ip).
     if client_fd \<noteq> - 1 \<and> client_fd < int MAX_FDS then
       if client_fd < 0 then stuck
       else
         andthen (conns_wr (open_connection client_fd (strncpy 16 client_ip) 0 [])) (\<lambda>_.
         andthen (sys_sec (\<lambda>ctx. add_to_epoll_interest_list k (epollfd ctx) client_fd [EPOLLIN, EPOLLONESHOT])) (\<lambda>_. Return ()))
     else Return ())"

definition copy_ip_prog :: "int \<Rightarrow> string prog" where
  "copy_ip_prog curr_fd =
     (if curr_fd < 0 \<or> int MAX_FDS \<le> curr_fd then stuck
      else conns_rd (\<lambda>conns. Some (strncpy 16 (cn_ip (conns ! nat curr_fd)))))"

definition answer_line_prog :: "kernel \<Rightarrow> (nat \<Rightarrow> env) \<Rightarrow> string \<Rightarrow> int \<Rightarrow> string \<Rightarrow> unit prog" where
  "answer_line_prog k envs ip curr_fd line =
     (if 0 < length line then
        andthen (adapter_prog envs (Some ip) (u32_of_int curr_fd) (Some line) ACTION_RESPOND) (\<lambda>outbox.
        if 0 < length outbox then send_outbox_prog k outbox else Return ())
      else Return ())"

fun lines_prog :: "kernel \<Rightarrow> (nat \<Rightarrow> env) \<Rightarrow> string \<Rightarrow> int \<Rightarrow> string list \<Rightarrow> unit prog" where
  "lines_prog k envs ip curr_fd [] = Return ()"
| "lines_prog k envs ip curr_fd (line # lines) =
     andthen (answer_line_prog k envs ip curr_fd line) (\<lambda>_. lines_prog k envs ip curr_fd lines)"

definition client_message_prog :: "kernel \<Rightarrow> (nat \<Rightarrow> env) \<Rightarrow> int \<Rightarrow> int prog" where
  "client_message_prog k envs curr_fd =
     andthen (copy_ip_prog curr_fd) (\<lambda>ip.
     andthen (sys_sec (\<lambda>ctx. receive_tcp_message k curr_fd BUFFER_SIZE)) (\<lambda>(bytes_read, recv_buffer).
     if 0 < bytes_read then
       andthen (lines_prog k envs ip curr_fd (strtok CHR ''\<newline>'' recv_buffer)) (\<lambda>_. Return 1)
     else if bytes_read = 0 \<or> bytes_read \<noteq> - 2 then
       andthen (adapter_prog envs (Some ip) (u32_of_int curr_fd) None ACTION_DISCONNECTED) (\<lambda>outbox.
       andthen (send_outbox_prog k outbox) (\<lambda>_.
       andthen (sys_sec (\<lambda>ctx. remove_from_epoll_interest_list k (epollfd ctx) curr_fd)) (\<lambda>_.
       andthen (call_sec (\<lambda>ctx. Close curr_fd)) (\<lambda>_.
       andthen (conns_wr (reset_connection curr_fd)) (\<lambda>_. Return 1)))))
     else Return 1))"

text \<open>The pending message is sent with \<^verbatim>\<open>connections_lock\<close> held for writing.\<close>

definition pending_sec :: "kernel \<Rightarrow> int \<Rightarrow> unit prog" where
  "pending_sec k curr_fd = server_sec CONNECTIONS_WR (\<lambda>s.
     do {
       (sent, h) \<leftarrow> send_tcp_message k curr_fd (pending_message (sv_conns s ! nat curr_fd)) (sv_hist s);
       Some ((), s\<lparr>sv_hist := h,
         sv_conns := (sv_conns s)[nat curr_fd := (sv_conns s ! nat curr_fd)\<lparr>pending_message := []\<rparr>]\<rparr>)
     })"

definition connection_success_prog :: "kernel \<Rightarrow> (nat \<Rightarrow> env) \<Rightarrow> int \<Rightarrow> unit prog" where
  "connection_success_prog k envs curr_fd =
     andthen (copy_ip_prog curr_fd) (\<lambda>ip.
     andthen (sys_sec (\<lambda>ctx. sys k (Getsockopt_error curr_fd))) (\<lambda>r.
     if sr_ret r < 0 \<or> sr_addr r \<noteq> 0 then
       andthen (adapter_prog envs (Some ip) (u32_of_int curr_fd) (Some ''CONNECT_FAILED'') ACTION_DISCONNECTED) (\<lambda>outbox.
       andthen (send_outbox_prog k outbox) (\<lambda>_.
       andthen (conns_wr (reset_connection curr_fd)) (\<lambda>_.
       andthen (sys_sec (\<lambda>ctx. remove_from_epoll_interest_list k (epollfd ctx) curr_fd)) (\<lambda>_.
       call_sec (\<lambda>ctx. Close curr_fd)))))
     else
       andthen (pending_sec k curr_fd) (\<lambda>_.
       call_sec (\<lambda>ctx. Epoll_ctl (epollfd ctx) EPOLL_CTL_MOD curr_fd [EPOLLIN, EPOLLONESHOT]))))"

section \<open>Threads\<close>

text \<open>
  The program of one turn of a thread returns whether the thread has to go on with another pass of
  the garbage collector, whose loop may be repeated any number of times.
\<close>

definition gc_pass_prog :: "kernel \<Rightarrow> (nat \<Rightarrow> env) \<Rightarrow> bool prog" where
  "gc_pass_prog k envs =
     andthen (adapter_prog envs None (- 1) None ACTION_CHECK_DEADNODES) (\<lambda>outbox.
     andthen (send_outbox_prog k outbox) (\<lambda>_. Return (0 < length outbox)))"

definition task_prog :: "kernel \<Rightarrow> (nat \<Rightarrow> env) \<Rightarrow> WorkerTask \<Rightarrow> bool prog" where
  "task_prog k envs task =
     (case wt_type task of
        TASK_TCP_CLIENT_MSG \<Rightarrow>
          andthen (client_message_prog k envs (wt_fd task)) (\<lambda>r.
          if r \<noteq> 0 then andthen (sys_sec (\<lambda>ctx. rearm_epoll_fd k (epollfd ctx) (wt_fd task))) (\<lambda>_. Return False)
          else Return False)
      | TASK_UDP_DISCOVERY \<Rightarrow>
          andthen (discovery_prog k envs) (\<lambda>_.
          andthen (call_sec (\<lambda>ctx. Epoll_ctl (epollfd ctx) EPOLL_CTL_MOD (udp_fd ctx) [EPOLLIN, EPOLLONESHOT]))
            (\<lambda>_. Return False))
      | TASK_UDP_ANNOUNCE \<Rightarrow> andthen (udp_timer_prog k envs) (\<lambda>_. Return False)
      | TASK_GARBAGE_COLLECTOR \<Rightarrow> andthen (call_sec (\<lambda>ctx. Read (gc_timerfd ctx))) (\<lambda>_. gc_pass_prog k envs))"

text \<open>A worker looks into the queue; with no task it waits and looks again.\<close>

definition worker_prog :: "kernel \<Rightarrow> (nat \<Rightarrow> env) \<Rightarrow> bool prog" where
  "worker_prog k envs = Sec LOCK_QUEUE (\<lambda>a. Some
     (case worker_take (ag_queue a) of
        None \<Rightarrow> (Return False, a)
      | Some (task, q) \<Rightarrow> (task_prog k envs task, a\<lparr>ag_queue := q\<rparr>)))"

definition push_prog :: "int \<Rightarrow> TaskType \<Rightarrow> unit prog" where
  "push_prog fd ty = queue_sec (\<lambda>q. thread_pool_push_task q \<lparr>wt_fd = fd, wt_type = ty\<rparr>)"

text \<open>
  The body of the loop of \<^verbatim>\<open>main\<close>. The first step reads the context, of which only this thread changes
  a field (\<^verbatim>\<open>tcp_timerfd\<close>).
\<close>

definition main_prog :: "kernel \<Rightarrow> (nat \<Rightarrow> env) \<Rightarrow> int \<times> epoll_flag list \<Rightarrow> bool prog" where
  "main_prog k envs ev =
     (let (curr_fd, event_type) = ev in
      andthen (server_sec NO_LOCK (\<lambda>s. Some (fixed_ctx s, s))) (\<lambda>ctx.
      andthen
       (if curr_fd = tcp_timerfd ctx then tcp_timer_prog k
        else if curr_fd = udp_timerfd ctx then
          andthen (call_sec (\<lambda>ctx. Read curr_fd)) (\<lambda>_. push_prog (- 1) TASK_UDP_ANNOUNCE)
        else if curr_fd = gc_timerfd ctx then
          andthen (call_sec (\<lambda>ctx. Read curr_fd)) (\<lambda>_. push_prog (- 1) TASK_GARBAGE_COLLECTOR)
        else if curr_fd = udp_fd ctx then push_prog (udp_fd ctx) TASK_UDP_DISCOVERY
        else if curr_fd = tcp_public_fd ctx \<or> curr_fd = erlang_tcp_fd ctx then new_connection_prog k curr_fd
        else
          andthen (if EPOLLIN \<in> set event_type then push_prog curr_fd TASK_TCP_CLIENT_MSG else Return ()) (\<lambda>_.
          if EPOLLOUT \<in> set event_type then connection_success_prog k envs curr_fd else Return ()))
       (\<lambda>_. Return False)))"

section \<open>Without interruption\<close>

text \<open>The agent with the given node, after descriptors were closed.\<close>

definition with_node :: "node_data_t \<Rightarrow> int list \<Rightarrow> agent \<Rightarrow> agent" where
  "with_node node closed a = a\<lparr>ag_server := (put_node node (ag_server a))\<lparr>sv_hist := sv_hist (ag_server a) @ map Close closed\<rparr>\<rparr>"

lemma with_node_simps [simp]:
  "mynode (sv_ctx (ag_server (with_node node closed a))) = Some node"
  "sv_conns (ag_server (with_node node closed a)) = sv_conns (ag_server a)"
  "(with_node node closed a)\<lparr>ag_server := put_node node' (ag_server (with_node node closed a))\<rparr> = with_node node' closed a"
  "(with_node node closed a)\<lparr>ag_server := call (Close fd) (put_node node' (ag_server (with_node node closed a)))\<rparr> =
     with_node node' (closed @ [fd]) a"
  by (simp_all add: with_node_def put_node_def call_def)

lemma with_node_same: "mynode (sv_ctx (ag_server a)) = Some node \<Longrightarrow> with_node node [] a = a"
  by (simp add: with_node_def put_node_def)

lemma exec_server_sec [simp]:
  "exec (server_sec l f) a = map_option (\<lambda>(x, s). (x, a\<lparr>ag_server := s\<rparr>)) (f (ag_server a))"
  by (simp add: server_sec_def)

lemma exec_stuck [simp]: "exec stuck a = None"
  by (simp add: stuck_def)

text \<open>The sections on the node.\<close>

lemma exec_local_sec [simp]: "exec (local_sec f) (with_node node closed a) =
    map_option (\<lambda>(x, r, j). (x, with_node (node\<lparr>resources := r, active_jobs := j\<rparr>) closed a)) (f (resources node) (active_jobs node))"
  by (auto simp: local_sec_def node_sec_def split: Option.bind_splits)

lemma exec_owned_sec [simp]: "exec (owned_sec l f) (with_node node closed a) =
    map_option (\<lambda>(x, jobs). (x, with_node (node\<lparr>owned_jobs := jobs\<rparr>) closed a)) (f (owned_jobs node))"
  by (auto simp: owned_sec_def node_sec_def split: Option.bind_splits)

lemma exec_known_sec [simp]: "exec (known_sec f) (with_node node closed a) =
    map_option (\<lambda>(x, known). (x, with_node (node\<lparr>known_nodes := known\<rparr>) closed a)) (f (known_nodes node))"
  by (auto simp: known_sec_def node_sec_def split: Option.bind_splits)

lemma exec_conns_rd [simp]: "exec (conns_rd f) a = map_option (\<lambda>x. (x, a)) (f (sv_conns (ag_server a)))"
  by (simp add: conns_rd_def option.map_comp comp_def)

lemma exec_find_fd [simp]: "exec (find_fd_prog ip port) a = map_option (\<lambda>fd. (fd, a)) (find_fd_by_ip_port (sv_conns (ag_server a)) ip port)"
  by (simp add: find_fd_prog_def)

lemma exec_connection_port [simp]: "exec (connection_port_prog fd) a = Some (get_connection_port (sv_conns (ag_server a)) fd, a)"
  by (simp add: connection_port_prog_def get_connection_port_def)

lemma exec_zombie [simp]: "exec (zombie_sec mem fd) (with_node node closed a) =
    map_option (\<lambda>(r, j). ((), with_node (node\<lparr>resources := r, active_jobs := j\<rparr>) (closed @ [fd]) a))
      (free_all_resources_from_socket mem (resources node) (active_jobs node) (u32_of_int fd))"
  by (auto simp: zombie_sec_def split: Option.bind_splits)

text \<open>A handler's program does to the node and the outbox what the handler does.\<close>

definition does :: "outbox_t prog \<Rightarrow> (connections \<Rightarrow> node_data_t \<Rightarrow> (node_data_t \<times> outbox_t) result) \<Rightarrow> bool" where
  "does p h \<longleftrightarrow> (\<forall>node closed a. exec p (with_node node closed a) =
     map_option (\<lambda>(node', outbox). (outbox, with_node node' closed a)) (h (sv_conns (ag_server a)) node))"

lemma get_nodes_does: "does (get_nodes_prog socket outbox) (\<lambda>conns node. Some (handle_get_nodes_response node socket outbox))"
  by (simp add: does_def get_nodes_prog_def handle_get_nodes_response_def Let_def)

lemma job_request_does: "does (job_request_prog env socket buffer outbox) (\<lambda>conns node. handle_job_request env node socket buffer outbox)"
  by (auto simp: does_def job_request_prog_def handle_job_request_def Let_def
      split: list.split fval.split Option.bind_splits)

lemma job_release_does: "does (job_release_prog buffer outbox) (\<lambda>conns node. handle_job_release node buffer outbox)"
  by (auto simp: does_def job_release_prog_def handle_job_release_def split: list.split fval.split Option.bind_splits)

lemma reserve_does: "does (reserve_prog env socket buffer outbox) (\<lambda>conns node. handle_reserve env node socket buffer outbox)"
  by (auto simp: does_def reserve_prog_def handle_reserve_def Let_def split: list.split fval.split Option.bind_splits)

lemma granted_does: "does (granted_prog ip port buffer outbox) (\<lambda>conns node. handle_granted node ip port buffer outbox)"
  by (auto simp: does_def granted_prog_def handle_granted_def split: list.split fval.split Option.bind_splits)

lemma denied_does: "does (denied_prog buffer outbox) (\<lambda>conns node. handle_denied node buffer outbox)"
  by (auto simp: does_def denied_prog_def handle_denied_def split: list.split fval.split Option.bind_splits)

lemma release_does: "does (release_prog env socket buffer outbox) (\<lambda>conns node. handle_release env node socket buffer outbox)"
  by (auto simp: does_def release_prog_def handle_release_def split: list.split fval.split Option.bind_splits)

lemma dead_nodes_exec: "exec (dead_nodes_prog env i dead outbox) (with_node node closed a) =
    map_option (\<lambda>(node', outbox', closed'). (outbox', with_node node' closed' a))
      (dead_nodes_bucle env (sv_conns (ag_server a)) i dead (node, outbox, closed))"
proof (induction dead arbitrary: i node outbox closed)
  case (Cons e dead)
  obtain ip port where "e = (ip, port)" by fastforce
  then show ?case using Cons.IH by (auto split: Option.bind_splits)
qed simp

lemma check_deadnodes_exec: "exec (check_deadnodes_prog env outbox) (with_node node [] a) =
    map_option (\<lambda>(node', outbox', closed). (outbox', with_node node' closed a))
      (handle_check_deadnodes env (sv_conns (ag_server a)) node outbox)"
  by (auto simp: check_deadnodes_prog_def handle_check_deadnodes_def dead_nodes_exec split: Option.bind_splits)

lemma node_announced_exec: "exec (node_announced_prog env ip buffer) (with_node node closed a) =
    map_option (\<lambda>node'. ((), with_node node' closed a)) (handle_node_announced env node ip buffer)"
  by (auto simp: node_announced_prog_def handle_node_announced_def Let_def split: list.split prod.split Option.bind_splits)

lemma get_resources_does: "does (get_resources_prog port outbox) (\<lambda>conns node. Some (node, handle_get_resources port node outbox))"
  by (simp add: does_def get_resources_prog_def handle_get_resources_def split: prod.split)

lemma disconnected_does: "does (disconnected_prog env ip socket outbox) (\<lambda>conns node. handle_disconnected env conns node ip socket outbox)"
  by (auto simp: does_def disconnected_prog_def handle_disconnected_def Let_def split: option.split Option.bind_splits)

lemma respond_does: "does (respond_prog env ip socket buffer outbox) (\<lambda>conns node. handle_respond env conns node ip socket buffer outbox)"
  using get_nodes_does job_request_does reserve_does granted_does denied_does release_does job_release_does
  by (simp add: does_def respond_prog_def handle_respond_def)

lemmas handler_execs = get_resources_does [unfolded does_def, rule_format] disconnected_does [unfolded does_def, rule_format]
  respond_does [unfolded does_def, rule_format] check_deadnodes_exec node_announced_exec

lemma map_bind_Some: "Option.bind (map_option f m) (\<lambda>x. Some (g x)) = map_option (\<lambda>y. g (f y)) m"
  by (cases m) simp_all

lemma patch_keeps_node:
  "resource_adapter_patch env conns port (Some node) ip socket buffer outbox action = Some (node', ob, closed) \<Longrightarrow> node' \<noteq> None"
  by (cases action) (auto simp: resource_adapter_patch_def split: option.splits)

lemma exec_adapter [simp]: "exec (adapter_prog envs ip socket buffer action) a =
    map_option (\<lambda>(outbox, s). (outbox, a\<lparr>ag_server := s\<rparr>)) (adapter_call envs ip socket buffer action (ag_server a))"
proof (cases "mynode (sv_ctx (ag_server a))")
  case None
  then show ?thesis by (simp add: adapter_prog_def enter_sec_def adapter_call_def resource_adapter_patch_def)
next
  case (Some node)
  let ?s = "ag_server a"
  let ?env = "envs (sv_calls ?s)" and ?a = "a\<lparr>ag_server := ?s\<lparr>sv_calls := Suc (sv_calls ?s)\<rparr>\<rparr>"
  have "exec (adapter_prog envs ip socket buffer action) a = map_option (\<lambda>(node', outbox, closed). (outbox, with_node (the node') closed ?a))
      (resource_adapter_patch ?env (sv_conns ?s) (ctx_port (sv_ctx ?s)) (Some node) ip socket buffer [] action)"
  proof -
    have a: "with_node node [] ?a = ?a" using Some by (simp add: with_node_same)
    note H = handler_execs(1-3,5) [where node = node and a = ?a and closed = "[]", unfolded a]
      handler_execs(4) [where node = node and a = ?a, unfolded a]
    show ?thesis
      by (cases action) (simp_all add: adapter_prog_def enter_sec_def Some resource_adapter_patch_def H a option.map_comp
          comp_def case_prod_unfold map_bind_Some split: option.split)
  qed
  also have "\<dots> = map_option (\<lambda>(outbox, s). (outbox, a\<lparr>ag_server := s\<rparr>)) (adapter_call envs ip socket buffer action ?s)"
    by (auto simp: adapter_call_def Some with_node_def put_node_def dest!: patch_keeps_node split: Option.bind_splits option.split)
  finally show ?thesis .
qed

text \<open>The handlers of the events.\<close>

abbreviation on_server :: "agent \<Rightarrow> ('a \<times> server) option \<Rightarrow> ('a \<times> agent) option" where
  "on_server a res \<equiv> map_option (\<lambda>(x, s). (x, a\<lparr>ag_server := s\<rparr>)) res"

abbreviation on_server_unit :: "agent \<Rightarrow> server option \<Rightarrow> (unit \<times> agent) option" where
  "on_server_unit a res \<equiv> map_option (\<lambda>s. ((), a\<lparr>ag_server := s\<rparr>)) res"

lemma exec_sys_sec [simp]: "exec (sys_sec m) a = Some (fst (syscalls (m (fixed_ctx (ag_server a))) (ag_server a)),
    a\<lparr>ag_server := snd (syscalls (m (fixed_ctx (ag_server a))) (ag_server a))\<rparr>)"
  by (simp add: sys_sec_def case_prod_unfold)

lemma exec_call_sec [simp]: "exec (call_sec c) a = Some ((), a\<lparr>ag_server := call (c (fixed_ctx (ag_server a))) (ag_server a)\<rparr>)"
  by (simp add: call_sec_def)

lemma exec_conns_wr [simp]: "exec (conns_wr f) a = Some ((), a\<lparr>ag_server := (ag_server a)\<lparr>sv_conns := f (sv_conns (ag_server a))\<rparr>\<rparr>)"
  by (simp add: conns_wr_def)

lemma exec_queue_sec [simp]: "exec (queue_sec f) a = Some ((), a\<lparr>ag_queue := f (ag_queue a)\<rparr>)"
  by (simp add: queue_sec_def)

lemma exec_send_one [simp]: "exec (send_one_prog k m) a = on_server_unit a (send_one k m (ag_server a))"
  by (auto simp: send_one_prog_def send_one_def send_sec_def case_prod_unfold Let_def split: Option.bind_splits)

lemma exec_send_outbox [simp]: "exec (send_outbox_prog k outbox) a = on_server_unit a (send_outbox k outbox (ag_server a))"
  by (induction outbox arbitrary: a) (auto split: Option.bind_splits)

lemma exec_tcp_timer [simp]: "exec (tcp_timer_prog k) a = Some ((), a\<lparr>ag_server := handle_tcp_timer_expiration k (ag_server a)\<rparr>)"
  by (simp add: tcp_timer_prog_def handle_tcp_timer_expiration_def Let_def)

lemma exec_udp_timer [simp]: "exec (udp_timer_prog k envs) a = on_server_unit a (handle_udp_timer_expiration k envs (ag_server a))"
  by (auto simp: udp_timer_prog_def handle_udp_timer_expiration_def split: Option.bind_splits list.split)

lemma exec_discovery [simp]: "exec (discovery_prog k envs) a = on_server_unit a (handle_incoming_discovery k envs (ag_server a))"
  by (auto simp: discovery_prog_def handle_incoming_discovery_def case_prod_unfold Let_def
      split: Option.bind_splits option.split)

lemma exec_new_connection [simp]:
  "exec (new_connection_prog k fd) a = on_server_unit a (handle_new_tcp_connection k (ag_server a) fd)"
  by (simp add: new_connection_prog_def handle_new_tcp_connection_def case_prod_unfold Let_def)

lemma exec_copy_ip [simp]: "exec (copy_ip_prog fd) a =
    (if fd < 0 \<or> int MAX_FDS \<le> fd then None else Some (strncpy 16 (cn_ip (sv_conns (ag_server a) ! nat fd)), a))"
  by (simp add: copy_ip_prog_def)

lemma exec_answer_line [simp]:
  "exec (answer_line_prog k envs ip fd line) a = on_server_unit a (answer_line k envs ip fd line (ag_server a))"
  by (auto simp: answer_line_prog_def answer_line_def split: Option.bind_splits)

lemma exec_lines [simp]: "exec (lines_prog k envs ip fd lines) a = on_server_unit a (lines_bucle k envs ip fd lines (ag_server a))"
  by (induction lines arbitrary: a) (auto split: Option.bind_splits)

lemma exec_client_message [simp]:
  "exec (client_message_prog k envs fd) a = on_server a (handle_client_message k envs (ag_server a) fd)"
  by (auto simp: client_message_prog_def handle_client_message_def case_prod_unfold Let_def split: Option.bind_splits)

lemma exec_connection_success [simp]:
  "exec (connection_success_prog k envs fd) a = on_server_unit a (handle_connection_success k envs (ag_server a) fd)"
  by (auto simp: connection_success_prog_def handle_connection_success_def pending_sec_def case_prod_unfold Let_def
      split: Option.bind_splits)

lemma exec_gc_pass [simp]: "exec (gc_pass_prog k envs) a =
    map_option (\<lambda>(n, s). (0 < n, a\<lparr>ag_server := s\<rparr>)) (gc_pass k envs (ag_server a))"
  by (auto simp: gc_pass_prog_def gc_pass_def split: Option.bind_splits)

lemma exec_main: "exec (main_prog k envs ev) a = map_option (\<lambda>a'. (False, a')) (main_event k envs ev a)"
proof -
  obtain fd evs where "ev = (fd, evs)" by fastforce
  then show ?thesis
    by (auto simp: main_prog_def main_event_def push_prog_def push_task_def Let_def option.map_comp comp_def
        split: Option.bind_splits)
qed

end
