(* ===== verification/Section_Safety.thy ===== *)
theory Section_Safety
  imports Sections
begin

text \<open>
  Every critical section keeps what the threads share in order, in whatever state the other threads
  left it. A program is safe when each of its sections, started in any state of the invariant, is
  defined and ends in the invariant, and the rest of the program is safe. The invariant asks of a job
  only its bounds (\<open>oj_bounded\<close>): that a job awaits one answer at a time does not hold when handlers
  are interrupted.
\<close>

section \<open>Safe programs\<close>

text \<open>Each section may use up one place of the tables.\<close>

inductive safe :: "(nat \<Rightarrow> agent \<Rightarrow> bool) \<Rightarrow> ('a \<Rightarrow> bool) \<Rightarrow> 'a prog \<Rightarrow> bool" for I Q where
  safe_Return: "Q x \<Longrightarrow> safe I Q (Return x)"
| safe_Sec: "(\<And>j a. I (Suc j) a \<Longrightarrow> \<exists>p a'. f a = Some (p, a') \<and> I j a' \<and> safe I Q p) \<Longrightarrow> safe I Q (Sec l f)"

inductive_simps safe_Sec_iff: "safe I Q (Sec l f)"

lemma safe_andthen:
  assumes "safe I Q p" and "\<And>x. Q x \<Longrightarrow> safe I R (g x)"
  shows "safe I R (andthen p g)"
  using assms(1)
proof induction
  case (safe_Sec f l)
  show ?case by (auto intro!: safe.safe_Sec dest!: safe_Sec)
qed (simp add: assms(2))

lemma safe_sec:
  assumes "\<And>j a. I (Suc j) a \<Longrightarrow> \<exists>x a'. f a = Some (x, a') \<and> I j a' \<and> Q x"
  shows "safe I Q (sec l f)"
  unfolding sec_def by (rule safe_Sec) (use assms safe_Return in fastforce)

text \<open>The invariant of the threads.\<close>

abbreviation shared :: "(resource_t \<Rightarrow> u32) \<Rightarrow> nat \<Rightarrow> agent \<Rightarrow> bool" where
  "shared tot j a \<equiv> agent_inv_for oj_bounded j tot a"

abbreviation any :: "'a \<Rightarrow> bool" where
  "any \<equiv> \<lambda>x. True"

lemma safe_server_sec:
  assumes "\<And>j s. server_inv_for oj_bounded (Suc j) tot s \<Longrightarrow>
    \<exists>x s'. f s = Some (x, s') \<and> server_inv_for oj_bounded j tot s' \<and> Q x"
  shows "safe (shared tot) Q (server_sec l f)"
  unfolding server_sec_def
proof (rule safe_sec)
  fix j a assume "shared tot (Suc j) a"
  moreover from this assms [of j "ag_server a"]
  obtain x s' where "f (ag_server a) = Some (x, s')" "server_inv_for oj_bounded j tot s'" "Q x"
    by (auto simp: agent_inv_for_def)
  ultimately show "\<exists>x a'. map_option (\<lambda>(x, s). (x, a\<lparr>ag_server := s\<rparr>)) (f (ag_server a)) = Some (x, a') \<and> shared tot j a' \<and> Q x"
    using agent_inv_server by auto
qed

text \<open>A part of the node: what is needed of the rest.\<close>

definition node_ok :: "nat \<Rightarrow> (resource_t \<Rightarrow> u32) \<Rightarrow> node_data_t \<Rightarrow> bool" where
  "node_ok j tot node \<longleftrightarrow> node_inv_for oj_bounded node \<and> node_room j node \<and> total (resources node) = tot"

lemma server_inv_node_ok: "server_inv_for oj_bounded j tot s \<longleftrightarrow>
    conns_ok (sv_conns s) \<and> (\<exists>node. mynode (sv_ctx s) = Some node \<and> node_ok j tot node)"
  by (auto simp: server_inv_for_def node_ok_def split: option.splits)

lemma put_node_simps [simp]:
  "sv_conns (put_node node s) = sv_conns s" "mynode (sv_ctx (put_node node s)) = Some node"
  by (simp_all add: put_node_def)

lemma safe_node_sec:
  assumes "\<And>j node. node_ok (Suc j) tot node \<Longrightarrow> \<exists>x node'. f node = Some (x, node') \<and> node_ok j tot node' \<and> Q x"
  shows "safe (shared tot) Q (node_sec l f)"
  unfolding node_sec_def
  by (rule safe_server_sec) (use assms in \<open>fastforce simp: server_inv_node_ok\<close>)

lemma node_ok_low: "node_ok (Suc j) tot node \<Longrightarrow> node_ok j tot node"
  by (auto simp: node_ok_def intro: node_room_mono)

lemma safe_owned_sec:
  assumes "\<And>j jobs. oj_inv_for oj_bounded jobs \<Longrightarrow> th_room (Suc j) jobs \<Longrightarrow>
    \<exists>x jobs'. f jobs = Some (x, jobs') \<and> oj_inv_for oj_bounded jobs' \<and> th_room j jobs' \<and> Q x"
  shows "safe (shared tot) Q (owned_sec l f)"
  unfolding owned_sec_def
proof (rule safe_node_sec)
  fix j node assume ok: "node_ok (Suc j) tot node"
  with assms [of "owned_jobs node" j] obtain x jobs' where
    f: "f (owned_jobs node) = Some (x, jobs')" "oj_inv_for oj_bounded jobs'" "th_room j jobs'" "Q x"
    by (auto simp: node_ok_def node_inv_for_def node_room_def)
  with node_ok_low [OF ok] show "\<exists>x node'. (f (owned_jobs node) \<bind> (\<lambda>(x, jobs). Some (x, node\<lparr>owned_jobs := jobs\<rparr>))) =
      Some (x, node') \<and> node_ok j tot node' \<and> Q x"
    by (simp add: node_ok_def node_inv_for_def node_room_def)
qed

lemma safe_jobs_sec:
  assumes "\<And>j jobs. oj_inv_for oj_bounded jobs \<Longrightarrow> th_room j jobs \<Longrightarrow> jobs_safe oj_bounded j (m jobs)"
  shows "safe (shared tot) outbox_ok (owned_sec l (\<lambda>jobs. m jobs \<bind> (\<lambda>(jobs', outbox'). Some (outbox', jobs'))))"
proof (rule safe_owned_sec)
  fix j jobs assume "oj_inv_for oj_bounded jobs" "th_room (Suc j) jobs"
  with assms [of jobs j] th_room_mono [of "Suc j" jobs j] obtain jobs' outbox' where
    "m jobs = Some (jobs', outbox')" "oj_inv_for oj_bounded jobs'" "th_room j jobs'" "outbox_ok outbox'"
    by (auto simp: jobs_safe_def)
  then show "\<exists>x jobs'. (m jobs \<bind> (\<lambda>(jobs', outbox'). Some (outbox', jobs'))) = Some (x, jobs') \<and>
      oj_inv_for oj_bounded jobs' \<and> th_room j jobs' \<and> outbox_ok x" by simp
qed

lemma safe_known_sec:
  assumes "\<And>j known. kn_tab known \<Longrightarrow> th_room (Suc j) known \<Longrightarrow>
    \<exists>x known'. f known = Some (x, known') \<and> kn_tab known' \<and> th_room j known' \<and> Q x"
  shows "safe (shared tot) Q (known_sec f)"
  unfolding known_sec_def
proof (rule safe_node_sec)
  fix j node assume ok: "node_ok (Suc j) tot node"
  with assms [of "known_nodes node" j] obtain x known' where
    f: "f (known_nodes node) = Some (x, known')" "kn_tab known'" "th_room j known'" "Q x"
    by (auto simp: node_ok_def node_inv_for_def node_room_def)
  with node_ok_low [OF ok] show "\<exists>x node'. (f (known_nodes node) \<bind> (\<lambda>(x, known). Some (x, node\<lparr>known_nodes := known\<rparr>))) =
      Some (x, node') \<and> node_ok j tot node' \<and> Q x"
    by (simp add: node_ok_def node_inv_for_def node_room_def)
qed

lemma safe_conns_rd:
  assumes "\<And>cs. conns_ok cs \<Longrightarrow> \<exists>x. f cs = Some x \<and> Q x"
  shows "safe (shared tot) Q (conns_rd f)"
  unfolding conns_rd_def
proof (rule safe_server_sec)
  fix j s assume inv: "server_inv_for oj_bounded (Suc j) tot s"
  with assms [of "sv_conns s"] obtain x where "f (sv_conns s) = Some x" "Q x" by (auto simp: server_inv_for_def)
  with server_inv_mono [OF inv, of j] show "\<exists>x s'. map_option (\<lambda>x. (x, s)) (f (sv_conns s)) = Some (x, s') \<and>
      server_inv_for oj_bounded j tot s' \<and> Q x" by simp
qed

lemma safe_conns_wr:
  assumes "\<And>cs. conns_ok cs \<Longrightarrow> conns_ok (f cs)"
  shows "safe (shared tot) any (conns_wr f)"
  unfolding conns_wr_def
proof (rule safe_server_sec)
  fix j s assume inv: "server_inv_for oj_bounded (Suc j) tot s"
  with assms have "conns_ok (f (sv_conns s))" by (simp add: server_inv_for_def)
  with server_inv_conns [OF server_inv_mono [OF inv, of j]] show
    "\<exists>x s'. Some ((), s\<lparr>sv_conns := f (sv_conns s)\<rparr>) = Some (x, s') \<and> server_inv_for oj_bounded j tot s' \<and> any x" by simp
qed

lemma safe_sys_sec:
  assumes "\<And>ctx h. Q (fst (run_state (m ctx) h))"
  shows "safe (shared tot) Q (sys_sec m)"
  unfolding sys_sec_def
proof (rule safe_server_sec)
  fix j s assume inv: "server_inv_for oj_bounded (Suc j) tot s"
  have "\<exists>h. syscalls (m (fixed_ctx s)) s = (fst (run_state (m (fixed_ctx s)) (sv_hist s)), s\<lparr>sv_hist := h\<rparr>)"
    by (auto simp: syscalls_def split: prod.split)
  with assms server_inv_mono [OF inv, of j] show "\<exists>x s'. Some (syscalls (m (fixed_ctx s)) s) = Some (x, s') \<and>
      server_inv_for oj_bounded j tot s' \<and> Q x" by auto
qed

lemma safe_call_sec: "safe (shared tot) any (call_sec c)"
  unfolding call_sec_def by (rule safe_server_sec) (auto intro: server_inv_mono)

lemma safe_queue_push:
  assumes "task_ok \<lparr>wt_fd = fd, wt_type = ty\<rparr>"
  shows "safe (shared tot) any (push_prog fd ty)"
  unfolding push_prog_def queue_sec_def
proof (rule safe_sec)
  fix j a assume "shared tot (Suc j) a"
  from push_task_inv [OF agent_inv_mono [OF this, of j] assms] show
    "\<exists>x a'. Some ((), a\<lparr>ag_queue := thread_pool_push_task (ag_queue a) \<lparr>wt_fd = fd, wt_type = ty\<rparr>\<rparr>) = Some (x, a') \<and> shared tot j a' \<and> any x"
    by (simp add: push_task_def)
qed

section \<open>The protocol\<close>

text \<open>A handler with at most one section is safe because the handler is.\<close>

definition one_section :: "outbox_t \<Rightarrow> outbox_t prog \<Rightarrow> bool" where
  "one_section outbox p \<longleftrightarrow> p = Return outbox \<or> (\<exists>l f. p = sec l f)"

lemma one_sectionI [simp]:
  "one_section outbox (Return outbox)" "one_section outbox (sec l f)" "one_section outbox (owned_sec l g)"
  "one_section outbox (local_sec h)" "one_section outbox stuck"
  by (auto simp: one_section_def owned_sec_def local_sec_def node_sec_def server_sec_def stuck_def)

lemma safe_one_section:
  assumes "one_section outbox p" "does p h" "outbox_ok outbox"
    and "\<And>j node conns. node_inv_for oj_bounded node \<Longrightarrow> node_room (Suc j) node \<Longrightarrow>
      node_safe oj_bounded j (total (resources node)) (h conns node)"
  shows "safe (shared tot) outbox_ok p"
proof (cases "p = Return outbox")
  case True
  with assms(3) show ?thesis by (simp add: safe_Return)
next
  case False
  then obtain l f where p: "p = sec l f" using assms(1) by (auto simp: one_section_def)
  show ?thesis unfolding p
  proof (rule safe_sec)
    fix j a assume inv: "shared tot (Suc j) a"
    then obtain node where n: "mynode (sv_ctx (ag_server a)) = Some node" "node_ok (Suc j) tot node" "conns_ok (sv_conns (ag_server a))"
      by (auto simp: agent_inv_for_def server_inv_node_ok)
    from assms(4) [of node j "sv_conns (ag_server a)"] n(2) obtain node' outbox' where
      h: "h (sv_conns (ag_server a)) node = Some (node', outbox')" "node_ok j tot node'" "outbox_ok outbox'"
      by (auto simp: node_ok_def node_safe_def)
    have "f a = exec p (with_node node [] a)" by (simp add: p with_node_same [OF n(1)])
    also have "\<dots> = Some (outbox', with_node node' [] a)" using assms(2) h(1) by (simp add: does_def)
    finally show "\<exists>x a'. f a = Some (x, a') \<and> shared tot j a' \<and> outbox_ok x"
      using h(2,3) n(3) inv by (simp add: agent_inv_for_def server_inv_node_ok with_node_def)
  qed
qed

lemma handler_sections:
  "one_section outbox (job_release_prog buffer outbox)" "one_section outbox (reserve_prog env socket buffer outbox)"
  "one_section outbox (granted_prog ip port buffer outbox)" "one_section outbox (denied_prog buffer outbox)"
  "one_section outbox (release_prog env socket buffer outbox)"
  by (simp_all add: job_release_prog_def reserve_prog_def granted_prog_def denied_prog_def release_prog_def Let_def
      split: list.split fval.split)

lemma safe_get_nodes: "outbox_ok outbox \<Longrightarrow> safe (shared tot) outbox_ok (get_nodes_prog socket outbox)"
  unfolding get_nodes_prog_def
  by (rule safe_andthen [where Q = any]) (auto intro!: safe_known_sec safe_Return th_room_mono [of "Suc j" _ j for j])

lemma safe_job_request:
  assumes ob: "outbox_ok outbox" and env: "env_ok env"
  shows "safe (shared tot) outbox_ok (job_request_prog env socket buffer outbox)"
proof -
  have mem: "env_mem env i" for i using env by (simp add: env_ok_def)
  have reg: "\<exists>jobs'. (add_new_owned_job (env_mem env 1) (env_now env) jobs jid socket \<bind>
      (\<lambda>(r, jobs1). peticiones_bucle (\<lambda>i. env_mem env (2 + i)) 0 jid tokens jobs1 \<bind> (\<lambda>jobs2. Some ((), jobs2)))) =
        Some ((), jobs') \<and> oj_inv_for oj_bounded jobs' \<and> th_room j jobs'"
    if "oj_inv_for oj_bounded jobs" "th_room (Suc j) jobs" for jobs jid tokens j
    using ojb.register_job_safe [OF that, of "\<lambda>i. env_mem env (2 + i)" "env_now env" jid socket tokens] mem by (auto simp: mem)
  have first: "jobs_safe oj_bounded j (send_next_reserve jobs jid outbox)"
    if "oj_inv_for oj_bounded jobs" "th_room j jobs" for jobs jid j
    using ojb.send_next_reserve_safe [OF that ob] by simp
  have "safe (shared tot) outbox_ok
      (andthen (owned_sec LOCK_OWNED (\<lambda>jobs. add_new_owned_job (env_mem env 1) (env_now env) jobs jid socket \<bind>
        (\<lambda>(r, jobs1). peticiones_bucle (\<lambda>i. env_mem env (2 + i)) 0 jid tokens jobs1 \<bind> (\<lambda>jobs2. Some ((), jobs2)))))
      (\<lambda>_. owned_sec NO_LOCK_OWNED (\<lambda>jobs. send_next_reserve jobs jid outbox \<bind> (\<lambda>(jobs', outbox'). Some (outbox', jobs')))))"
    for jid tokens
    by (rule safe_andthen [where Q = any], rule safe_owned_sec)
      (use reg in \<open>auto intro!: safe_jobs_sec first\<close>)
  then show ?thesis using mem ob safe_Return [of outbox_ok outbox]
    by (auto simp: job_request_prog_def split: list.split fval.split)
qed

lemma safe_find_fd: "safe (shared tot) any (find_fd_prog (Some ip) port)"
  unfolding find_fd_prog_def
proof (rule safe_conns_rd)
  fix cs show "\<exists>x. find_fd_by_ip_port cs (Some ip) port = Some x \<and> any x"
    using find_bucle_spec [of 0 cs ip port] by (auto simp: find_fd_by_ip_port_def)
qed

lemma safe_connection_port: "safe (shared tot) any (connection_port_prog fd)"
  unfolding connection_port_prog_def by (auto intro: safe_Return safe_conns_rd)

lemma free_all_ok:
  assumes "node_ok (Suc j) tot node"
  shows "\<exists>r ja. free_all_resources_from_socket mem (resources node) (active_jobs node) socket = Some (r, ja) \<and>
    node_ok j tot (node\<lparr>resources := r, active_jobs := ja\<rparr>)"
proof -
  have ok: "node_ok j tot node" by (rule node_ok_low [OF assms])
  then have "lr_inv (resources node) (active_jobs node)" "th_room (j + lr_waiting (resources node)) (active_jobs node)"
    by (simp_all add: node_ok_def node_inv_for_def node_room_def)
  from free_all_room [OF this, of mem socket] ok show ?thesis by (auto simp: node_ok_def node_inv_for_def node_room_def)
qed

lemma safe_zombie: "safe (shared tot) any (zombie_sec mem fd)"
  unfolding zombie_sec_def
  by (rule safe_server_sec)
    (use free_all_ok [of _ tot _ mem "u32_of_int fd"] in \<open>fastforce simp: server_inv_node_ok\<close>)

lemma safe_dead_nodes:
  assumes "\<forall>e \<in> set dead. fst e \<noteq> None" "outbox_ok outbox"
  shows "safe (shared tot) outbox_ok (dead_nodes_prog env i dead outbox)"
  using assms
proof (induction dead arbitrary: i outbox)
  case (Cons e dead)
  obtain ip port where e: "e = (Some ip, port)" using Cons.prems(1) by (cases e) auto
  have jobs: "jobs_safe oj_bounded j (get_jobs_affected_by_dead_node jobs (Some ip) port 20 \<bind>
      (\<lambda>ids. abort_bucle ''JOB_DENIED'' ids jobs outbox))" if "oj_inv_for oj_bounded jobs" "th_room j jobs" for jobs j
    using ojb.affected_total [OF that(1), of ip port 20] ojb.abort_bucle_safe [OF that Cons.prems(2)] by fastforce
  have "safe (shared tot) outbox_ok (owned_sec LOCK_OWNED (\<lambda>jobs. get_jobs_affected_by_dead_node jobs (Some ip) port 20 \<bind>
      (\<lambda>ids. abort_bucle ''JOB_DENIED'' ids jobs outbox \<bind> (\<lambda>(jobs', outbox'). Some (outbox', jobs')))))"
    using safe_jobs_sec [where tot = tot and l = LOCK_OWNED, OF jobs] by (simp add: Option.bind_assoc)
  with Cons show ?case
    by (auto simp: e intro!: safe_andthen [OF safe_find_fd] safe_andthen [OF safe_zombie] safe_andthen [where Q = outbox_ok])
qed (simp add: safe_Return)

lemma safe_check_deadnodes:
  assumes ob: "outbox_ok outbox" and env: "env_ok env"
  shows "safe (shared tot) outbox_ok (check_deadnodes_prog env outbox)"
  unfolding check_deadnodes_prog_def
proof (rule safe_andthen [where Q = "\<lambda>dead. \<forall>e \<in> set dead. fst e \<noteq> None"], rule safe_known_sec)
  have mem: "env_mem env i" for i using env by (simp add: env_ok_def)
  let ?dup = "\<lambda>i. env_mem env (1 + i)"
  fix j known assume K: "kn_tab known" "th_room (Suc j) known"
  have "numElems known < 2 ^ 31" "th_room j known" using K(2) th_room_mono [OF K(2), of j] by (simp_all add: th_room_def)
  with remove_inactive_spec [OF K(1), where m = 10 and now = "env_now env" and dup = ?dup and j = j] kn_report_ip [of ?dup] mem
  show "\<exists>dead known'. remove_inactive_nodes (env_mem env 0) ?dup (env_now env) known 10 = Some (dead, known') \<and>
      kn_tab known' \<and> th_room j known' \<and> (\<forall>e \<in> set dead. fst e \<noteq> None)"
    by (simp add: mem) blast
next
  fix dead :: "(string option \<times> u32) list" assume "\<forall>e \<in> set dead. fst e \<noteq> None"
  from safe_dead_nodes [OF this ob] show "safe (shared tot) outbox_ok (andthen (dead_nodes_prog env 0 dead outbox) (\<lambda>outbox1.
      owned_sec LOCK_OWNED (\<lambda>jobs. timeout_bucle (collect_timed_out_jobs (env_now env) jobs 20) jobs outbox1 \<bind>
        (\<lambda>(jobs', outbox2). Some (outbox2, jobs')))))"
    by (rule safe_andthen) (intro safe_jobs_sec ojb.timeout_bucle_safe)
qed

lemma safe_node_announced:
  assumes env: "env_ok env"
  shows "safe (shared tot) any (node_announced_prog env (Some ip) buffer)"
proof -
  have "safe (shared tot) any (known_sec (\<lambda>known. update_known_node (env_mem env 1) (env_now env) known ip port cpu ram gpu \<bind>
      (\<lambda>known'. Some ((), known'))))" for port cpu ram gpu
  proof (rule safe_known_sec)
    fix j known assume K: "kn_tab known" "th_room (Suc j) known"
    let ?e = "\<lparr>kn_node_ip = ip, kn_node_port = port, kn_avail = (\<lambda>_. 0)(CPU := cpu, RAM := ram, GPU := gpu),
      kn_time_stamp = env_now env\<rparr>"
    obtain known' where u: "tablahash_insertar known ?e = Some known'" "th_room j known'" using kn.ins_total [OF K] by blast
    have "kn_tab known'" using kn.insertar_spec [OF K(1) u(1)] by blast
    with u env show "\<exists>x known'. (update_known_node (env_mem env 1) (env_now env) known ip port cpu ram gpu \<bind>
        (\<lambda>known'. Some ((), known'))) = Some (x, known') \<and> kn_tab known' \<and> th_room j known' \<and> any x"
      by (simp add: update_known_node_def create_elem_known_node_def env_ok_def)
  qed
  then show ?thesis by (auto simp: node_announced_prog_def Let_def intro: safe_Return split: list.split prod.split)
qed

lemma safe_get_resources: "outbox_ok outbox \<Longrightarrow> safe (shared tot) outbox_ok (get_resources_prog port outbox)"
  unfolding get_resources_prog_def local_sec_def
  by (rule safe_andthen [where Q = any], rule safe_node_sec) (auto simp: get_local_resources_def intro: safe_Return dest: node_ok_low)

lemma safe_disconnected:
  assumes ob: "outbox_ok outbox"
  shows "safe (shared tot) outbox_ok (disconnected_prog env (Some ip) socket outbox)"
proof -
  have "\<exists>x node'. (free_all_resources_from_socket mem (resources node) (active_jobs node) socket \<bind>
      (\<lambda>(r', j'). Some ((), r', j')) \<bind> (\<lambda>(x, r, j). Some (x, node\<lparr>resources := r, active_jobs := j\<rparr>))) =
      Some (x, node') \<and> node_ok j tot node' \<and> any x" if "node_ok (Suc j) tot node" for j node mem
    using free_all_ok [OF that, of mem socket] by auto
  then have free: "safe (shared tot) any (local_sec (\<lambda>r j. free_all_resources_from_socket mem r j socket \<bind> (\<lambda>(r', j'). Some ((), r', j'))))" for mem
    unfolding local_sec_def by (rule safe_node_sec)
  have affected: "jobs_safe oj_bounded j (get_jobs_affected_by_dead_node jobs (Some ip) port 20 \<bind>
      (\<lambda>ids. affected_bucle ip port ids jobs outbox1))" if "oj_inv_for oj_bounded jobs" "th_room j jobs" "outbox_ok outbox1"
    for jobs j port outbox1
    using ojb.affected_total [OF that(1), of ip port 20] ojb.affected_bucle_safe [OF that] by fastforce
  have "safe (shared tot) outbox_ok (owned_sec LOCK_OWNED (\<lambda>jobs. get_jobs_affected_by_dead_node jobs (Some ip) port 20 \<bind>
      (\<lambda>ids. affected_bucle ip port ids jobs outbox1 \<bind> (\<lambda>(jobs', outbox'). Some (outbox', jobs')))))"
    if "outbox_ok outbox1" for port outbox1
    using safe_jobs_sec [where tot = tot and l = LOCK_OWNED, OF affected [OF _ _ that]] by (simp add: Option.bind_assoc)
  then show ?thesis unfolding disconnected_prog_def
    by (intro safe_andthen [OF free] safe_andthen [OF safe_jobs_sec [OF ojb.orphans_bucle_safe]] safe_andthen [OF safe_connection_port])
      (use ob in \<open>auto intro: safe_Return\<close>)
qed

lemma safe_respond:
  assumes ob: "outbox_ok outbox" and env: "env_ok env" and fits: "reserve_fits buffer"
  shows "safe (shared tot) outbox_ok (respond_prog env (Some ip) socket buffer outbox)"
proof -
  note one = safe_one_section [OF _ _ ob]
  have low: "node_room (Suc j) node \<Longrightarrow> node_room j node" for j node by (erule node_room_mono) simp
  have "safe (shared tot) outbox_ok (reserve_prog env socket buffer outbox)"
    by (rule one [OF handler_sections(2) reserve_does ojb.reserve_safe]) (use ob env fits in auto)
  moreover have "safe (shared tot) outbox_ok (granted_prog (Some ip) port buffer outbox)" for port
    by (rule one [OF handler_sections(3) granted_does ojb.granted_safe]) (use ob low in auto)
  moreover have "safe (shared tot) outbox_ok (denied_prog buffer outbox)"
    by (rule one [OF handler_sections(4) denied_does ojb.denied_safe]) (use ob low in auto)
  moreover have "safe (shared tot) outbox_ok (release_prog env socket buffer outbox)"
    by (rule one [OF handler_sections(5) release_does ojb.release_safe]) (use ob env low in auto)
  moreover have "safe (shared tot) outbox_ok (job_release_prog buffer outbox)"
    by (rule one [OF handler_sections(1) job_release_does ojb.job_release_safe]) (use ob low in auto)
  ultimately show ?thesis using ob safe_get_nodes [OF ob] safe_job_request [OF ob env]
    by (auto simp: respond_prog_def intro: safe_andthen [OF safe_connection_port] safe_Return)
qed

lemma safe_adapter:
  assumes envs: "\<And>i. env_ok (envs i)"
    and sender: "action \<in> {ACTION_RESPOND, ACTION_NEW_NODE_DISCOVERED, ACTION_DISCONNECTED} \<longrightarrow> ip \<noteq> None"
    and fits: "action = ACTION_RESPOND \<longrightarrow> pred_option reserve_fits buffer"
  shows "safe (shared tot) outbox_ok (adapter_prog envs ip socket buffer action)"
  unfolding adapter_prog_def
proof (rule safe_andthen [where Q = "\<lambda>(env, port, b). env_ok env \<and> b"])
  show "safe (shared tot) (\<lambda>(env, port, b). env_ok env \<and> b) (enter_sec envs)"
    unfolding enter_sec_def
    by (rule safe_server_sec) (use envs in \<open>auto simp: server_inv_node_ok dest: node_ok_low\<close>)
  fix x :: "env \<times> int \<times> bool" assume "case x of (env, port, b) \<Rightarrow> env_ok env \<and> b"
  then obtain env port where x: "x = (env, port, True)" "env_ok env" by auto
  note nil = safe_Return [of outbox_ok "[]" "shared tot", simplified]
  note H = safe_get_resources [OF outbox_ok_Nil] safe_check_deadnodes [OF outbox_ok_Nil x(2)]
    safe_disconnected [OF outbox_ok_Nil] safe_respond [OF outbox_ok_Nil x(2)] safe_andthen [OF safe_node_announced [OF x(2)] nil] nil
  show "safe (shared tot) outbox_ok (case x of (env, port, has_node) \<Rightarrow> if \<not> has_node then Return [] else
     (case action of
          ACTION_GET_RESOURCES \<Rightarrow> get_resources_prog port []
        | ACTION_NEW_NODE_DISCOVERED \<Rightarrow>
            (case buffer of
               None \<Rightarrow> Return []
             | Some buffer \<Rightarrow> andthen (node_announced_prog env ip buffer) (\<lambda>_. Return []))
        | ACTION_CHECK_DEADNODES \<Rightarrow> check_deadnodes_prog env []
        | ACTION_DISCONNECTED \<Rightarrow> disconnected_prog env ip socket []
        | ACTION_RESPOND \<Rightarrow>
            (case buffer of
               None \<Rightarrow> Return []
             | Some buffer \<Rightarrow> respond_prog env ip socket buffer [])
        | ACTION_NONE \<Rightarrow> Return []))"
    using sender fits by (cases action) (auto simp: x(1) split: option.split intro: H)
qed

section \<open>Events\<close>

lemma safe_send_sec:
  assumes ker: "kernel_ok k \<mu>"
  shows "safe (shared tot) any (send_sec k fd msg)"
  unfolding send_sec_def
proof (rule safe_server_sec)
  fix j s assume inv: "server_inv_for oj_bounded (Suc j) tot s"
  obtain r cs where "send_tcp_message k fd msg (sv_hist s) = Some (r, sv_hist s @ cs)"
    using send_tcp_message_spec [OF kernel_okD(1,2) [OF ker], of fd msg "sv_hist s"] by blast
  with server_inv_mono [OF inv, of j] show "\<exists>x s'. (send_tcp_message k fd msg (sv_hist s) \<bind>
      (\<lambda>(sent, h). Some ((), s\<lparr>sv_hist := h\<rparr>))) = Some (x, s') \<and> server_inv_for oj_bounded j tot s' \<and> any x" by simp
qed

lemma conns_ok_open: "conns_ok cs \<Longrightarrow> length ip \<le> 15 \<Longrightarrow> length msg < BUFFER_SIZE \<Longrightarrow> conns_ok (open_connection fd ip p msg cs)"
  unfolding open_connection_def by (rule conns_ok_update) simp_all

lemma conns_ok_reset: "conns_ok cs \<Longrightarrow> conns_ok (reset_connection fd cs)"
  unfolding reset_connection_def by (rule conns_ok_update) (simp_all add: BUFFER_SIZE_def)

lemma length_strncpy: "length (strncpy n s) \<le> length s" "length (strncpy n s) \<le> n"
  by (simp_all add: strncpy_def)

lemma safe_open:
  assumes "length ip \<le> 15"
  shows "safe (shared tot) any (conns_wr (open_connection fd (strncpy 16 ip) p (strncpy (BUFFER_SIZE - 1) msg)))"
    "safe (shared tot) any (conns_wr (open_connection fd (strncpy 16 ip) p []))"
  using assms length_strncpy(1) [of 16 ip] length_strncpy(2) [of "BUFFER_SIZE - 1" msg]
  by (auto intro!: safe_conns_wr conns_ok_open simp: BUFFER_SIZE_def)

lemma safe_sys_any: "safe (shared tot) any (sys_sec m)"
  by (rule safe_sys_sec) simp

lemma safe_send_one:
  assumes ker: "kernel_ok k \<mu>" and m: "length (target_ip m) \<le> 15"
  shows "safe (shared tot) any (send_one_prog k m)"
proof -
  have find: "safe (shared tot) any (if target_fd m = - 1 then find_fd_prog (Some (target_ip m)) (u32_of_int (target_port m))
      else Return (target_fd m))" by (simp add: safe_find_fd safe_Return)
  have "safe (shared tot) (\<lambda>fd. - 1 \<le> fd) (sys_sec (\<lambda>ctx. connect_to_tcp_node k (target_ip m) (target_port m)))"
  proof (rule safe_sys_sec)
    fix h show "- 1 \<le> fst (run_state (connect_to_tcp_node k (target_ip m) (target_port m)) h)"
      using opens_fd [OF opens_connect, of k "target_ip m" "target_port m" h] kernel_okD(3) [OF ker]
      by (cases "run_state (connect_to_tcp_node k (target_ip m) (target_port m)) h") auto
  qed
  then have conn: "safe (shared tot) any (andthen (sys_sec (\<lambda>ctx. connect_to_tcp_node k (target_ip m) (target_port m))) (\<lambda>new_fd.
       if new_fd = - 1 then Return ()
       else if int MAX_FDS \<le> new_fd then call_sec (\<lambda>ctx. Close new_fd)
       else if new_fd < 0 then stuck
       else
         andthen (conns_wr (open_connection new_fd (strncpy 16 (target_ip m)) (u32_of_int (target_port m))
           (strncpy (BUFFER_SIZE - 1) (message m)))) (\<lambda>_.
         andthen (sys_sec (\<lambda>ctx. add_to_epoll_interest_list k (epollfd ctx) new_fd [EPOLLIN, EPOLLOUT])) (\<lambda>_. Return ()))))"
    by (rule safe_andthen)
      (auto intro!: safe_andthen [OF safe_open(1) [OF m]] safe_andthen [OF safe_sys_any] safe_call_sec safe_Return simp del: One_nat_def)
  show ?thesis unfolding send_one_prog_def
    by (rule safe_andthen [OF find]) (use conn in \<open>simp add: safe_send_sec [OF ker] del: One_nat_def\<close>)
qed

lemma safe_send_outbox:
  assumes "kernel_ok k \<mu>" "outbox_ok outbox"
  shows "safe (shared tot) any (send_outbox_prog k outbox)"
proof -
  have "list_all (\<lambda>m. length (target_ip m) \<le> 15) outbox" using assms(2) by (auto simp: outbox_ok_def list_all_iff)
  then show ?thesis
    by (induction outbox) (auto intro: safe_Return safe_andthen [OF safe_send_one [OF assms(1)]])
qed

lemma safe_copy_ip: "0 \<le> fd \<Longrightarrow> fd < int MAX_FDS \<Longrightarrow> safe (shared tot) any (copy_ip_prog fd)"
  by (auto simp: copy_ip_prog_def intro: safe_conns_rd)

lemma safe_tcp_timer: "safe (shared tot) any (tcp_timer_prog k)"
  unfolding tcp_timer_prog_def
  by (intro safe_andthen [OF safe_call_sec] safe_andthen [OF safe_sys_any] safe_andthen [OF safe_server_sec [where Q = any]] safe_Return)
    (auto simp: server_inv_node_ok dest: node_ok_low)

lemma safe_udp_timer:
  assumes "\<And>i. env_ok (envs i)"
  shows "safe (shared tot) any (udp_timer_prog k envs)"
  unfolding udp_timer_prog_def
  by (rule safe_andthen [OF safe_adapter [where envs = envs]])
    (auto intro!: safe_Return safe_andthen [OF safe_sys_any] assms split: list.split)

lemma safe_discovery:
  assumes "\<And>i. env_ok (envs i)"
  shows "safe (shared tot) any (discovery_prog k envs)"
  unfolding discovery_prog_def
  by (rule safe_andthen [OF safe_sys_any])
    (auto intro!: safe_Return safe_andthen [OF safe_adapter [where envs = envs]] assms split: option.split)

lemma safe_new_connection:
  assumes ker: "kernel_ok k \<mu>"
  shows "safe (shared tot) any (new_connection_prog k server_fd)"
  unfolding new_connection_prog_def
proof (rule safe_andthen [where Q = "\<lambda>(fd, ip). - 1 \<le> fd \<and> length ip \<le> 15"], rule safe_sys_sec)
  fix h show "case fst (run_state (accept_tcp_connection k server_fd) h) of (fd, ip) \<Rightarrow> - 1 \<le> fd \<and> length ip \<le> 15"
    using kernel_okD(4) [OF ker, of h server_fd] inet_ntoa_length [of "sr_addr (k h (Accept server_fd))"]
    by (simp add: accept_tcp_connection_def Let_def)
next
  fix x :: "int \<times> string" assume "case x of (fd, ip) \<Rightarrow> - 1 \<le> fd \<and> length ip \<le> 15"
  then show "safe (shared tot) any (case x of (client_fd, client_ip) \<Rightarrow>
     if client_fd \<noteq> - 1 \<and> client_fd < int MAX_FDS then
       if client_fd < 0 then stuck
       else
         andthen (conns_wr (open_connection client_fd (strncpy 16 client_ip) 0 [])) (\<lambda>_.
         andthen (sys_sec (\<lambda>ctx. add_to_epoll_interest_list k (epollfd ctx) client_fd [EPOLLIN, EPOLLONESHOT])) (\<lambda>_. Return ()))
     else Return ())"
    by (auto intro!: safe_Return safe_andthen [OF safe_open(2)] safe_andthen [OF safe_sys_any])
qed

lemma safe_lines:
  assumes "kernel_ok k \<mu>" "\<And>i. env_ok (envs i)" "list_all reserve_fits lines"
  shows "safe (shared tot) any (lines_prog k envs ip fd lines)"
  using assms(3)
proof (induction lines)
  case (Cons line lines)
  then have "safe (shared tot) any (answer_line_prog k envs ip fd line)"
    unfolding answer_line_prog_def
    by (auto intro!: safe_Return safe_andthen [OF safe_adapter [where envs = envs]] safe_send_outbox [OF assms(1)] assms(2))
  with Cons show ?case by (auto intro: safe_andthen)
qed (simp add: safe_Return)

text \<open>A disconnection, before the entry of the connection is cleared.\<close>

lemma safe_disconnect:
  assumes "kernel_ok k \<mu>" "\<And>i. env_ok (envs i)" "safe (shared tot) Q p"
  shows "safe (shared tot) Q (andthen (adapter_prog envs (Some ip) socket buffer ACTION_DISCONNECTED) (\<lambda>outbox.
    andthen (send_outbox_prog k outbox) (\<lambda>_. p)))"
  by (rule safe_andthen [OF safe_adapter [where envs = envs]])
    (auto intro!: safe_andthen [OF safe_send_outbox [OF assms(1)]] assms(2,3))

lemma safe_client_message:
  assumes ker: "kernel_ok k \<mu>" and envs: "\<And>i. env_ok (envs i)" and peers: "peers_ok k"
    and fd: "0 \<le> curr_fd" "curr_fd < int MAX_FDS"
  shows "safe (shared tot) any (client_message_prog k envs curr_fd)"
proof -
  let ?Q = "\<lambda>(n :: int, buf). 0 < n \<longrightarrow> list_all reserve_fits (strtok CHR ''\<newline>'' buf)"
  have recv: "safe (shared tot) ?Q (sys_sec (\<lambda>ctx. receive_tcp_message k curr_fd BUFFER_SIZE))"
  proof (rule safe_sys_sec)
    fix h show "?Q (fst (run_state (receive_tcp_message k curr_fd BUFFER_SIZE) h))"
      using peers by (auto simp: Let_def peers_ok_def)
  qed
  have gone: "safe (shared tot) any (andthen (sys_sec (\<lambda>ctx. remove_from_epoll_interest_list k (epollfd ctx) curr_fd)) (\<lambda>_.
       andthen (call_sec (\<lambda>ctx. Close curr_fd)) (\<lambda>_. andthen (conns_wr (reset_connection curr_fd)) (\<lambda>_. Return (1 :: int)))))"
    by (intro safe_andthen [OF safe_sys_any] safe_andthen [OF safe_call_sec] safe_andthen [OF safe_conns_wr] safe_Return TrueI conns_ok_reset)
  show ?thesis unfolding client_message_prog_def
    by (rule safe_andthen [OF safe_copy_ip [OF fd]], rule safe_andthen [OF recv])
      (auto intro!: safe_Return safe_andthen [OF safe_lines [where envs = envs, OF ker envs]] safe_disconnect [where envs = envs, OF ker envs gone])
qed

lemma safe_pending:
  assumes ker: "kernel_ok k \<mu>" and fd: "0 \<le> curr_fd" "curr_fd < int MAX_FDS"
  shows "safe (shared tot) any (pending_sec k curr_fd)"
  unfolding pending_sec_def
proof (rule safe_server_sec)
  fix j s assume inv: "server_inv_for oj_bounded (Suc j) tot s"
  let ?c = "sv_conns s ! nat curr_fd"
  obtain q cs where "send_tcp_message k curr_fd (pending_message ?c) (sv_hist s) = Some (q, sv_hist s @ cs)"
    using send_tcp_message_spec [OF kernel_okD(1,2) [OF ker], of curr_fd "pending_message ?c" "sv_hist s"] by blast
  moreover have "conns_ok (sv_conns s)" "nat curr_fd < MAX_FDS" using inv fd by (simp_all add: server_inv_for_def)
  then have "conns_ok ((sv_conns s)[nat curr_fd := ?c\<lparr>pending_message := []\<rparr>])"
    using conns_ok_nth [of "sv_conns s" "nat curr_fd"] by (intro conns_ok_update) (simp_all add: BUFFER_SIZE_def)
  moreover have "server_inv_for oj_bounded j tot s" using inv by (rule server_inv_mono) simp
  ultimately show "\<exists>x s'. (send_tcp_message k curr_fd (pending_message ?c) (sv_hist s) \<bind>
      (\<lambda>(sent, h). Some ((), s\<lparr>sv_hist := h, sv_conns := (sv_conns s)[nat curr_fd := ?c\<lparr>pending_message := []\<rparr>]\<rparr>))) =
      Some (x, s') \<and> server_inv_for oj_bounded j tot s' \<and> any x" by (simp add: server_inv_for_def)
qed

lemma safe_connection_success:
  assumes ker: "kernel_ok k \<mu>" and envs: "\<And>i. env_ok (envs i)" and fd: "0 \<le> curr_fd" "curr_fd < int MAX_FDS"
  shows "safe (shared tot) any (connection_success_prog k envs curr_fd)"
proof -
  have failed: "safe (shared tot) any (andthen (conns_wr (reset_connection curr_fd)) (\<lambda>_.
       andthen (sys_sec (\<lambda>ctx. remove_from_epoll_interest_list k (epollfd ctx) curr_fd)) (\<lambda>_. call_sec (\<lambda>ctx. Close curr_fd))))"
    by (intro safe_andthen [OF safe_conns_wr] safe_andthen [OF safe_sys_any] safe_call_sec conns_ok_reset)
  show ?thesis unfolding connection_success_prog_def
    by (rule safe_andthen [OF safe_copy_ip [OF fd]], rule safe_andthen [OF safe_sys_any])
      (auto intro!: safe_andthen [OF safe_pending [OF ker fd]] safe_call_sec safe_disconnect [where envs = envs, OF ker envs failed])
qed

section \<open>Threads\<close>

lemma safe_gc_pass:
  assumes "kernel_ok k \<mu>" "\<And>i. env_ok (envs i)"
  shows "safe (shared tot) any (gc_pass_prog k envs)"
  unfolding gc_pass_prog_def
  by (rule safe_andthen [OF safe_adapter [where envs = envs]])
    (auto intro!: safe_andthen [OF safe_send_outbox [OF assms(1)]] safe_Return assms(2))

lemma safe_task:
  assumes ker: "kernel_ok k \<mu>" and envs: "\<And>i. env_ok (envs i)" and peers: "peers_ok k" and task: "task_ok task"
  shows "safe (shared tot) any (task_prog k envs task)"
proof (cases "wt_type task")
  case TASK_TCP_CLIENT_MSG
  then have fd: "0 \<le> wt_fd task" "wt_fd task < int MAX_FDS" using task by (simp_all add: task_ok_def)
  from TASK_TCP_CLIENT_MSG show ?thesis
    by (auto simp: task_prog_def intro!: safe_andthen [OF safe_client_message [where envs = envs, OF ker envs peers fd]]
        safe_andthen [OF safe_sys_any] safe_Return)
qed (auto simp: task_prog_def intro!: safe_Return safe_andthen [OF safe_call_sec] safe_andthen [OF safe_discovery [where envs = envs, OF envs]]
    safe_andthen [OF safe_udp_timer [where envs = envs, OF envs]] safe_gc_pass [where envs = envs, OF ker envs])

lemma safe_worker:
  assumes ker: "kernel_ok k \<mu>" and envs: "\<And>i. env_ok (envs i)" and peers: "peers_ok k"
  shows "safe (shared tot) any (worker_prog k envs)"
  unfolding worker_prog_def
proof (rule safe_Sec)
  fix j a assume inv: "shared tot (Suc j) a"
  have low: "shared tot j a" using inv by (rule agent_inv_mono) simp
  show "\<exists>p a'. Some (case worker_take (ag_queue a) of None \<Rightarrow> (Return False, a)
      | Some (task, q) \<Rightarrow> (task_prog k envs task, a\<lparr>ag_queue := q\<rparr>)) = Some (p, a') \<and> shared tot j a' \<and> safe (shared tot) any p"
  proof (cases "tq_items (ag_queue a)")
    case Nil
    then have "worker_take (ag_queue a) = None" by (simp add: worker_take_def tq_items_def)
    with low show ?thesis by (simp add: safe_Return)
  next
    case (Cons task rest)
    obtain q where q: "worker_take (ag_queue a) = Some (task, q)" "tq_inv q" "tq_items q = rest"
      using tq_take [OF _ Cons] inv by (auto simp: agent_inv_for_def)
    have "task_ok task" using inv Cons by (simp add: agent_inv_for_def)
    with q low Cons safe_task [where envs = envs, OF ker envs peers] show ?thesis by (simp add: agent_inv_for_def)
  qed
qed

lemma safe_main:
  assumes ker: "kernel_ok k \<mu>" and envs: "\<And>i. env_ok (envs i)" and fd: "0 \<le> fd" "fd < int MAX_FDS"
  shows "safe (shared tot) any (main_prog k envs (fd, evs))"
proof -
  have ctx: "safe (shared tot) any (server_sec NO_LOCK (\<lambda>s. Some (fixed_ctx s, s)))"
    by (rule safe_server_sec) (auto intro: server_inv_mono)
  have push: "safe (shared tot) any (push_prog n TASK_UDP_ANNOUNCE)" "safe (shared tot) any (push_prog n TASK_GARBAGE_COLLECTOR)"
    "safe (shared tot) any (push_prog n TASK_UDP_DISCOVERY)" "safe (shared tot) any (push_prog fd TASK_TCP_CLIENT_MSG)" for n
    by (rule safe_queue_push, use fd in \<open>simp add: task_ok_def\<close>)+
  show ?thesis unfolding main_prog_def
    by (auto intro!: safe_andthen [OF ctx] safe_Return safe_andthen [where Q = any] safe_tcp_timer push safe_call_sec
        safe_new_connection [OF ker] safe_connection_success [where envs = envs, OF ker envs fd])
qed

end
