(* ===== verification/Lock_Discipline.thy ===== *)
theory Lock_Discipline
  imports Sections
begin

text \<open>
  Which lock protects what. A section may read and change only the part of the shared memory that its
  lock stands for, besides the kernel and the fixed fields of the context. A program whose sections
  all do so is disciplined; this is an effect system for the programs of the threads.
\<close>

section \<open>The parts of the shared memory\<close>

datatype part = Inventory_part | Jobs_part | Directory_part | Connections_part | Queue_part

fun part_of :: "lock \<Rightarrow> part option" where
  "part_of LOCK_LOCAL = Some Inventory_part"
| "part_of LOCK_OWNED = Some Jobs_part"
| "part_of NO_LOCK_OWNED = Some Jobs_part"
| "part_of LOCK_KNOWN = Some Directory_part"
| "part_of CONNECTIONS_RD = Some Connections_part"
| "part_of CONNECTIONS_WR = Some Connections_part"
| "part_of LOCK_QUEUE = Some Queue_part"
| "part_of NO_LOCK = None"

text \<open>Two nodes, and two states of the agent, agree on a part.\<close>

fun node_agree :: "part \<Rightarrow> node_data_t \<Rightarrow> node_data_t \<Rightarrow> bool" where
  "node_agree Inventory_part m n \<longleftrightarrow> resources m = resources n \<and> active_jobs m = active_jobs n"
| "node_agree Jobs_part m n \<longleftrightarrow> owned_jobs m = owned_jobs n"
| "node_agree Directory_part m n \<longleftrightarrow> known_nodes m = known_nodes n"
| "node_agree r m n \<longleftrightarrow> True"

fun agree :: "part \<Rightarrow> agent \<Rightarrow> agent \<Rightarrow> bool" where
  "agree Connections_part a b \<longleftrightarrow> sv_conns (ag_server a) = sv_conns (ag_server b)"
| "agree Queue_part a b \<longleftrightarrow> ag_queue a = ag_queue b"
| "agree r a b \<longleftrightarrow> rel_option (node_agree r) (mynode (sv_ctx (ag_server a))) (mynode (sv_ctx (ag_server b)))"

text \<open>What a section with the lock \<open>l\<close> may look at, and what it has to leave as it is.\<close>

definition sees_same :: "lock \<Rightarrow> agent \<Rightarrow> agent \<Rightarrow> bool" where
  "sees_same l a b \<longleftrightarrow> sv_hist (ag_server a) = sv_hist (ag_server b) \<and> sv_calls (ag_server a) = sv_calls (ag_server b) \<and>
     fixed_ctx (ag_server a) = fixed_ctx (ag_server b) \<and>
     (mynode (sv_ctx (ag_server a)) = None \<longleftrightarrow> mynode (sv_ctx (ag_server b)) = None) \<and> pred_option (\<lambda>r. agree r a b) (part_of l)"

definition keeps_rest :: "lock \<Rightarrow> agent \<Rightarrow> agent \<Rightarrow> bool" where
  "keeps_rest l a a' \<longleftrightarrow> (\<forall>r. (part_of l = Some r \<longrightarrow> l = CONNECTIONS_RD) \<longrightarrow> agree r a a')"

definition section_ok :: "lock \<Rightarrow> (agent \<Rightarrow> ('b \<times> agent) option) \<Rightarrow> bool" where
  "section_ok l f \<longleftrightarrow>
     (\<forall>a b. sees_same l a b \<longrightarrow> rel_option (\<lambda>(x, a') (y, b'). x = y \<and> sees_same l a' b') (f a) (f b)) \<and>
     (\<forall>a x a'. f a = Some (x, a') \<longrightarrow> keeps_rest l a a')"

inductive disciplined :: "'a prog \<Rightarrow> bool" where
  disc_Return: "disciplined (Return x)"
| disc_Sec: "section_ok l f \<Longrightarrow> (\<And>a p a'. f a = Some (p, a') \<Longrightarrow> disciplined p) \<Longrightarrow> disciplined (Sec l f)"

inductive_cases disciplined_SecE: "disciplined (Sec l f)"

section \<open>Laws\<close>

lemma section_ok_map: "section_ok l f \<Longrightarrow> section_ok l (\<lambda>a. map_option (map_prod g (\<lambda>a'. a')) (f a))"
  unfolding section_ok_def by (fastforce simp: option.rel_map elim!: option.rel_mono_strong)

lemma disc_andthen:
  assumes "disciplined p" "\<And>x. disciplined (g x)"
  shows "disciplined (andthen p g)"
  using assms(1)
proof induction
  case (disc_Sec l f)
  then show ?case by (auto intro!: disciplined.disc_Sec section_ok_map)
qed (simp add: assms(2))

lemma disc_sec: "section_ok l f \<Longrightarrow> disciplined (sec l f)"
  unfolding sec_def by (rule disc_Sec) (auto intro: section_ok_map disc_Return)

lemma disc_stuck: "disciplined stuck"
  unfolding stuck_def by (rule disc_sec) (simp add: section_ok_def)

lemma put_node_frame [simp]:
  "sv_hist (put_node node s) = sv_hist s" "sv_calls (put_node node s) = sv_calls s" "sv_conns (put_node node s) = sv_conns s"
  "mynode (sv_ctx (put_node node s)) = Some node" "fixed_ctx (put_node node s) = fixed_ctx s"
  by (simp_all add: put_node_def fixed_ctx_def)

lemma fixed_ctx_frame [simp]:
  "fixed_ctx (s\<lparr>sv_hist := h\<rparr>) = fixed_ctx s" "fixed_ctx (s\<lparr>sv_conns := cs\<rparr>) = fixed_ctx s"
  "fixed_ctx (s\<lparr>sv_calls := n\<rparr>) = fixed_ctx s"
  by (simp_all add: fixed_ctx_def)

lemma sees_nodes:
  assumes "sees_same l a b"
  obtains "mynode (sv_ctx (ag_server a)) = None" "mynode (sv_ctx (ag_server b)) = None"
  | m n where "mynode (sv_ctx (ag_server a)) = Some m" "mynode (sv_ctx (ag_server b)) = Some n"
  using assms by (auto simp: sees_same_def)

lemma section_okI:
  assumes "\<And>a b. sees_same l a b \<Longrightarrow> rel_option (\<lambda>(x, a') (y, b'). x = y \<and> sees_same l a' b') (f a) (f b)"
    and "\<And>a x a' r. f a = Some (x, a') \<Longrightarrow> part_of l \<noteq> Some r \<or> l = CONNECTIONS_RD \<Longrightarrow> agree r a a'"
  shows "section_ok l f"
  using assms by (auto simp: section_ok_def keeps_rest_def)

lemma node_agree_refl [simp]: "node_agree r m m"
  by (cases r) simp_all

lemma agree_refl [simp]: "agree r a a"
  by (cases r) (simp_all add: option.rel_refl)

text \<open>A section on the node that touches one part of it.\<close>

lemma disc_node:
  assumes l: "part_of l = Some r" "r \<in> {Inventory_part, Jobs_part, Directory_part}"
    and see: "\<And>m n. node_agree r m n \<Longrightarrow> rel_option (\<lambda>(x, m') (y, n'). x = y \<and> node_agree r m' n') (f m) (f n)"
    and keep: "\<And>m x m' r'. f m = Some (x, m') \<Longrightarrow> r' \<noteq> r \<Longrightarrow> node_agree r' m m'"
  shows "disciplined (node_sec l f)"
  unfolding node_sec_def server_sec_def
proof (rule disc_sec, rule section_okI)
  let ?f = "\<lambda>a. map_option (\<lambda>(x, s). (x, a\<lparr>ag_server := s\<rparr>)) (mynode (sv_ctx (ag_server a)) \<bind>
    (\<lambda>node. f node \<bind> (\<lambda>(x, node'). Some (x, put_node node' (ag_server a)))))"
  fix a b assume s: "sees_same l a b"
  then show "rel_option (\<lambda>(x, a') (y, b'). x = y \<and> sees_same l a' b') (?f a) (?f b)"
  proof (cases rule: sees_nodes)
    case (2 m n)
    then have "node_agree r m n" using s l by (auto simp: sees_same_def)
    from see [OF this] 2 s l show ?thesis
      by (cases "f m"; cases "f n") (auto simp: sees_same_def)
  qed simp
next
  fix a a' :: agent and x r' assume run: "map_option (\<lambda>(x, s). (x, a\<lparr>ag_server := s\<rparr>)) (mynode (sv_ctx (ag_server a)) \<bind>
    (\<lambda>node. f node \<bind> (\<lambda>(x, node'). Some (x, put_node node' (ag_server a))))) = Some (x, a')"
    and r': "part_of l \<noteq> Some r' \<or> l = CONNECTIONS_RD"
  then have "r' \<noteq> r" using l by auto
  moreover obtain m m' where "mynode (sv_ctx (ag_server a)) = Some m" "f m = Some (x, m')" "a' = a\<lparr>ag_server := put_node m' (ag_server a)\<rparr>"
    using run by (auto simp: bind_eq_Some_conv)
  ultimately show "agree r' a a'" using keep [of m x m' r'] by (cases r') simp_all
qed

lemma disc_local: "disciplined (local_sec f)"
  unfolding local_sec_def
proof (rule disc_node [where r = Inventory_part])
  fix m m' :: node_data_t and x r' assume "(f (resources m) (active_jobs m) \<bind> (\<lambda>(x, r, j). Some (x, m\<lparr>resources := r, active_jobs := j\<rparr>))) = Some (x, m')"
    "r' \<noteq> Inventory_part"
  then show "node_agree r' m m'" by (cases r') (auto simp: bind_eq_Some_conv)
qed (auto simp: option.rel_refl_strong split: Option.bind_splits)

lemma disc_owned: "part_of l = Some Jobs_part \<Longrightarrow> disciplined (owned_sec l f)"
  unfolding owned_sec_def
proof (rule disc_node [where r = Jobs_part])
  fix m m' :: node_data_t and x r' assume "(f (owned_jobs m) \<bind> (\<lambda>(x, jobs). Some (x, m\<lparr>owned_jobs := jobs\<rparr>))) = Some (x, m')" "r' \<noteq> Jobs_part"
  then show "node_agree r' m m'" by (cases r') (auto simp: bind_eq_Some_conv)
qed (auto simp: option.rel_refl_strong split: Option.bind_splits)

lemma disc_known: "disciplined (known_sec f)"
  unfolding known_sec_def
proof (rule disc_node [where r = Directory_part])
  fix m m' :: node_data_t and x r' assume "(f (known_nodes m) \<bind> (\<lambda>(x, known). Some (x, m\<lparr>known_nodes := known\<rparr>))) = Some (x, m')"
    "r' \<noteq> Directory_part"
  then show "node_agree r' m m'" by (cases r') (auto simp: bind_eq_Some_conv)
qed (auto simp: option.rel_refl_strong split: Option.bind_splits)

text \<open>The other sections.\<close>

lemma disc_conns_rd: "disciplined (conns_rd f)"
  unfolding conns_rd_def server_sec_def
  by (rule disc_sec, rule section_okI)
    (auto simp: sees_same_def option.rel_map option.rel_refl_strong)

lemma disc_conns_wr: "disciplined (conns_wr f)"
  unfolding conns_wr_def server_sec_def
proof (rule disc_sec, rule section_okI)
  fix a a' :: agent and x r
  assume "map_option (\<lambda>(x, s). (x, a\<lparr>ag_server := s\<rparr>)) (Some ((), (ag_server a)\<lparr>sv_conns := f (sv_conns (ag_server a))\<rparr>)) = Some (x, a')"
    "part_of CONNECTIONS_WR \<noteq> Some r \<or> CONNECTIONS_WR = CONNECTIONS_RD"
  then show "agree r a a'" by (cases r) (auto simp: option.rel_refl)
qed (auto simp: sees_same_def)

lemma disc_queue: "disciplined (queue_sec f)"
  unfolding queue_sec_def
proof (rule disc_sec, rule section_okI)
  fix a a' :: agent and x r
  assume "Some ((), a\<lparr>ag_queue := f (ag_queue a)\<rparr>) = Some (x, a')" "part_of LOCK_QUEUE \<noteq> Some r \<or> LOCK_QUEUE = CONNECTIONS_RD"
  then show "agree r a a'" by (cases r) (auto simp: option.rel_refl)
qed (auto simp: sees_same_def)

text \<open>
  A section on the history, the count of events and the fixed fields of the context: what it answers
  and what it writes depends on these only.
\<close>

lemma disc_kernel:
  assumes "\<And>s. f s = map_option (\<lambda>(x, h, n, t). (x, s\<lparr>sv_hist := h, sv_calls := n, sv_ctx := (sv_ctx s)\<lparr>tcp_timerfd := t\<rparr>\<rparr>))
    (g (sv_hist s) (sv_calls s) (fixed_ctx s) (mynode (sv_ctx s) = None))"
  shows "disciplined (server_sec NO_LOCK f)"
  unfolding server_sec_def
proof (rule disc_sec, rule section_okI)
  fix a b assume s: "sees_same NO_LOCK a b"
  let ?r = "g (sv_hist (ag_server b)) (sv_calls (ag_server b)) (fixed_ctx (ag_server b)) (mynode (sv_ctx (ag_server b)) = None)"
  have ctx: "(sv_ctx (ag_server a))\<lparr>mynode := None\<rparr> = (sv_ctx (ag_server b))\<lparr>mynode := None\<rparr>" using s by (simp add: sees_same_def fixed_ctx_def)
  have "(sv_ctx (ag_server a))\<lparr>tcp_timerfd := t, mynode := None\<rparr> = (sv_ctx (ag_server b))\<lparr>tcp_timerfd := t, mynode := None\<rparr>" for t
    using ctx by (cases "sv_ctx (ag_server a)"; cases "sv_ctx (ag_server b)") simp
  with s show "rel_option (\<lambda>(x, a') (y, b'). x = y \<and> sees_same NO_LOCK a' b')
      (map_option (\<lambda>(x, s). (x, a\<lparr>ag_server := s\<rparr>)) (f (ag_server a))) (map_option (\<lambda>(x, s). (x, b\<lparr>ag_server := s\<rparr>)) (f (ag_server b)))"
    by (cases ?r) (auto simp: assms sees_same_def fixed_ctx_def)
next
  fix a a' :: agent and x r assume "map_option (\<lambda>(x, s). (x, a\<lparr>ag_server := s\<rparr>)) (f (ag_server a)) = Some (x, a')"
  then show "agree r a a'" by (cases r) (auto simp: assms option.rel_refl)
qed

lemma server_same [simp]:
  "s\<lparr>sv_hist := h, sv_calls := sv_calls s, sv_ctx := (sv_ctx s)\<lparr>tcp_timerfd := tcp_timerfd (sv_ctx s)\<rparr>\<rparr> = s\<lparr>sv_hist := h\<rparr>"
  for s :: server by simp

lemma disc_sys: "disciplined (sys_sec m)"
  unfolding sys_sec_def
  by (rule disc_kernel [where g = "\<lambda>h n c b. let (x, h') = run_state (m c) h in Some (x, h', n, tcp_timerfd c)"])
    (simp add: syscalls_def split: prod.split)

lemma disc_call: "disciplined (call_sec c)"
  unfolding call_sec_def
  by (rule disc_kernel [where g = "\<lambda>h n ctx b. Some ((), h @ [c ctx], n, tcp_timerfd ctx)"]) (simp add: call_def)

lemma disc_send: "disciplined (send_sec k fd msg)"
  unfolding send_sec_def
  by (rule disc_kernel [where g = "\<lambda>h n ctx b. map_option (\<lambda>(x, h'). ((), h', n, tcp_timerfd ctx)) (send_tcp_message k fd msg h)"])
    (auto split: Option.bind_splits)

lemma disc_enter: "disciplined (enter_sec envs)"
  unfolding enter_sec_def
  by (rule disc_kernel [where g = "\<lambda>h n ctx b. Some ((envs n, ctx_port ctx, \<not> b), h, Suc n, tcp_timerfd ctx)"]) simp

text \<open>Two sections that also make a system call under their lock.\<close>

lemma disc_zombie: "disciplined (zombie_sec mem fd)"
  unfolding zombie_sec_def server_sec_def
proof (rule disc_sec, rule section_okI)
  fix a b assume s: "sees_same LOCK_LOCAL a b"
  let ?f = "\<lambda>a. map_option (\<lambda>(x, s). (x, a\<lparr>ag_server := s\<rparr>)) (mynode (sv_ctx (ag_server a)) \<bind> (\<lambda>node.
    free_all_resources_from_socket mem (resources node) (active_jobs node) (u32_of_int fd) \<bind>
    (\<lambda>(r, j). Some ((), call (Close fd) (put_node (node\<lparr>resources := r, active_jobs := j\<rparr>) (ag_server a))))))"
  from s show "rel_option (\<lambda>(x, a') (y, b'). x = y \<and> sees_same LOCK_LOCAL a' b') (?f a) (?f b)"
  proof (cases rule: sees_nodes)
    case (2 m n)
    with s have "resources m = resources n" "active_jobs m = active_jobs n" by (auto simp: sees_same_def)
    with 2 s show ?thesis
      by (cases "free_all_resources_from_socket mem (resources n) (active_jobs n) (u32_of_int fd)") (auto simp: sees_same_def call_def)
  qed simp
next
  fix a a' :: agent and x r
  assume "map_option (\<lambda>(x, s). (x, a\<lparr>ag_server := s\<rparr>)) (mynode (sv_ctx (ag_server a)) \<bind> (\<lambda>node.
      free_all_resources_from_socket mem (resources node) (active_jobs node) (u32_of_int fd) \<bind>
      (\<lambda>(r, j). Some ((), call (Close fd) (put_node (node\<lparr>resources := r, active_jobs := j\<rparr>) (ag_server a)))))) = Some (x, a')"
    "part_of LOCK_LOCAL \<noteq> Some r \<or> LOCK_LOCAL = CONNECTIONS_RD"
  then show "agree r a a'" by (cases r) (auto simp: bind_eq_Some_conv call_def)
qed

lemma disc_pending: "disciplined (pending_sec k fd)"
  unfolding pending_sec_def server_sec_def
proof (rule disc_sec, rule section_okI)
  fix a b assume "sees_same CONNECTIONS_WR a b"
  then show "rel_option (\<lambda>(x, a') (y, b'). x = y \<and> sees_same CONNECTIONS_WR a' b')
      (map_option (\<lambda>(x, s). (x, a\<lparr>ag_server := s\<rparr>))
        (send_tcp_message k fd (pending_message (sv_conns (ag_server a) ! nat fd)) (sv_hist (ag_server a)) \<bind> (\<lambda>(sent, h).
          Some ((), (ag_server a)\<lparr>sv_hist := h, sv_conns := (sv_conns (ag_server a))[nat fd := (sv_conns (ag_server a) ! nat fd)\<lparr>pending_message := []\<rparr>]\<rparr>))))
      (map_option (\<lambda>(x, s). (x, b\<lparr>ag_server := s\<rparr>))
        (send_tcp_message k fd (pending_message (sv_conns (ag_server b) ! nat fd)) (sv_hist (ag_server b)) \<bind> (\<lambda>(sent, h).
          Some ((), (ag_server b)\<lparr>sv_hist := h, sv_conns := (sv_conns (ag_server b))[nat fd := (sv_conns (ag_server b) ! nat fd)\<lparr>pending_message := []\<rparr>]\<rparr>))))"
    by (cases "send_tcp_message k fd (pending_message (sv_conns (ag_server b) ! nat fd)) (sv_hist (ag_server b))")
      (auto simp: sees_same_def)
next
  fix a a' :: agent and x r
  assume "map_option (\<lambda>(x, s). (x, a\<lparr>ag_server := s\<rparr>))
      (send_tcp_message k fd (pending_message (sv_conns (ag_server a) ! nat fd)) (sv_hist (ag_server a)) \<bind> (\<lambda>(sent, h).
        Some ((), (ag_server a)\<lparr>sv_hist := h, sv_conns := (sv_conns (ag_server a))[nat fd := (sv_conns (ag_server a) ! nat fd)\<lparr>pending_message := []\<rparr>]\<rparr>))) =
      Some (x, a')" "part_of CONNECTIONS_WR \<noteq> Some r \<or> CONNECTIONS_WR = CONNECTIONS_RD"
  then show "agree r a a'" by (cases r) (auto simp: bind_eq_Some_conv option.rel_refl)
qed

section \<open>The programs of the threads\<close>

lemmas disc_intros = disc_Return disc_andthen disc_stuck disc_local disc_owned disc_known disc_conns_rd disc_conns_wr disc_queue
  disc_sys disc_call disc_send disc_enter disc_zombie disc_pending

lemma disc_find_fd: "disciplined (find_fd_prog ip port)" and disc_port: "disciplined (connection_port_prog fd)"
  by (auto simp: find_fd_prog_def connection_port_prog_def intro: disc_intros)

lemma disc_handlers:
  "disciplined (get_nodes_prog socket outbox)" "disciplined (job_request_prog env socket buffer outbox)"
  "disciplined (reserve_prog env socket buffer outbox)" "disciplined (granted_prog ip port buffer outbox)"
  "disciplined (denied_prog buffer outbox)" "disciplined (release_prog env socket buffer outbox)"
  "disciplined (job_release_prog buffer outbox)"
  by (simp_all add: get_nodes_prog_def job_request_prog_def reserve_prog_def granted_prog_def denied_prog_def
      release_prog_def job_release_prog_def Let_def disc_intros split: list.split fval.split)

lemma disc_respond: "disciplined (respond_prog env ip socket buffer outbox)"
  by (simp add: respond_prog_def disc_intros disc_handlers disc_port)

lemma disc_dead_nodes: "disciplined (dead_nodes_prog env i dead outbox)"
proof (induction dead arbitrary: i outbox)
  case (Cons e dead)
  then show ?case by (cases e) (auto intro!: disc_intros disc_find_fd)
qed (auto intro: disc_intros)

lemma disc_adapter: "disciplined (adapter_prog envs ip socket buffer action)"
  unfolding adapter_prog_def
  by (cases action)
    (auto simp: get_resources_prog_def node_announced_prog_def check_deadnodes_prog_def disconnected_prog_def Let_def
      intro!: disc_intros disc_respond disc_dead_nodes disc_port split: option.split list.split prod.split)

lemma disc_send_outbox: "disciplined (send_outbox_prog k outbox)"
proof (induction outbox)
  case (Cons m outbox)
  have "disciplined (send_one_prog k m)" by (auto simp: send_one_prog_def intro!: disc_intros disc_find_fd)
  with Cons show ?case by (auto intro!: disc_intros)
qed (auto intro: disc_intros)

lemma disc_lines: "disciplined (lines_prog k envs ip fd lines)"
  by (induction lines) (auto simp: answer_line_prog_def intro!: disc_intros disc_adapter disc_send_outbox)

lemma disc_gc_pass: "disciplined (gc_pass_prog k envs)"
  by (auto simp: gc_pass_prog_def intro!: disc_intros disc_adapter disc_send_outbox)

lemma disc_task: "disciplined (task_prog k envs task)"
  by (cases "wt_type task")
    (auto simp: task_prog_def client_message_prog_def copy_ip_prog_def discovery_prog_def udp_timer_prog_def
      intro!: disc_intros disc_adapter disc_send_outbox disc_lines disc_gc_pass split: option.split list.split)

lemma disc_worker: "disciplined (worker_prog k envs)"
  unfolding worker_prog_def
proof (rule disc_Sec, rule section_okI)
  fix a b assume "sees_same LOCK_QUEUE a b"
  then show "rel_option (\<lambda>(x, a') (y, b'). x = y \<and> sees_same LOCK_QUEUE a' b')
      (Some (case worker_take (ag_queue a) of None \<Rightarrow> (Return False, a) | Some (task, q) \<Rightarrow> (task_prog k envs task, a\<lparr>ag_queue := q\<rparr>)))
      (Some (case worker_take (ag_queue b) of None \<Rightarrow> (Return False, b) | Some (task, q) \<Rightarrow> (task_prog k envs task, b\<lparr>ag_queue := q\<rparr>)))"
    by (cases "worker_take (ag_queue b)") (auto simp: sees_same_def)
next
  fix a a' :: agent and p r
  assume "Some (case worker_take (ag_queue a) of None \<Rightarrow> (Return False, a) | Some (task, q) \<Rightarrow> (task_prog k envs task, a\<lparr>ag_queue := q\<rparr>)) =
      Some (p, a')" "part_of LOCK_QUEUE \<noteq> Some r \<or> LOCK_QUEUE = CONNECTIONS_RD"
  then show "agree r a a'" by (cases r) (auto simp: option.rel_refl split: option.splits)
qed (auto split: option.splits intro: disc_Return disc_task)

lemma disc_main: "disciplined (main_prog k envs ev)"
proof -
  have "disciplined (server_sec NO_LOCK (\<lambda>s. Some (fixed_ctx s, s)))"
    by (rule disc_kernel [where g = "\<lambda>h n c b. Some (c, h, n, tcp_timerfd c)"]) simp
  moreover have "disciplined (server_sec NO_LOCK (\<lambda>s. Some ((), s\<lparr>sv_ctx := (sv_ctx s)\<lparr>tcp_timerfd := - 1\<rparr>\<rparr>)))"
    by (rule disc_kernel [where g = "\<lambda>h n c b. Some ((), h, n, - 1)"]) simp
  ultimately show ?thesis
    by (cases ev) (auto simp: main_prog_def tcp_timer_prog_def push_prog_def new_connection_prog_def connection_success_prog_def
        copy_ip_prog_def Let_def intro!: disc_intros disc_adapter disc_send_outbox)
qed

section \<open>Properties\<close>


end
