(* ===== verification/Concurrency.thy ===== *)
theory Concurrency
  imports Section_Safety Lock_Discipline
begin

text \<open>
  The threads of the agent: the main thread and the workers of \<^verbatim>\<open>init_thread_pool\<close>, in any interleaving
  of their critical sections. Thread 0 is the main thread. A thread waits (for an event or a task), is
  about to go on, or is inside a section whose lock it holds; a section takes effect when it is left.
\<close>

section \<open>Threads and locks\<close>

datatype thread = Waiting | Doing "bool prog" | Inside lock "agent \<Rightarrow> (bool prog \<times> agent) option"

record conc =
  cc_agent :: agent
  cc_threads :: "thread list"

text \<open>Two locks that cannot be held by two threads at once.\<close>

fun conflicts :: "lock \<Rightarrow> lock \<Rightarrow> bool" where
  "conflicts NO_LOCK l \<longleftrightarrow> False"
| "conflicts NO_LOCK_OWNED l \<longleftrightarrow> False"
| "conflicts CONNECTIONS_RD l \<longleftrightarrow> l = CONNECTIONS_WR"
| "conflicts CONNECTIONS_WR l \<longleftrightarrow> l = CONNECTIONS_RD \<or> l = CONNECTIONS_WR"
| "conflicts l l' \<longleftrightarrow> l' = l"

definition lock_free :: "lock \<Rightarrow> thread list \<Rightarrow> bool" where
  "lock_free l ts \<longleftrightarrow> list_all (\<lambda>t. case t of Inside l' f \<Rightarrow> \<not> conflicts l l' | _ \<Rightarrow> True) ts"

text \<open>\<^verbatim>\<open>init_thread_pool\<close> starts \<^verbatim>\<open>num_threads\<close> workers; a number below 0 starts none.\<close>

definition start_threads :: "int \<Rightarrow> thread list" where
  "start_threads num_threads = Waiting # replicate (nat num_threads) Waiting"

definition conc_start :: "kernel \<Rightarrow> bool \<Rightarrow> bool \<Rightarrow> string list \<Rightarrow> int + conc" where
  "conc_start k mem mem_res argv =
     map_sum (\<lambda>status. status) (\<lambda>a. \<lparr>cc_agent = a, cc_threads = start_threads (atoi (argv ! 6))\<rparr>) (main_start k mem mem_res argv)"

definition set_thread :: "nat \<Rightarrow> thread \<Rightarrow> conc \<Rightarrow> conc" where
  "set_thread i t c = c\<lparr>cc_threads := (cc_threads c)[i := t]\<rparr>"

text \<open>
  One step of a thread. A thread that finds its lock taken stays where it is; a worker with nothing to
  do looks into the queue again; after a pass of the garbage collector that sent something comes another.
\<close>

definition turn :: "kernel \<Rightarrow> (nat \<Rightarrow> env) \<Rightarrow> nat \<Rightarrow> conc \<Rightarrow> conc result" where
  "turn k envs i c =
     (if length (cc_threads c) \<le> i then Some c
      else
        (case cc_threads c ! i of
           Waiting \<Rightarrow> Some (if i = 0 then c else set_thread i (Doing (worker_prog k envs)) c)
         | Doing (Return again) \<Rightarrow> Some (set_thread i (if again then Doing (gc_pass_prog k envs) else Waiting) c)
         | Doing (Sec l f) \<Rightarrow> Some (if lock_free l (cc_threads c) then set_thread i (Inside l f) c else c)
         | Inside l f \<Rightarrow>
             do {
               (p, a) \<leftarrow> f (cc_agent c);
               Some (set_thread i (Doing p) (c\<lparr>cc_agent := a\<rparr>))
             }))"

text \<open>An event of \<^verbatim>\<open>epoll_wait\<close> reaches the main thread when it is done with the one before.\<close>

definition main_turn :: "kernel \<Rightarrow> (nat \<Rightarrow> env) \<Rightarrow> int \<times> epoll_flag list \<Rightarrow> conc \<Rightarrow> conc result" where
  "main_turn k envs ev c =
     (case cc_threads c of
        Waiting # ts \<Rightarrow> Some (set_thread 0 (Doing (main_prog k envs ev)) c)
      | _ \<Rightarrow> Some c)"

datatype conc_step = Event "int \<times> epoll_flag list" | Turn nat

fun conc_go :: "kernel \<Rightarrow> (nat \<Rightarrow> env) \<Rightarrow> conc_step \<Rightarrow> conc \<Rightarrow> conc result" where
  "conc_go k envs (Event ev) c = main_turn k envs ev c"
| "conc_go k envs (Turn i) c = turn k envs i c"

fun conc_step_ok :: "conc_step \<Rightarrow> bool" where
  "conc_step_ok (Event (fd, evs)) \<longleftrightarrow> 0 \<le> fd \<and> fd < int MAX_FDS"
| "conc_step_ok (Turn i) \<longleftrightarrow> True"

abbreviation conc_reaches :: "kernel \<Rightarrow> (nat \<Rightarrow> env) \<Rightarrow> conc \<Rightarrow> nat \<Rightarrow> conc \<Rightarrow> bool" where
  "conc_reaches k envs \<equiv> reaches (conc_go k envs) conc_step_ok"

text \<open>
  \<^verbatim>\<open>thread_pool_destroy\<close> wakes the workers, sleeps while they go on (\<open>steps\<close> is what the threads do meanwhile)
  and destroys the mutex and the condition of the queue. Destroying them is undefined while a worker is
  inside the section of the queue, waits on the condition or is about to: a woken worker that finds the
  queue empty waits again.
\<close>

fun uses_queue :: "thread \<Rightarrow> bool" where
  "uses_queue Waiting \<longleftrightarrow> True"
| "uses_queue (Doing p) \<longleftrightarrow> False"
| "uses_queue (Inside l f) \<longleftrightarrow> l = LOCK_QUEUE"

definition thread_pool_destroy :: "kernel \<Rightarrow> (nat \<Rightarrow> env) \<Rightarrow> conc_step list \<Rightarrow> conc \<Rightarrow> conc result" where
  "thread_pool_destroy k envs steps c =
     do {
       c' \<leftarrow> runs (conc_go k envs) steps c;
       if list_ex uses_queue (tl (cc_threads c')) then None else Some c'
     }"

section \<open>The invariant\<close>

text \<open>No two threads are inside sections whose locks exclude each other.\<close>

definition locks_apart :: "thread list \<Rightarrow> bool" where
  "locks_apart ts \<longleftrightarrow> (\<forall>i < length ts. \<forall>j < length ts. \<forall>l f l' g.
     i \<noteq> j \<longrightarrow> ts ! i = Inside l f \<longrightarrow> ts ! j = Inside l' g \<longrightarrow> \<not> conflicts l l')"

definition thread_safe :: "(resource_t \<Rightarrow> u32) \<Rightarrow> thread \<Rightarrow> bool" where
  "thread_safe tot t \<longleftrightarrow>
     (case t of
        Waiting \<Rightarrow> True
      | Doing p \<Rightarrow> safe (shared tot) any p
      | Inside l f \<Rightarrow> safe (shared tot) any (Sec l f))"

definition conc_inv :: "nat \<Rightarrow> (resource_t \<Rightarrow> u32) \<Rightarrow> conc \<Rightarrow> bool" where
  "conc_inv j tot c \<longleftrightarrow> shared tot j (cc_agent c) \<and> list_all (thread_safe tot) (cc_threads c) \<and> locks_apart (cc_threads c)"

lemma conflicts_sym: "conflicts l l' \<longleftrightarrow> conflicts l' l"
  by (cases l; cases l') simp_all

lemma locks_apart_leave: "locks_apart ts \<Longrightarrow> (\<And>l f. t \<noteq> Inside l f) \<Longrightarrow> locks_apart (ts[i := t])"
  unfolding locks_apart_def by (metis length_list_update nth_list_update_eq nth_list_update_neq)

lemma locks_apart_enter:
  assumes "locks_apart ts" "lock_free l ts"
  shows "locks_apart (ts[i := Inside l f])"
proof -
  have "\<not> conflicts l l'" "\<not> conflicts l' l" if "n < length ts" "ts ! n = Inside l' g" for n l' g
    using that assms(2) conflicts_sym by (auto simp: lock_free_def list_all_length split: thread.splits)
  with assms(1) show ?thesis unfolding locks_apart_def
    by (cases "i < length ts") (force simp: nth_list_update list_update_beyond split: if_splits)+
qed

lemma conc_inv_low: "conc_inv (Suc j) tot c \<Longrightarrow> conc_inv j tot c"
  by (auto simp: conc_inv_def intro: agent_inv_mono)

lemma list_all_update: "list_all P xs \<Longrightarrow> P x \<Longrightarrow> list_all P (xs[i := x])"
  using set_update_subset_insert [of xs i x] by (auto simp: list_all_iff)

text \<open>A step that puts a thread to a place outside every section.\<close>

lemma conc_inv_set:
  assumes "conc_inv j tot c" "thread_safe tot t" "\<And>l f. t \<noteq> Inside l f"
  shows "conc_inv j tot (set_thread i t c)"
  using assms list_all_update [of "thread_safe tot" "cc_threads c" t i] locks_apart_leave [of "cc_threads c" t i]
  by (simp add: conc_inv_def set_thread_def)

lemma turn_safe:
  assumes inv: "conc_inv (Suc j) tot c" and ker: "kernel_ok k \<mu>" and envs: "\<And>i. env_ok (envs i)" and peers: "peers_ok k"
  shows "\<exists>c'. turn k envs i c = Some c' \<and> conc_inv j tot c'"
proof (cases "length (cc_threads c) \<le> i")
  case True
  with conc_inv_low [OF inv] show ?thesis by (simp add: turn_def)
next
  case False
  note low = conc_inv_low [OF inv]
  have t: "thread_safe tot (cc_threads c ! i)" using inv False by (simp add: conc_inv_def list_all_length)
  show ?thesis
  proof (cases "cc_threads c ! i")
    case Waiting
    have "thread_safe tot (Doing (worker_prog k envs))"
      using safe_worker [where envs = envs, OF ker envs peers] by (simp add: thread_safe_def)
    from conc_inv_set [OF low this] low False Waiting show ?thesis by (simp add: turn_def)
  next
    case (Doing p)
    show ?thesis
    proof (cases p)
      case (Return again)
      have "thread_safe tot (if again then Doing (gc_pass_prog k envs) else Waiting)"
        using safe_gc_pass [where envs = envs, OF ker envs] by (simp add: thread_safe_def)
      from conc_inv_set [OF low this] False Doing Return show ?thesis by (simp add: turn_def)
    next
      case (Sec l f)
      have "conc_inv j tot (set_thread i (Inside l f) c)" if "lock_free l (cc_threads c)"
        using low t Doing Sec locks_apart_enter [OF _ that, of i f] list_all_update [of "thread_safe tot" "cc_threads c" "Inside l f" i]
        by (simp add: conc_inv_def set_thread_def thread_safe_def)
      with low False Doing Sec show ?thesis by (simp add: turn_def)
    qed
  next
    case (Inside l f)
    with t inv obtain p a where f: "f (cc_agent c) = Some (p, a)" "shared tot j a" "safe (shared tot) any p"
      unfolding thread_safe_def conc_inv_def by (fastforce simp: safe_Sec_iff)
    have "conc_inv j tot (c\<lparr>cc_agent := a\<rparr>)" using inv f(2) by (simp add: conc_inv_def)
    from conc_inv_set [OF this, of "Doing p" i] f(3) have "conc_inv j tot (set_thread i (Doing p) (c\<lparr>cc_agent := a\<rparr>))"
      by (simp add: thread_safe_def)
    with f(1) False Inside show ?thesis by (simp add: turn_def)
  qed
qed

lemma main_turn_safe:
  assumes inv: "conc_inv (Suc j) tot c" and ker: "kernel_ok k \<mu>" and envs: "\<And>i. env_ok (envs i)"
    and fd: "0 \<le> fd" "fd < int MAX_FDS"
  shows "\<exists>c'. main_turn k envs (fd, evs) c = Some c' \<and> conc_inv j tot c'"
proof -
  have "thread_safe tot (Doing (main_prog k envs (fd, evs)))"
    using safe_main [where envs = envs, OF ker envs fd] by (simp add: thread_safe_def)
  from conc_inv_set [OF conc_inv_low [OF inv] this] conc_inv_low [OF inv] show ?thesis
    by (auto simp: main_turn_def split: list.split thread.split)
qed

text \<open>The threads are a step system; a step uses up at most one place.\<close>

interpretation cc: step_system "\<lambda>(k, envs, tot). conc_go k envs"
  "\<lambda>(k, envs, tot). (\<exists>\<mu>. kernel_ok k \<mu>) \<and> (\<forall>i. env_ok (envs i)) \<and> peers_ok k" "\<lambda>w. conc_step_ok"
  "\<lambda>(k, envs, tot) j c. conc_inv j tot c" 1
proof (unfold_locales, clarsimp)
  fix k \<mu> tot c j st and envs :: "nat \<Rightarrow> env"
  assume inv: "conc_inv (Suc j) tot c" and ker: "kernel_ok k \<mu>" and envs: "\<forall>i. env_ok (envs i)"
    and peers: "peers_ok k" and st: "conc_step_ok st"
  show "\<exists>c'. conc_go k envs st c = Some c' \<and> conc_inv j tot c'"
  proof (cases st)
    case (Turn i)
    with turn_safe [where envs = envs, OF inv ker _ peers] envs show ?thesis by simp
  next
    case (Event ev)
    then obtain fd evs where "ev = (fd, evs)" "0 \<le> fd" "fd < int MAX_FDS" using st by (cases ev) simp
    with Event main_turn_safe [where envs = envs, OF inv ker] envs show ?thesis by simp
  qed
qed

lemma start_threads_safe: "list_all (thread_safe tot) (start_threads n)" "locks_apart (start_threads n)"
proof -
  have w: "start_threads n ! i = Waiting" if "i < length (start_threads n)" for i
    using that by (cases i) (simp_all add: start_threads_def)
  then show "list_all (thread_safe tot) (start_threads n)" "locks_apart (start_threads n)"
    by (simp_all add: list_all_length thread_safe_def locks_apart_def)
qed

lemma conc_start_inv:
  assumes start: "conc_start k mem mem_res argv = Inr c" and node: "mynode (sv_ctx (ag_server (cc_agent c))) \<noteq> None"
    and room: "10 * j \<le> 7 * 2 ^ 30"
  shows "conc_inv j (start_capacity argv) c"
proof -
  obtain a where a: "main_start k mem mem_res argv = Inr a" "c = \<lparr>cc_agent = a, cc_threads = start_threads (atoi (argv ! 6))\<rparr>"
    using start by (cases "main_start k mem mem_res argv") (auto simp: conc_start_def)
  have "shared (start_capacity argv) j a" using main_start_inv [OF a(1) _ room] node a(2) by simp
  with start_threads_safe show ?thesis by (simp add: conc_inv_def a(2))
qed

lemma conc_inv_reached:
  assumes "conc_start k mem mem_res argv = Inr c0" "mynode (sv_ctx (ag_server (cc_agent c0))) \<noteq> None"
    and "kernel_ok k \<mu>" "\<And>i. env_ok (envs i)" "peers_ok k"
    and "conc_reaches k envs c0 n c" "10 * (n + m) \<le> 7 * 2 ^ 30"
  shows "conc_inv m (start_capacity argv) c"
  using cc.reaches_inv [of "(k, envs, start_capacity argv)" c0 n c m] conc_start_inv [OF assms(1,2,7)] assms(3-6) by auto

section \<open>One thread alone\<close>

text \<open>When no other thread is inside a section, a thread runs its program to the end.\<close>

definition none_inside :: "nat \<Rightarrow> thread list \<Rightarrow> bool" where
  "none_inside i ts \<longleftrightarrow> i < length ts \<and> (\<forall>j < length ts. j \<noteq> i \<longrightarrow> (\<forall>l f. ts ! j \<noteq> Inside l f))"

abbreviation at :: "agent \<Rightarrow> thread list \<Rightarrow> nat \<Rightarrow> thread \<Rightarrow> conc" where
  "at a ts i t \<equiv> \<lparr>cc_agent = a, cc_threads = ts[i := t]\<rparr>"

abbreviation turns :: "kernel \<Rightarrow> (nat \<Rightarrow> env) \<Rightarrow> nat \<Rightarrow> nat \<Rightarrow> conc \<Rightarrow> conc option" where
  "turns k envs i m \<equiv> runs (conc_go k envs) (replicate m (Turn i))"

lemma turns_add: "turns k envs i m c = Some c1 \<Longrightarrow> turns k envs i n c1 = Some c2 \<Longrightarrow> turns k envs i (m + n) c = Some c2"
  by (simp add: replicate_add runs_append)

lemma none_inside_free: "none_inside i ts \<Longrightarrow> lock_free l (ts[i := Doing p])"
  by (auto simp: none_inside_def lock_free_def list_all_length nth_list_update split: thread.split)

lemma turn_alone:
  assumes "none_inside i ts"
  shows "turn k envs i (at a ts i (Doing (Return again))) = Some (at a ts i (if again then Doing (gc_pass_prog k envs) else Waiting))"
    "turn k envs i (at a ts i (Doing (Sec l f))) = Some (at a ts i (Inside l f))"
    "f a = Some (p, a') \<Longrightarrow> turn k envs i (at a ts i (Inside l f)) = Some (at a' ts i (Doing p))"
  using assms none_inside_free [OF assms] by (simp_all add: turn_def set_thread_def none_inside_def)

lemma run_alone:
  assumes "none_inside i ts"
  shows "exec p a = Some (x, a') \<Longrightarrow> \<exists>m. turns k envs i m (at a ts i (Doing p)) = Some (at a' ts i (Doing (Return x)))"
proof (induction p arbitrary: a rule: prog_induct)
  case (Return y)
  then show ?case by (intro exI [of _ 0]) simp
next
  case (Sec l f)
  then obtain p1 a1 where f: "f a = Some (p1, a1)" "exec p1 a1 = Some (x, a')" by (auto simp: exec_Sec split: option.splits)
  from Sec.IH [OF f] obtain m where m: "turns k envs i m (at a1 ts i (Doing p1)) = Some (at a' ts i (Doing (Return x)))" by blast
  have "turns k envs i (Suc (Suc m)) (at a ts i (Doing (Sec l f))) = Some (at a' ts i (Doing (Return x)))"
    using turn_alone(2,3) [OF assms] f(1) m by simp
  then show ?case by blast
qed

lemma gc_alone:
  assumes alone: "none_inside i ts" and run: "gc_bucle k envs s = Some s'"
  shows "\<exists>m. turns k envs i m (at (a\<lparr>ag_server := s\<rparr>) ts i (Doing (gc_pass_prog k envs))) =
    Some (at (a\<lparr>ag_server := s'\<rparr>) ts i (Doing (Return False)))"
proof (rule gc_bucle.raw_induct [where P = "\<lambda>k envs s s'. \<exists>m. turns k envs i m
    (at (a\<lparr>ag_server := s\<rparr>) ts i (Doing (gc_pass_prog k envs))) = Some (at (a\<lparr>ag_server := s'\<rparr>) ts i (Doing (Return False)))", OF _ run])
  fix gc k envs s s'
  assume IH: "\<And>k envs s s'. gc k envs s = Some s' \<Longrightarrow> \<exists>m. turns k envs i m
      (at (a\<lparr>ag_server := s\<rparr>) ts i (Doing (gc_pass_prog k envs))) = Some (at (a\<lparr>ag_server := s'\<rparr>) ts i (Doing (Return False)))"
    and body: "(gc_pass k envs s \<bind> (\<lambda>(n, s1). if 0 < n then gc k envs s1 else Some s1)) = Some s'"
  then obtain n s1 where p: "gc_pass k envs s = Some (n, s1)" "(if 0 < n then gc k envs s1 else Some s1) = Some s'"
    by (auto simp: bind_eq_Some_conv)
  from p(1) have "exec (gc_pass_prog k envs) (a\<lparr>ag_server := s\<rparr>) = Some (0 < n, a\<lparr>ag_server := s1\<rparr>)" by simp
  from run_alone [OF alone this] obtain m where
    m: "turns k envs i m (at (a\<lparr>ag_server := s\<rparr>) ts i (Doing (gc_pass_prog k envs))) =
      Some (at (a\<lparr>ag_server := s1\<rparr>) ts i (Doing (Return (0 < n))))" by blast
  show "\<exists>m. turns k envs i m (at (a\<lparr>ag_server := s\<rparr>) ts i (Doing (gc_pass_prog k envs))) =
      Some (at (a\<lparr>ag_server := s'\<rparr>) ts i (Doing (Return False)))"
  proof (cases "0 < n")
    case False
    with m p(2) show ?thesis by auto
  next
    case True
    with p(2) IH [of k envs s1 s'] obtain m' where m': "turns k envs i m' (at (a\<lparr>ag_server := s1\<rparr>) ts i (Doing (gc_pass_prog k envs))) =
      Some (at (a\<lparr>ag_server := s'\<rparr>) ts i (Doing (Return False)))" by auto
    have "turns k envs i (Suc m') (at (a\<lparr>ag_server := s1\<rparr>) ts i (Doing (Return (0 < n)))) =
      Some (at (a\<lparr>ag_server := s'\<rparr>) ts i (Doing (Return False)))"
      using turn_alone(1) [OF alone] True m' by simp
    from turns_add [OF m this] show ?thesis by blast
  qed
qed

lemma exec_task: "wt_type task \<noteq> TASK_GARBAGE_COLLECTOR \<Longrightarrow> exec (task_prog k envs task) a =
    map_option (\<lambda>s. (False, a\<lparr>ag_server := s\<rparr>)) (worker_task k envs task (ag_server a))"
  by (cases "wt_type task") (auto simp: task_prog_def worker_task_def split: Option.bind_splits)

lemma task_alone:
  assumes alone: "none_inside i ts" and run: "worker_task k envs task (ag_server a) = Some s'"
  shows "\<exists>m. turns k envs i m (at a ts i (Doing (task_prog k envs task))) = Some (at (a\<lparr>ag_server := s'\<rparr>) ts i (Doing (Return False)))"
proof (cases "wt_type task = TASK_GARBAGE_COLLECTOR")
  case False
  with run_alone [OF alone] exec_task run show ?thesis by auto
next
  case True
  let ?s = "call (Read (gc_timerfd (sv_ctx (ag_server a)))) (ag_server a)"
  have gc: "gc_bucle k envs ?s = Some s'" using run True by (simp add: worker_task_def handle_gc_timer_expiration_def)
  have c: "task_prog k envs task = Sec NO_LOCK (\<lambda>a. Some (gc_pass_prog k envs,
      a\<lparr>ag_server := call (Read (gc_timerfd (sv_ctx (ag_server a)))) (ag_server a)\<rparr>))"
    using True by (simp add: task_prog_def call_sec_def server_sec_def sec_def)
  from gc_alone [OF alone gc, of a] obtain m where
    m: "turns k envs i m (at (a\<lparr>ag_server := ?s\<rparr>) ts i (Doing (gc_pass_prog k envs))) = Some (at (a\<lparr>ag_server := s'\<rparr>) ts i (Doing (Return False)))" by blast
  have "turns k envs i (Suc (Suc m)) (at a ts i (Doing (task_prog k envs task))) = Some (at (a\<lparr>ag_server := s'\<rparr>) ts i (Doing (Return False)))"
    using turn_alone(2,3) [OF alone] m by (simp add: c)
  then show ?thesis by blast
qed

text \<open>A step of the agent of theory \<open>Agent\<close>, from threads that all wait and back.\<close>

lemma all_waiting:
  assumes "list_all (\<lambda>t. t = Waiting) ts" "i < length ts"
  shows "none_inside i ts" "ts ! i = Waiting" "ts[i := Waiting] = ts"
  using assms by (auto simp: none_inside_def list_all_length list_update_same_conv)

lemma worker_alone:
  assumes ts: "list_all (\<lambda>t. t = Waiting) ts" and i: "0 < i" "i < length ts" and run: "worker_thread k envs a = Some a'"
  shows "\<exists>m. turns k envs i m \<lparr>cc_agent = a, cc_threads = ts\<rparr> = Some \<lparr>cc_agent = a', cc_threads = ts\<rparr>"
proof -
  note W = all_waiting [OF ts i(2)]
  have one: "turn k envs i \<lparr>cc_agent = a, cc_threads = ts\<rparr> = Some (at a ts i (Doing (worker_prog k envs)))"
    using i W(2) by (simp add: turn_def set_thread_def)
  have last: "turn k envs i (at b ts i (Doing (Return False))) = Some \<lparr>cc_agent = b, cc_threads = ts\<rparr>" for b
    using turn_alone(1) [OF W(1)] W(3) by simp
  show ?thesis
  proof (cases "worker_take (ag_queue a)")
    case None
    then have "turns k envs i 4 \<lparr>cc_agent = a, cc_threads = ts\<rparr> = Some \<lparr>cc_agent = a', cc_threads = ts\<rparr>"
      using run one last turn_alone(2,3) [OF W(1)] by (simp add: numeral_eq_Suc worker_thread_def worker_prog_def)
    then show ?thesis by blast
  next
    case (Some r)
    obtain task q where r: "r = (task, q)" by fastforce
    with Some run obtain s where s: "worker_task k envs task (ag_server a) = Some s" "a' = a\<lparr>ag_queue := q, ag_server := s\<rparr>"
      by (auto simp: worker_thread_def bind_eq_Some_conv)
    from task_alone [OF W(1), of k envs task "a\<lparr>ag_queue := q\<rparr>" s] s obtain m where
      m: "turns k envs i m (at (a\<lparr>ag_queue := q\<rparr>) ts i (Doing (task_prog k envs task))) = Some (at a' ts i (Doing (Return False)))"
      by auto
    have "turns k envs i 3 \<lparr>cc_agent = a, cc_threads = ts\<rparr> = Some (at (a\<lparr>ag_queue := q\<rparr>) ts i (Doing (task_prog k envs task)))"
      using one turn_alone(2,3) [OF W(1)] Some r by (simp add: numeral_eq_Suc worker_prog_def)
    note both = turns_add [OF this m]
    have "turns k envs i 1 (at a' ts i (Doing (Return False))) = Some \<lparr>cc_agent = a', cc_threads = ts\<rparr>" using last by simp
    from turns_add [OF both this] show ?thesis by blast
  qed
qed

lemma main_alone:
  assumes ts: "list_all (\<lambda>t. t = Waiting) ts" "0 < length ts" and run: "main_event k envs ev a = Some a'"
  shows "\<exists>m. runs (conc_go k envs) (Event ev # replicate m (Turn 0)) \<lparr>cc_agent = a, cc_threads = ts\<rparr> = Some \<lparr>cc_agent = a', cc_threads = ts\<rparr>"
proof -
  note W = all_waiting [OF ts]
  have "exec (main_prog k envs ev) a = Some (False, a')" using run by (simp add: exec_main)
  from run_alone [OF W(1) this] obtain m where
    m: "turns k envs 0 m (at a ts 0 (Doing (main_prog k envs ev))) = Some (at a' ts 0 (Doing (Return False)))" by blast
  have "turns k envs 0 1 (at a' ts 0 (Doing (Return False))) = Some \<lparr>cc_agent = a', cc_threads = ts\<rparr>"
    using turn_alone(1) [OF W(1)] W(3) by simp
  note m1 = turns_add [OF m this]
  have "main_turn k envs ev \<lparr>cc_agent = a, cc_threads = ts\<rparr> = Some (at a ts 0 (Doing (main_prog k envs ev)))"
    using ts by (cases ts) (simp_all add: main_turn_def set_thread_def)
  with m1 have "runs (conc_go k envs) (Event ev # replicate (m + 1) (Turn 0)) \<lparr>cc_agent = a, cc_threads = ts\<rparr> =
      Some \<lparr>cc_agent = a', cc_threads = ts\<rparr>" by simp
  then show ?thesis by blast
qed

lemma agent_step_alone:
  assumes ts: "list_all (\<lambda>t. t = Waiting) ts" "1 < length ts" and st: "step_ok st" and run: "agent_go k envs st a = Some a'"
  shows "\<exists>ls. list_all conc_step_ok ls \<and> runs (conc_go k envs) ls \<lparr>cc_agent = a, cc_threads = ts\<rparr> = Some \<lparr>cc_agent = a', cc_threads = ts\<rparr>"
proof (cases st)
  case Worker
  with worker_alone [OF ts(1) _ ts(2), of k envs a a'] run obtain m where
    "turns k envs 1 m \<lparr>cc_agent = a, cc_threads = ts\<rparr> = Some \<lparr>cc_agent = a', cc_threads = ts\<rparr>" by auto
  then show ?thesis by (intro exI [of _ "replicate m (Turn 1)"]) (simp add: list_all_iff)
next
  case (Main ev)
  with main_alone [OF ts(1)] ts(2) run obtain m where
    "runs (conc_go k envs) (Event ev # replicate m (Turn 0)) \<lparr>cc_agent = a, cc_threads = ts\<rparr> = Some \<lparr>cc_agent = a', cc_threads = ts\<rparr>"
    by fastforce
  then show ?thesis using st Main by (intro exI [of _ "Event ev # replicate m (Turn 0)"], cases ev) (simp add: list_all_iff)
qed

lemma agent_reaches_alone:
  assumes ts: "list_all (\<lambda>t. t = Waiting) ts" "1 < length ts"
  shows "agent_reaches k envs a0 n a \<Longrightarrow> \<exists>m. conc_reaches k envs \<lparr>cc_agent = a0, cc_threads = ts\<rparr> m \<lparr>cc_agent = a, cc_threads = ts\<rparr>"
proof (induction rule: reaches.induct)
  case (step n a st a')
  from step.IH obtain m where m: "conc_reaches k envs \<lparr>cc_agent = a0, cc_threads = ts\<rparr> m \<lparr>cc_agent = a, cc_threads = ts\<rparr>" by blast
  from agent_step_alone [OF ts step.hyps(2,3)] obtain ls where "list_all conc_step_ok ls"
    "runs (conc_go k envs) ls \<lparr>cc_agent = a, cc_threads = ts\<rparr> = Some \<lparr>cc_agent = a', cc_threads = ts\<rparr>" by blast
  from reaches_runs [OF m this] show ?case by blast
qed (rule exI, rule reaches.start)

section \<open>Races\<close>

text \<open>Two threads that are inside sections on the same part, not both to read it.\<close>

definition races :: "thread list \<Rightarrow> (nat \<times> nat) set" where
  "races ts = {(i, j). i < j \<and> j < length ts \<and> (\<exists>l f l' g. ts ! i = Inside l f \<and> ts ! j = Inside l' g \<and>
     part_of l \<noteq> None \<and> part_of l = part_of l' \<and> \<not> (l = CONNECTIONS_RD \<and> l' = CONNECTIONS_RD))}"

text \<open>A thread inside a section on the jobs, without the lock or with it.\<close>

definition inside_unlocked :: "thread \<Rightarrow> bool" where
  "inside_unlocked t \<longleftrightarrow> (\<exists>f. t = Inside NO_LOCK_OWNED f)"

definition inside_jobs :: "thread \<Rightarrow> bool" where
  "inside_jobs t \<longleftrightarrow> (\<exists>l f. t = Inside l f \<and> part_of l = Some Jobs_part)"

definition thread_disciplined :: "thread \<Rightarrow> bool" where
  "thread_disciplined t \<longleftrightarrow>
     (case t of
        Waiting \<Rightarrow> True
      | Doing p \<Rightarrow> disciplined p
      | Inside l f \<Rightarrow> disciplined (Sec l f))"

definition orderly :: "thread list \<Rightarrow> bool" where
  "orderly ts \<longleftrightarrow> list_all thread_disciplined ts \<and> locks_apart ts"

lemma orderly_set: "orderly ts \<Longrightarrow> thread_disciplined t \<Longrightarrow> (\<And>l f. t \<noteq> Inside l f) \<Longrightarrow> orderly (ts[i := t])"
  using list_all_update [of thread_disciplined ts t i] locks_apart_leave [of ts t i] by (simp add: orderly_def)

lemma orderly_step:
  assumes inv: "orderly (cc_threads c)" and run: "conc_go k envs st c = Some c'"
  shows "orderly (cc_threads c')"
proof (cases st)
  case (Event ev)
  have "thread_disciplined (Doing (main_prog k envs ev))" using disc_main by (simp add: thread_disciplined_def)
  from orderly_set [OF inv this, of 0] Event run inv show ?thesis
    by (auto simp: main_turn_def set_thread_def split: list.splits thread.splits)
next
  case (Turn i)
  show ?thesis
  proof (cases "i < length (cc_threads c)")
    case True
    then have t: "thread_disciplined (cc_threads c ! i)" using inv by (simp add: orderly_def list_all_length)
    have new: "thread_disciplined (Doing (worker_prog k envs))" "thread_disciplined (Doing (gc_pass_prog k envs))" "thread_disciplined Waiting"
      using disc_worker disc_gc_pass by (simp_all add: thread_disciplined_def)
    show ?thesis
    proof (cases "cc_threads c ! i")
      case Waiting
      with True Turn run inv orderly_set [OF inv new(1), of i] show ?thesis by (auto simp: turn_def set_thread_def split: if_splits)
    next
      case (Doing p)
      show ?thesis
      proof (cases p)
        case (Return again)
        with Doing True Turn run orderly_set [OF inv new(2), of i] orderly_set [OF inv new(3), of i] show ?thesis
          by (auto simp: turn_def set_thread_def split: if_splits)
      next
        case (Sec l f)
        have "orderly ((cc_threads c)[i := Inside l f])" if "lock_free l (cc_threads c)"
          using inv t Doing Sec locks_apart_enter [OF _ that, of i f] list_all_update [of thread_disciplined "cc_threads c" "Inside l f" i]
          by (simp add: orderly_def thread_disciplined_def)
        with Doing True Turn run Sec inv show ?thesis by (auto simp: turn_def set_thread_def split: if_splits)
      qed
    next
      case (Inside l f)
      then obtain p a where f: "f (cc_agent c) = Some (p, a)" "c' = set_thread i (Doing p) (c\<lparr>cc_agent := a\<rparr>)"
        using True Turn run by (auto simp: turn_def bind_eq_Some_conv)
      have "disciplined p" using t Inside f(1) by (auto simp: thread_disciplined_def elim: disciplined_SecE)
      then show ?thesis using orderly_set [OF inv, of "Doing p" i] f(2) by (simp add: thread_disciplined_def set_thread_def)
    qed
  qed (use Turn run inv in \<open>simp add: turn_def\<close>)
qed

lemma orderly_reached:
  "conc_reaches k envs c0 n c \<Longrightarrow> orderly (cc_threads c0) \<Longrightarrow> orderly (cc_threads c)"
  by (induction rule: reaches.induct) (auto intro: orderly_step)

lemma orderly_start: "conc_start k mem mem_res argv = Inr c \<Longrightarrow> orderly (cc_threads c)"
proof (cases "main_start k mem mem_res argv")
  case (Inr a)
  have "list_all thread_disciplined (start_threads n)" for n
    by (auto simp: start_threads_def thread_disciplined_def list_all_iff)
  moreover assume "conc_start k mem mem_res argv = Inr c"
  ultimately show ?thesis using Inr start_threads_safe(2) by (auto simp: conc_start_def orderly_def)
qed (simp add: conc_start_def)

text \<open>Locks that do not exclude each other stand for different parts, with two exceptions.\<close>

lemma same_part_cases:
  assumes "part_of l = part_of l'" "part_of l \<noteq> None" "\<not> conflicts l l'"
  shows "l = CONNECTIONS_RD \<and> l' = CONNECTIONS_RD \<or> part_of l = Some Jobs_part \<and> (l = NO_LOCK_OWNED \<or> l' = NO_LOCK_OWNED)"
  using assms by (cases l; cases l') simp_all

lemma races_on_jobs:
  assumes "orderly ts"
  shows "races ts \<subseteq> {(i, j). inside_jobs (ts ! i) \<and> inside_jobs (ts ! j) \<and> (inside_unlocked (ts ! i) \<or> inside_unlocked (ts ! j))}"
proof (rule subsetI, clarify)
  fix i j assume "(i, j) \<in> races ts"
  then obtain l f l' g where *: "i < j" "j < length ts" "ts ! i = Inside l f" "ts ! j = Inside l' g" "part_of l = part_of l'"
    "part_of l \<noteq> None" "\<not> (l = CONNECTIONS_RD \<and> l' = CONNECTIONS_RD)" unfolding races_def by blast
  then have "\<not> conflicts l l'" using assms unfolding orderly_def locks_apart_def by (metis less_trans nat_neq_iff)
  from same_part_cases [OF *(5,6) this] *
  show "inside_jobs (ts ! i) \<and> inside_jobs (ts ! j) \<and> (inside_unlocked (ts ! i) \<or> inside_unlocked (ts ! j))"
    by (auto simp: inside_jobs_def inside_unlocked_def)
qed

section \<open>No deadlock\<close>

text \<open>The threads inside a section leave it one after the other.\<close>

definition insides :: "thread list \<Rightarrow> nat set" where
  "insides ts = {i. i < length ts \<and> (\<exists>l f. ts ! i = Inside l f)}"

lemma finite_insides [simp]: "finite (insides ts)"
  by (rule finite_subset [of _ "{..<length ts}"]) (auto simp: insides_def)

lemma leave_step:
  assumes inv: "conc_inv (Suc j) tot c" and i: "i \<in> insides (cc_threads c)"
  shows "\<exists>p c'. turn k envs i c = Some c' \<and> conc_inv j tot c' \<and> cc_threads c' = (cc_threads c)[i := Doing p]"
proof -
  obtain l f where t: "i < length (cc_threads c)" "cc_threads c ! i = Inside l f" using i by (auto simp: insides_def)
  then have "thread_safe tot (Inside l f)" using inv by (metis conc_inv_def list_all_length)
  with inv obtain p a where f: "f (cc_agent c) = Some (p, a)" "shared tot j a" "safe (shared tot) any p"
    unfolding thread_safe_def conc_inv_def by (fastforce simp: safe_Sec_iff)
  have "conc_inv j tot (c\<lparr>cc_agent := a\<rparr>)" using inv f(2) by (simp add: conc_inv_def)
  from conc_inv_set [OF this, of "Doing p" i] f(3) have "conc_inv j tot (set_thread i (Doing p) (c\<lparr>cc_agent := a\<rparr>))"
    by (simp add: thread_safe_def)
  then show ?thesis using f(1) t by (auto simp: turn_def set_thread_def)
qed

lemma all_leave:
  "conc_inv (card (insides (cc_threads c)) + j) tot c \<Longrightarrow> \<exists>js c'. runs (conc_go k envs) (map Turn js) c = Some c' \<and>
     length js = card (insides (cc_threads c)) \<and> insides (cc_threads c') = {} \<and> conc_inv j tot c' \<and>
     length (cc_threads c') = length (cc_threads c) \<and>
     (\<forall>i. i \<notin> insides (cc_threads c) \<longrightarrow> cc_threads c' ! i = cc_threads c ! i)"
proof (induction "card (insides (cc_threads c))" arbitrary: c)
  case 0
  then show ?case by (intro exI [of _ "[]"] exI [of _ c]) simp
next
  case (Suc n)
  then obtain i where i: "i \<in> insides (cc_threads c)" by fastforce
  have inv: "conc_inv (Suc (n + j)) tot c" using Suc.prems Suc.hyps(2) by (metis add_Suc)
  from leave_step [OF inv i] obtain p c1 where
    c1: "turn k envs i c = Some c1" "conc_inv (n + j) tot c1" "cc_threads c1 = (cc_threads c)[i := Doing p]" by blast
  have ins: "insides (cc_threads c1) = insides (cc_threads c) - {i}" using i by (auto simp: c1(3) insides_def nth_list_update split: if_splits)
  then have n: "n = card (insides (cc_threads c1))" using i Suc.hyps(2) by simp
  from Suc.hyps(1) [OF n] c1(2) n obtain js c' where
    js: "runs (conc_go k envs) (map Turn js) c1 = Some c'" "length js = n" "insides (cc_threads c') = {}" "conc_inv j tot c'"
      "length (cc_threads c') = length (cc_threads c1)" "\<forall>i. i \<notin> insides (cc_threads c1) \<longrightarrow> cc_threads c' ! i = cc_threads c1 ! i"
    by auto
  have "cc_threads c' ! m = cc_threads c ! m" if "m \<notin> insides (cc_threads c)" for m
  proof -
    have "m \<noteq> i" "m \<notin> insides (cc_threads c1)" using that i ins by auto
    with js(6) c1(3) show ?thesis by simp
  qed
  with js c1 Suc.hyps(2) show ?case by (intro exI [of _ "i # js"] exI [of _ c']) simp
qed

lemma gc_pass_Sec: "\<exists>l f. gc_pass_prog k envs = Sec l f"
  by (simp add: gc_pass_prog_def adapter_prog_def enter_sec_def server_sec_def sec_def)

text \<open>A thread that is not waiting can be made to go on.\<close>

lemma can_advance:
  assumes inv: "conc_inv (length (cc_threads c)) tot c" and i: "i < length (cc_threads c)" "cc_threads c ! i \<noteq> Waiting"
  shows "\<exists>js c'. runs (conc_go k envs) (map Turn js) c = Some c' \<and> length js \<le> length (cc_threads c) \<and>
    cc_threads c' ! i \<noteq> cc_threads c ! i"
proof -
  obtain n where n: "length (cc_threads c) = Suc n" using i(1) by (cases "length (cc_threads c)") auto
  consider (inside) l f where "cc_threads c ! i = Inside l f" | (final) again where "cc_threads c ! i = Doing (Return again)"
    | (sec) l f where "cc_threads c ! i = Doing (Sec l f)"
    using i(2) by (metis prog.exhaust thread.exhaust)
  then show ?thesis
  proof cases
    case inside
    then have "i \<in> insides (cc_threads c)" using i(1) by (simp add: insides_def)
    from leave_step [OF inv [unfolded n] this] obtain p c' where "turn k envs i c = Some c'" "cc_threads c' = (cc_threads c)[i := Doing p]" by blast
    with i(1) inside n show ?thesis by (intro exI [of _ "[i]"] exI [of _ c']) simp
  next
    case final
    let ?c = "set_thread i (if again then Doing (gc_pass_prog k envs) else Waiting) c"
    have "turn k envs i c = Some ?c" using final i(1) by (simp add: turn_def)
    moreover have "cc_threads ?c ! i \<noteq> cc_threads c ! i" using final i(1) gc_pass_Sec [of k envs] by (auto simp: set_thread_def)
    ultimately show ?thesis using n by (intro exI [of _ "[i]"] exI [of _ ?c]) simp
  next
    case sec
    have "insides (cc_threads c) \<subseteq> {..<length (cc_threads c)} - {i}" using sec by (auto simp: insides_def)
    from card_mono [OF _ this] have card: "card (insides (cc_threads c)) \<le> n" using i(1) n by simp
    have "conc_inv (card (insides (cc_threads c)) + 0) tot c" using inv card n agent_inv_mono by (auto simp: conc_inv_def)
    note leave = all_leave [OF this, of k envs]
    have not_in: "i \<notin> insides (cc_threads c)" using sec by (simp add: insides_def)
    from leave obtain js c1 where
      js: "runs (conc_go k envs) (map Turn js) c = Some c1" "length js = card (insides (cc_threads c))" "insides (cc_threads c1) = {}"
        "length (cc_threads c1) = length (cc_threads c)" "cc_threads c1 ! i = cc_threads c ! i"
      using not_in by blast
    have "lock_free l (cc_threads c1)"
      using js(3) by (auto simp: lock_free_def list_all_length insides_def split: thread.split)
    then have "turn k envs i c1 = Some (set_thread i (Inside l f) c1)" using js(4,5) i(1) sec by (simp add: turn_def)
    then have "runs (conc_go k envs) (map Turn (js @ [i])) c = Some (set_thread i (Inside l f) c1)" using js(1) by (simp add: runs_append)
    moreover have "cc_threads (set_thread i (Inside l f) c1) ! i \<noteq> cc_threads c ! i" using sec i(1) js(4) by (simp add: set_thread_def)
    moreover have "length (js @ [i]) \<le> length (cc_threads c)" using js(2) card n by simp
    ultimately show ?thesis by blast
  qed
qed

text \<open>A start with four workers, for the witnesses.\<close>

definition sample_argv :: "string list" where
  "sample_argv = [''agent'', ''10.0.0.1'', ''9000'', ''8'', ''64'', ''2'', ''4'']"

lemma sample_start:
  "\<exists>c0. conc_start sample_kernel True True sample_argv = Inr c0 \<and> mynode (sv_ctx (ag_server (cc_agent c0))) \<noteq> None \<and>
     cc_threads c0 = [Waiting, Waiting, Waiting, Waiting, Waiting]"
proof -
  obtain a0 where a0: "main_start sample_kernel True True sample_argv = Inr a0"
    using init_server_run [of sample_kernel sample_argv] by (auto simp: main_start_def sample_argv_def Let_def)
  have "mynode (sv_ctx (ag_server a0)) \<noteq> None"
    unfolding main_start_spec(4) [OF a0] by (simp add: init_node_def create_local_resource_eq)
  moreover have "start_threads (atoi (sample_argv ! 6)) = [Waiting, Waiting, Waiting, Waiting, Waiting]"
  proof -
    have "atoi (sample_argv ! 6) = 4" by code_simp
    moreover have "nat 4 = Suc (Suc (Suc (Suc 0)))" by simp
    ultimately show ?thesis by (simp only: start_threads_def replicate_Suc replicate_0)
  qed
  ultimately show ?thesis using a0 by (simp add: conc_start_def)
qed

lemma sample_first_turn:
  assumes "cc_threads c0 = [Waiting, Waiting, Waiting, Waiting, Waiting]"
  shows "conc_reaches k envs c0 1 (set_thread 1 (Doing (worker_prog k envs)) c0)"
  using reaches.step [where go = "conc_go k envs" and ok = conc_step_ok and l = "Turn 1", OF reaches.start] assms
  by (simp add: turn_def)

text \<open>The pool cannot be destroyed: with a worker that no step moves, the destruction is undefined.\<close>

lemma thread_pool_destroy_idle:
  assumes "0 < i" "i < length (cc_threads c)" "cc_threads c ! i = Waiting" "list_all (\<lambda>st. st \<noteq> Turn i) steps"
  shows "thread_pool_destroy k envs steps c = None"
proof -
  have *: "cc_threads c' ! i = Waiting \<and> length (cc_threads c') = length (cc_threads c)" if "runs (conc_go k envs) steps c = Some c'" for c'
    using that assms
  proof (induction steps arbitrary: c)
    case (Cons st steps)
    then obtain c1 where c1: "conc_go k envs st c = Some c1" "runs (conc_go k envs) steps c1 = Some c'"
      by (auto split: bind_splits)
    have "cc_threads c1 ! i = Waiting \<and> length (cc_threads c1) = length (cc_threads c)"
      using c1(1) Cons.prems by (cases st) (auto simp: turn_def main_turn_def set_thread_def nth_list_update
        split: if_splits thread.splits prog.splits list.splits bind_splits)
    with Cons.IH [OF c1(2)] Cons.prems show ?case by simp
  qed simp
  have "list_ex uses_queue (tl (cc_threads c'))" if "runs (conc_go k envs) steps c = Some c'" for c'
  proof -
    have "tl (cc_threads c') ! (i - 1) = Waiting" "i - 1 < length (tl (cc_threads c'))"
      using * [OF that] assms by (simp_all add: nth_tl)
    then show ?thesis unfolding list_ex_length by force
  qed
  then show ?thesis by (cases "runs (conc_go k envs) steps c") (auto simp: thread_pool_destroy_def)
qed

section \<open>Properties\<close>



text \<open>
  Claim C15. The threads do whatever the agent does one event at a time. Every state of the agent of
  theory \<open>Agent\<close>, in which a handler is one step, is reached by the threads too: with at least one
  worker, and all threads waiting, the critical sections of each handler, taken one after the other,
  have the effect of the handler, loops of the garbage collector included.
\<close>

theorem threads_refine_agent:
  assumes "list_all (\<lambda>t. t = Waiting) (cc_threads c0)" "1 < length (cc_threads c0)" "agent_reaches k envs (cc_agent c0) n a"
  shows "\<exists>m. conc_reaches k envs c0 m (c0\<lparr>cc_agent := a\<rparr>)"
  using agent_reaches_alone [OF assms] by (cases c0) simp

theorem threads_refine_agent_witness:
  "\<exists>c0 a m. conc_start sample_kernel True True sample_argv = Inr c0 \<and>
     agent_go sample_kernel (\<lambda>_. ej_env) (Main (900, [EPOLLIN])) (cc_agent c0) = Some a \<and>
     conc_reaches sample_kernel (\<lambda>_. ej_env) c0 m (c0\<lparr>cc_agent := a\<rparr>)"
proof -
  let ?envs = "\<lambda>_ :: nat. ej_env" and ?ev = "Main (900, [EPOLLIN])"
  obtain c0 where c0: "conc_start sample_kernel True True sample_argv = Inr c0" "mynode (sv_ctx (ag_server (cc_agent c0))) \<noteq> None"
    "cc_threads c0 = [Waiting, Waiting, Waiting, Waiting, Waiting]" using sample_start by blast
  obtain a0 where a0: "main_start sample_kernel True True sample_argv = Inr a0" "cc_agent c0 = a0"
    using c0(1) by (cases "main_start sample_kernel True True sample_argv") (auto simp: conc_start_def)
  have "agent_inv (Suc 0) (start_capacity sample_argv) (cc_agent c0)" using main_start_inv [OF a0(1)] c0(2) a0(2) by simp
  then obtain a where a: "agent_go sample_kernel ?envs ?ev (cc_agent c0) = Some a"
    using main_event_safe [where envs = ?envs and fd = 900 and evs = "[EPOLLIN]", OF _ sample_kernel_ok sample_env_ok]
    by (fastforce simp: MAX_FDS_def)
  have "agent_reaches sample_kernel ?envs (cc_agent c0) 1 a"
    using reaches.step [where go = "agent_go sample_kernel ?envs" and ok = step_ok and l = ?ev, OF reaches.start _ a] by (simp add: MAX_FDS_def)
  from threads_refine_agent [OF _ _ this] c0(1,3) a show ?thesis by auto
qed





end
