(* ===== verification/Job_Race.thy ===== *)
theory Job_Race
  imports Concurrency
begin

text \<open>
  What the access without a lock can do. Two workers handle a JOB_REQUEST with the same number, one
  interrupted between registering the job and taking its first petition: the second job is asked for
  two petitions at once, which the protocol of a job does not allow for.
\<close>

lemma andthen_sec: "andthen (sec l f) g = Sec l (\<lambda>a. map_option (map_prod g (\<lambda>a'. a')) (f a))"
  by (simp add: sec_def option.map_comp comp_def map_prod.compositionality map_prod_def case_prod_unfold)

lemma owned_sec_eq: "owned_sec l f = sec l (exec (owned_sec l f))"
  by (simp add: owned_sec_def node_sec_def server_sec_def)

lemma andthen_assoc: "andthen (andthen p f) g = andthen p (\<lambda>x. andthen (f x) g)"
proof (induction p rule: prog_induct)
  case (Sec l h)
  have "map_option (map_prod (\<lambda>p. andthen p g) (\<lambda>a'. a')) (map_option (map_prod (\<lambda>p. andthen p f) (\<lambda>a'. a')) (h a)) =
      map_option (map_prod (\<lambda>p. andthen p (\<lambda>x. andthen (f x) g)) (\<lambda>a'. a')) (h a)" for a
    using Sec by (cases "h a") auto
  then show ?case by simp
qed simp

text \<open>The two sections of the request, with the rest of the thread.\<close>

definition register_sec :: "env \<Rightarrow> u32 \<Rightarrow> u32 \<Rightarrow> (string \<times> u32 \<times> resource_t \<times> u32) list \<Rightarrow> unit prog" where
  "register_sec env socket jid ts = owned_sec LOCK_OWNED (\<lambda>jobs.
     do {
       (_, jobs1) \<leftarrow> add_new_owned_job (env_mem env 1) (env_now env) jobs jid socket;
       jobs2 \<leftarrow> peticiones_bucle (\<lambda>i. env_mem env (2 + i)) 0 jid (map job_token ts) jobs1;
       Some ((), jobs2)
     })"

definition first_sec :: "u32 \<Rightarrow> outbox_t prog" where
  "first_sec jid = owned_sec NO_LOCK_OWNED (\<lambda>jobs.
     do {
       (jobs', outbox') \<leftarrow> send_next_reserve jobs jid [];
       Some (outbox', jobs')
     })"

lemma job_request_split:
  assumes "env_ok env" "list_all token_ok ts" "ts \<noteq> []"
  shows "andthen (job_request_prog env socket (request_line jid ts) []) g =
    andthen (register_sec env socket jid ts) (\<lambda>_. andthen (first_sec jid) g)"
  using assms(1) unfolding job_request_prog_def request_parse [OF assms(3)] request_tokens [OF assms(2)]
  by (simp add: env_ok_def andthen_assoc register_sec_def first_sec_def numeral_2_eq_2)

text \<open>Their effect on the jobs.\<close>

lemma register_sec_exec:
  assumes "oj_tab (owned_jobs node)" "th_room (Suc j) (owned_jobs node)" "env_ok env" "list_all token_ok ts" "length ts \<le> MAX_JOB_RESOURCES"
  shows "\<exists>jobs. exec (register_sec env socket jid ts) (with_node node closed a) = Some ((), with_node (node\<lparr>owned_jobs := jobs\<rparr>) closed a) \<and>
    oj_tab jobs \<and> th_room j jobs \<and> oj_job jobs = (oj_job (owned_jobs node))(jid \<mapsto> new_job jid socket (env_now env) ts)"
proof -
  have mem: "env_mem env i" for i using assms(3) by (simp add: env_ok_def)
  from register_spec [OF assms(1,2), of "\<lambda>i. env_mem env (2 + i)" ts "env_now env" jid socket] mem assms(4,5) show ?thesis
    by (auto simp: register_sec_def)
qed

lemma first_sec_exec:
  assumes "oj_tab (owned_jobs node)" "oj_job (owned_jobs node) jid = Some job" "petition_count job \<le> MAX_JOB_RESOURCES"
    "oj_next_reserve_idx job < petition_count job"
  shows "\<exists>jobs. exec (first_sec jid) (with_node node closed a) = Some (send_reserve jid (oj_petitions job ! oj_next_reserve_idx job) [],
      with_node (node\<lparr>owned_jobs := jobs\<rparr>) closed a) \<and>
    oj_tab jobs \<and> oj_job jobs = (oj_job (owned_jobs node))(jid \<mapsto> oj_advance job)"
  using next_some_bounded [OF assms] by (auto simp: first_sec_def send_next_reserve_def send_reserve_def)

text \<open>Two turns of a thread whose next section is free, and which no other thread keeps out.\<close>

lemma two_turns:
  assumes "none_inside i ts" "ts ! i = Doing (andthen p g)" "p = sec l h" "h a = Some (x, a')"
  shows "runs (conc_go k envs) [Turn i, Turn i] \<lparr>cc_agent = a, cc_threads = ts\<rparr> = Some \<lparr>cc_agent = a', cc_threads = ts[i := Doing (g x)]\<rparr>"
proof -
  let ?f = "\<lambda>a. map_option (map_prod g (\<lambda>a'. a')) (h a)"
  have ts: "ts[i := Doing (Sec l ?f)] = ts" using assms(2,3) by (metis andthen_sec list_update_id)
  have "turn k envs i \<lparr>cc_agent = a, cc_threads = ts\<rparr> = Some (at a ts i (Inside l ?f))"
    using turn_alone(2) [OF assms(1), where f = ?f and l = l and a = a] by (simp only: ts)
  moreover have "turn k envs i (at a ts i (Inside l ?f)) = Some (at a' ts i (Doing (g x)))"
    by (rule turn_alone(3) [OF assms(1)]) (simp add: assms(4))
  ultimately show ?thesis by simp
qed

lemma two_turns_owned:
  assumes "ts = [Waiting, Doing p1, Doing p2]" "i \<in> {1, 2}" "ts ! i = Doing (andthen (owned_sec l f) g)" "exec (owned_sec l f) a = Some (x, a')"
  shows "runs (conc_go k envs) [Turn i, Turn i] \<lparr>cc_agent = a, cc_threads = ts\<rparr> = Some \<lparr>cc_agent = a', cc_threads = ts[i := Doing (g x)]\<rparr>"
  by (rule two_turns [OF _ assms(3) owned_sec_eq assms(4)])
    (use assms(1,2) in \<open>auto simp: none_inside_def less_Suc_eq\<close>)

lemma register_turns:
  assumes "ts = [Waiting, Doing p1, Doing p2]" "i \<in> {1, 2}" "ts ! i = Doing (andthen (register_sec env socket jid tokens) g)"
    "exec (register_sec env socket jid tokens) a = Some (x, a')"
  shows "runs (conc_go k envs) [Turn i, Turn i] \<lparr>cc_agent = a, cc_threads = ts\<rparr> = Some \<lparr>cc_agent = a', cc_threads = ts[i := Doing (g x)]\<rparr>"
  by (rule two_turns_owned [OF assms(1,2) assms(3,4) [unfolded register_sec_def]])

lemma first_turns:
  assumes "ts = [Waiting, Doing p1, Doing p2]" "i \<in> {1, 2}" "ts ! i = Doing (andthen (first_sec jid) g)"
    "exec (first_sec jid) a = Some (x, a')"
  shows "runs (conc_go k envs) [Turn i, Turn i] \<lparr>cc_agent = a, cc_threads = ts\<rparr> = Some \<lparr>cc_agent = a', cc_threads = ts[i := Doing (g x)]\<rparr>"
  by (rule two_turns_owned [OF assms(1,2) assms(3,4) [unfolded first_sec_def]])

text \<open>A job that was asked for two petitions awaits the second only.\<close>

lemma two_asked:
  assumes "oj_tab jobs" "oj_job jobs jid = Some (oj_advance (oj_advance (new_job jid socket now (t0 # t1 # ts))))"
    and "jp_ip (token_petition t0) \<noteq> jp_ip (token_petition t1)" "jp_ip (token_petition t0) = Some ip"
  shows "oj_grants (oj_advance (oj_advance (new_job jid socket now (t0 # t1 # ts)))) = 0"
    "\<not> oj_ok (oj_advance (oj_advance (new_job jid socket now (t0 # t1 # ts))))"
    "mark_petition_as_granted jobs jid (Some ip) port = Some (- 1, jobs)"
proof -
  have t: "jp_is_granted (token_petition t) = 0" "\<exists>s. jp_ip (token_petition t) = Some s" for t
    by (simp_all add: token_petition_def split: prod.split)
  then show g: "oj_grants (oj_advance (oj_advance (new_job jid socket now (t0 # t1 # ts)))) = 0"
    by (simp add: oj_grants_def)
  then show "\<not> oj_ok (oj_advance (oj_advance (new_job jid socket now (t0 # t1 # ts))))" by (simp add: oj_ok_def oj_advance_def)
  obtain s where "jp_ip (token_petition t1) = Some s" "s \<noteq> ip" using t(2) [of t1] assms(3,4) by auto
  then have "jp_to (token_petition t1) (Some ip) port = Some False" by (simp add: jp_to_def)
  then show "mark_petition_as_granted jobs jid (Some ip) port = Some (- 1, jobs)"
    by (simp add: mark_petition_as_granted_def oj_buscar [OF assms(1)] assms(2) oj_advance_def)
qed

section \<open>Properties\<close>

text \<open>
  Claim C32. A data race of \<^verbatim>\<open>handle_job_request\<close>. Two threads are about to handle a JOB_REQUEST with the
  same number. If both register their job before either takes its first petition, which is read
  without \<^verbatim>\<open>lock_owned\<close>, the job that stays is the second one, its first two petitions are both sent,
  one by each thread, and the job is out of its protocol: the GRANTED of the first node is ignored,
  although this node has reserved the resource.
\<close>

theorem job_request_race:
  assumes node: "mynode (sv_ctx (ag_server a)) = Some node" and tab: "oj_tab (owned_jobs node)" and room: "th_room 2 (owned_jobs node)"
    and env: "env_ok env1" "env_ok env2" and ts1: "list_all token_ok ts1" "ts1 \<noteq> []" "length ts1 \<le> MAX_JOB_RESOURCES"
    and ts2: "list_all token_ok (t0 # t1 # ts)" "length (t0 # t1 # ts) \<le> MAX_JOB_RESOURCES"
    and addr: "jp_ip (token_petition t0) \<noteq> jp_ip (token_petition t1)" "jp_ip (token_petition t0) = Some ip"
  shows "\<exists>a' node' job. runs (conc_go k envs) (map Turn [1, 1, 2, 2, 1, 1, 2, 2])
      \<lparr>cc_agent = a, cc_threads = [Waiting, Doing (andthen (job_request_prog env1 s1 (request_line jid ts1) []) g1),
         Doing (andthen (job_request_prog env2 s2 (request_line jid (t0 # t1 # ts)) []) g2)]\<rparr> =
      Some \<lparr>cc_agent = a', cc_threads = [Waiting, Doing (g1 (send_reserve jid (token_petition t0) [])),
         Doing (g2 (send_reserve jid (token_petition t1) []))]\<rparr> \<and>
    mynode (sv_ctx (ag_server a')) = Some node' \<and> oj_job (owned_jobs node') jid = Some job \<and>
    oj_petitions job = map token_petition (t0 # t1 # ts) \<and> oj_grants job = 0 \<and> oj_next_reserve_idx job = 2 \<and> \<not> oj_ok job \<and>
    mark_petition_as_granted (owned_jobs node') jid (Some ip) (jp_port (token_petition t0)) = Some (- 1, owned_jobs node')"
proof -
  let ?ts2 = "t0 # t1 # ts"
  let ?new = "new_job jid s2 (env_now env2) ?ts2"
  let ?ts = "[Waiting, Doing (andthen (register_sec env1 s1 jid ts1) (\<lambda>_. andthen (first_sec jid) g1)),
    Doing (andthen (register_sec env2 s2 jid ?ts2) (\<lambda>_. andthen (first_sec jid) g2))]"
  have a: "a = with_node node [] a" using node by (simp add: with_node_same)
  have room': "th_room (Suc 1) (owned_jobs node)" using room by (simp add: numeral_2_eq_2)
  from register_sec_exec [OF tab room' env(1) ts1(1,3), of s1 jid "[]" a] obtain jobs1 where
    r1: "exec (register_sec env1 s1 jid ts1) a = Some ((), with_node (node\<lparr>owned_jobs := jobs1\<rparr>) [] a)" "oj_tab jobs1" "th_room (Suc 0) jobs1"
    unfolding a [symmetric] by auto
  from register_sec_exec [of "node\<lparr>owned_jobs := jobs1\<rparr>" 0 env2 ?ts2 s2 jid "[]" a] r1(2,3) env(2) ts2 obtain jobs2 where
    r2: "exec (register_sec env2 s2 jid ?ts2) (with_node (node\<lparr>owned_jobs := jobs1\<rparr>) [] a) = Some ((), with_node (node\<lparr>owned_jobs := jobs2\<rparr>) [] a)"
      "oj_tab jobs2" "oj_job jobs2 jid = Some ?new" by auto
  from first_sec_exec [of "node\<lparr>owned_jobs := jobs2\<rparr>" jid ?new "[]" a] r2(2,3) ts2(2) obtain jobs3 where
    f1: "exec (first_sec jid) (with_node (node\<lparr>owned_jobs := jobs2\<rparr>) [] a) =
        Some (send_reserve jid (token_petition t0) [], with_node (node\<lparr>owned_jobs := jobs3\<rparr>) [] a)"
      "oj_tab jobs3" "oj_job jobs3 jid = Some (oj_advance ?new)" by auto
  from first_sec_exec [of "node\<lparr>owned_jobs := jobs3\<rparr>" jid "oj_advance ?new" "[]" a] f1(2,3) ts2(2) obtain jobs4 where
    f2: "exec (first_sec jid) (with_node (node\<lparr>owned_jobs := jobs3\<rparr>) [] a) =
        Some (send_reserve jid (token_petition t1) [], with_node (node\<lparr>owned_jobs := jobs4\<rparr>) [] a)"
      "oj_tab jobs4" "oj_job jobs4 jid = Some (oj_advance (oj_advance ?new))" by auto
  let ?go = "runs (conc_go k envs)" and ?w = "\<lambda>jobs. with_node (node\<lparr>owned_jobs := jobs\<rparr>) [] a"
  let ?p1 = "andthen (first_sec jid) g1" and ?p2 = "andthen (first_sec jid) g2"
  let ?q1 = "g1 (send_reserve jid (token_petition t0) [])" and ?q2 = "g2 (send_reserve jid (token_petition t1) [])"
  have "?go [Turn 1, Turn 1] \<lparr>cc_agent = a, cc_threads = ?ts\<rparr> = Some \<lparr>cc_agent = ?w jobs1, cc_threads = [Waiting, Doing ?p1, ?ts ! 2]\<rparr>"
    using register_turns [OF refl _ _ r1(1), of 1] by simp
  moreover have "?go [Turn 2, Turn 2] \<lparr>cc_agent = ?w jobs1, cc_threads = [Waiting, Doing ?p1, ?ts ! 2]\<rparr> =
      Some \<lparr>cc_agent = ?w jobs2, cc_threads = [Waiting, Doing ?p1, Doing ?p2]\<rparr>"
    using register_turns [OF refl _ _ r2(1), of 2] by (simp add: numeral_2_eq_2)
  moreover have "?go [Turn 1, Turn 1] \<lparr>cc_agent = ?w jobs2, cc_threads = [Waiting, Doing ?p1, Doing ?p2]\<rparr> =
      Some \<lparr>cc_agent = ?w jobs3, cc_threads = [Waiting, Doing ?q1, Doing ?p2]\<rparr>"
    using first_turns [OF refl _ _ f1(1), of 1] by simp
  moreover have "?go [Turn 2, Turn 2] \<lparr>cc_agent = ?w jobs3, cc_threads = [Waiting, Doing ?q1, Doing ?p2]\<rparr> =
      Some \<lparr>cc_agent = ?w jobs4, cc_threads = [Waiting, Doing ?q1, Doing ?q2]\<rparr>"
    using first_turns [OF refl _ _ f2(1), of 2] by (simp add: numeral_2_eq_2)
  ultimately have "?go ([Turn 1, Turn 1] @ [Turn 2, Turn 2] @ [Turn 1, Turn 1] @ [Turn 2, Turn 2]) \<lparr>cc_agent = a, cc_threads = ?ts\<rparr> =
      Some \<lparr>cc_agent = ?w jobs4, cc_threads = [Waiting, Doing ?q1, Doing ?q2]\<rparr>"
    by (simp only: runs_append bind.bind_lunit)
  then have run: "?go (map Turn [1, 1, 2, 2, 1, 1, 2, 2]) \<lparr>cc_agent = a, cc_threads = ?ts\<rparr> =
      Some \<lparr>cc_agent = ?w jobs4, cc_threads = [Waiting, Doing ?q1, Doing ?q2]\<rparr>" by (simp only: append.simps list.map)
  note split = job_request_split [OF env(1) ts1(1,2)] job_request_split [OF env(2) ts2(1) list.distinct(2)]
  show ?thesis unfolding split
    by (rule exI [of _ "?w jobs4"], rule exI [of _ "node\<lparr>owned_jobs := jobs4\<rparr>"], rule exI [of _ "oj_advance (oj_advance ?new)"])
      (use run f2(2,3) two_asked [OF f2(2,3) addr] in \<open>simp add: oj_advance_def\<close>)
qed

theorem job_request_race_witness:
  "\<exists>node a'. init_node True True 8 64 2 = Some node \<and>
     runs (conc_go sample_kernel (\<lambda>_. ej_env)) (map Turn [1, 1, 2, 2, 1, 1, 2, 2])
       \<lparr>cc_agent = \<lparr>ag_server = sample_server node, ag_queue = static_queue\<rparr>,
        cc_threads = [Waiting, Doing (andthen (job_request_prog ej_env 4 (request_line 7 [(''10.0.0.1'', 9000, CPU, 2)]) []) (\<lambda>_. Return False)),
          Doing (andthen (job_request_prog ej_env 5 (request_line 7 [(''10.0.0.2'', 9000, CPU, 2), (''10.0.0.3'', 9000, GPU, 1)]) [])
            (\<lambda>_. Return False))]\<rparr> =
       Some \<lparr>cc_agent = a', cc_threads = [Waiting, Doing (Return False), Doing (Return False)]\<rparr>"
proof -
  obtain node where node: "init_node True True 8 64 2 = Some node" using sample_node by blast
  let ?a = "\<lparr>ag_server = sample_server node, ag_queue = static_queue\<rparr>"
  have n: "mynode (sv_ctx (ag_server ?a)) = Some node" by (simp add: sample_server_def)
  have inv: "node_inv node" "node_room 2 node" using init_node_inv [OF node, of oj_ok 2] by simp_all
  have tab: "oj_tab (owned_jobs node)" "th_room 2 (owned_jobs node)"
    using oj_invD(1) [OF node_invD(2) [OF inv(1)]] inv(2) by (simp_all add: node_room_def)
  have ts: "list_all token_ok [(''10.0.0.1'', 9000, CPU, 2)]" "length [(''10.0.0.1'', 9000 :: u32, CPU, 2 :: u32)] \<le> MAX_JOB_RESOURCES"
    "list_all token_ok [(''10.0.0.2'', 9000, CPU, 2), (''10.0.0.3'', 9000, GPU, 1)]"
    "length [(''10.0.0.2'', 9000 :: u32, CPU, 2 :: u32), (''10.0.0.3'', 9000, GPU, 1)] \<le> MAX_JOB_RESOURCES"
    by (simp_all add: token_ok_def MAX_JOB_RESOURCES_def)
  have addr: "jp_ip (token_petition (''10.0.0.2'', 9000, CPU, 2)) \<noteq> jp_ip (token_petition (''10.0.0.3'', 9000, GPU, 1))"
    "jp_ip (token_petition (''10.0.0.2'', 9000, CPU, 2)) = Some ''10.0.0.2''"
    by (simp_all add: token_petition_def)
  from job_request_race [OF n tab sample_env_ok sample_env_ok ts(1) list.distinct(2) ts(2,3,4) addr,
      where k = sample_kernel and envs = "\<lambda>_. ej_env" and ?s1.0 = 4 and ?s2.0 = 5 and jid = 7 and
        ?g1.0 = "\<lambda>_. Return False" and ?g2.0 = "\<lambda>_. Return False"] node
  show ?thesis by blast
qed

end
