(* ===== verification/Strtok_Race.thy ===== *)
theory Strtok_Race
  imports Adapter_Protocol
begin

text \<open>
  \<^verbatim>\<open>strtok\<close> keeps its place in one static pointer for all threads. \<^verbatim>\<open>handle_job_request\<close> uses it with
  \<^verbatim>\<open>lock_owned\<close> held, \<^verbatim>\<open>handle_node_announced\<close> with no lock at all, and both run in workers. The other
  theories take the tokens of a line as a function of the line (\<open>strtok\<close>); here the calls are modelled
  one by one, with the pointer as the state they share.
\<close>

section \<open>The calls\<close>

text \<open>One call on the text \<open>s\<close>: the token, or NULL, and the text the pointer is left at.\<close>

definition strtok_next :: "char \<Rightarrow> string \<Rightarrow> string option \<times> string" where
  "strtok_next d s =
     (let s1 = dropWhile (\<lambda>c. c = d) s
      in if s1 = [] then (None, [])
         else (Some (takeWhile (\<lambda>c. c \<noteq> d) s1), drop 1 (dropWhile (\<lambda>c. c \<noteq> d) s1)))"

text \<open>\<^verbatim>\<open>strtok (s, delim)\<close> starts a text, \<^verbatim>\<open>strtok (NULL, delim)\<close> goes on where the pointer is.\<close>

fun strtok_call :: "char \<Rightarrow> string option \<Rightarrow> string \<Rightarrow> string option \<times> string" where
  "strtok_call d (Some s) olds = strtok_next d s"
| "strtok_call d None olds = strtok_next d olds"

text \<open>The calls of all threads, in the order in which they happen, with their answers.\<close>

fun strtok_calls :: "char \<Rightarrow> (nat \<times> string option) list \<Rightarrow> string \<Rightarrow> (nat \<times> string option) list" where
  "strtok_calls d [] olds = []"
| "strtok_calls d ((i, arg) # cs) olds =
     (let (r, olds') = strtok_call d arg olds in (i, r) # strtok_calls d cs olds')"

definition tokens_of :: "nat \<Rightarrow> (nat \<times> string option) list \<Rightarrow> string list" where
  "tokens_of i rs = List.map_filter (\<lambda>(j, r). if j = i then r else None) rs"

lemma tokens_of_simps [simp]:
  "tokens_of i [] = []" "tokens_of i ((j, None) # rs) = tokens_of i rs"
  "tokens_of i ((j, Some w) # rs) = (if j = i then w # tokens_of i rs else tokens_of i rs)"
  by (simp_all add: tokens_of_def List.map_filter_def)

section \<open>One thread alone\<close>

lemma strtok_skip: "strtok d (d # s) = strtok d s"
  by (simp add: strtok_def)

lemma strtok_next_strtok:
  "strtok d s = (case strtok_next d s of (None, r) \<Rightarrow> [] | (Some w, r) \<Rightarrow> w # strtok d r)"
proof (induction s)
  case Nil
  then show ?case by (simp add: strtok_next_def strtok_def)
next
  case (Cons c s)
  show ?case
  proof (cases "c = d")
    case True
    with Cons show ?thesis by (simp add: strtok_skip strtok_next_def)
  next
    case False
    let ?w = "takeWhile (\<lambda>c. c \<noteq> d) (c # s)" and ?r = "dropWhile (\<lambda>c. c \<noteq> d) (c # s)"
    have w: "?w \<noteq> []" "d \<notin> set ?w" using False set_takeWhileD by fastforce+
    show ?thesis
    proof (cases ?r)
      case Nil
      then have "strtok d (c # s) = [?w]" using strtok_end [OF w] by (metis append_Nil2 takeWhile_dropWhile_id)
      moreover have "strtok_next d (c # s) = (Some ?w, [])" 
        using Nil [unfolded dropWhile_eq_Nil_conv] False by (simp add: strtok_next_def dropWhile_eq_Nil_conv [THEN iffD2])
      ultimately show ?thesis by (simp add: strtok_def)
    next
      case (Cons x r)
      then have "x = d" unfolding dropWhile_eq_Cons_conv by simp
      then have eq: "?w @ d # r = c # s"
        using takeWhile_dropWhile_id [of "\<lambda>c. c \<noteq> d" "c # s"] unfolding Cons by (simp only:)
      have "strtok d (c # s) = ?w # strtok d r" using strtok_word [OF w, of r] unfolding eq .
      moreover have "strtok_next d (c # s) = (Some ?w, r)" using Cons False by (simp add: strtok_next_def)
      ultimately show ?thesis by simp
    qed
  qed
qed

text \<open>Where the pointer is after some calls with NULL.\<close>

fun olds_after :: "char \<Rightarrow> nat \<Rightarrow> string \<Rightarrow> string" where
  "olds_after d 0 s = s"
| "olds_after d (Suc m) s = olds_after d m (snd (strtok_next d s))"

lemma strtok_next_rest: "strtok d (snd (strtok_next d s)) = tl (strtok d s)"
proof (cases "strtok_next d s")
  case (Pair r s')
  then show ?thesis
    by (cases r) (auto simp: strtok_next_strtok [of d s], simp add: strtok_next_def strtok_def Let_def split: if_splits)
qed

lemma strtok_olds_after: "strtok d (olds_after d m s) = drop m (strtok d s)"
  by (induction m arbitrary: s) (simp_all add: strtok_next_rest drop_Suc)

lemma calls_append: "strtok_calls d (replicate m (i, None) @ cs) s =
    strtok_calls d (replicate m (i, None)) s @ strtok_calls d cs (olds_after d m s)"
  by (induction m arbitrary: s) (simp_all add: case_prod_unfold Let_def)

lemma calls_alone: "tokens_of i (strtok_calls d (replicate m (i, None)) s) = take m (strtok d s)"
proof (induction m arbitrary: s)
  case (Suc m)
  obtain r s' where n: "strtok_next d s = (r, s')" by fastforce
  have "tokens_of i (strtok_calls d (replicate m (i, None)) s') = take m (tl (strtok d s))"
    using Suc.IH [of s'] strtok_next_rest [of d s] n by simp
  then show ?case using strtok_next_strtok [of d s] n by (cases r) simp_all
qed simp

lemma calls_other: "j \<noteq> i \<Longrightarrow> tokens_of j (strtok_calls d (replicate m (i, None)) s) = []"
proof (induction m arbitrary: s)
  case (Suc m)
  obtain r s' where "strtok_next d s = (r, s')" by fastforce
  with Suc show ?case by (cases r) simp_all
qed simp

lemma tokens_of_append: "tokens_of i (rs @ rs') = tokens_of i rs @ tokens_of i rs'"
  by (simp add: tokens_of_def List.map_filter_def)

text \<open>The first call of a line is a call with NULL at its start.\<close>

lemma first_call: "strtok_calls d ((i, Some s) # cs) olds = strtok_calls d ((i, None) # cs) s"
  by simp

section \<open>An announcement between two tokens\<close>

text \<open>
  Thread 0 has taken \<open>m\<close> tokens of \<open>lineA\<close> when thread 1 starts \<open>lineB\<close>: thread 0 goes on in \<open>lineB\<close>.
\<close>

definition race_calls :: "string \<Rightarrow> string \<Rightarrow> nat \<Rightarrow> nat \<Rightarrow> (nat \<times> string option) list" where
  "race_calls lineA lineB m n =
     (0, Some lineA) # replicate m (0, None) @ (1, Some lineB) # replicate n (0, None) @ [(1, None)]"

lemma race_tokens:
  assumes "strtok d lineB \<noteq> []" "length (strtok d lineB) \<le> Suc n"
  shows "tokens_of 0 (strtok_calls d (race_calls lineA lineB m n) olds) = take (Suc m) (strtok d lineA) @ tl (strtok d lineB) \<and>
    tokens_of 1 (strtok_calls d (race_calls lineA lineB m n) olds) = [hd (strtok d lineB)]"
proof -
  obtain w r where B: "strtok_next d lineB = (Some w, r)" "strtok d lineB = w # strtok d r"
    using strtok_next_strtok [of d lineB] assms(1) by (cases "strtok_next d lineB") (auto split: option.splits)
  have A: "strtok_calls d (race_calls lineA lineB m n) olds =
      strtok_calls d (replicate (Suc m) (0, None)) lineA @ (1, Some w) # strtok_calls d (replicate n (0, None)) r @
      strtok_calls d [(1, None)] (olds_after d n r)"
    unfolding race_calls_def first_call using calls_append [of d "Suc m" 0 "(1, Some lineB) # replicate n (0, None) @ [(1, None)]" lineA]
    by (simp add: B(1) calls_append del: strtok_calls.simps(2) replicate_Suc) (simp add: B(1) calls_append case_prod_unfold Let_def)
  have "strtok d (olds_after d n r) = []" using assms(2) B(2) by (simp add: strtok_olds_after)
  then have "fst (strtok_next d (olds_after d n r)) = None"
    using strtok_next_strtok [of d "olds_after d n r"] by (cases "strtok_next d (olds_after d n r)") (auto split: option.splits)
  then have last: "strtok_calls d [(1, None)] (olds_after d n r) = [(1, None)]" by (simp add: case_prod_unfold)
  have "take n (strtok d r) = strtok d r" using assms(2) B(2) by simp
  then show ?thesis unfolding A last
    by (simp add: tokens_of_append calls_alone calls_other B(2) del: replicate_Suc)
qed

text \<open>Words that do not begin with \<^verbatim>\<open>@\<close> are no petitions.\<close>

lemma no_petition: "hd w \<noteq> CHR ''@'' \<Longrightarrow> w \<noteq> [] \<Longrightarrow> sscanf petition_fmt w = []"
  by (cases w) (simp_all add: petition_fmt_def)

lemma peticiones_append: "peticiones_bucle mem i jid (xs @ ys) jobs =
    (peticiones_bucle mem i jid xs jobs \<bind> peticiones_bucle mem (i + length xs) jid ys)"
proof (induction xs arbitrary: i jobs)
  case (Cons x xs)
  then show ?case by (auto split: list.split fval.split Option.bind_splits)
qed simp

lemma peticiones_none:
  "\<forall>w \<in> set ws. w \<noteq> [] \<and> hd w \<noteq> CHR ''@'' \<Longrightarrow> peticiones_bucle mem i jid ws jobs = Some jobs"
  by (induction ws arbitrary: i) (simp_all add: no_petition)

lemma announce_tokens:
  assumes "0 < port" "port < 2 ^ 31"
  shows "strtok CHR '' '' (announce_msg port cpu ram gpu) =
    [''ANNOUNCE'', fmt_u (u32_of_int port), ''cpu:'' @ fmt_u cpu, ''mem:'' @ fmt_u ram, ''gpu:'' @ fmt_u gpu]"
  unfolding announce_msg_eq [OF assms]
  using fmt_u_Cons [of "u32_of_int port"] fmt_u_not [of "CHR '' ''"] by (subst strtok_concat) auto

lemma announce_no_petitions:
  assumes "0 < port" "port < 2 ^ 31"
  shows "\<forall>w \<in> set (tl (strtok CHR '' '' (announce_msg port cpu ram gpu))). w \<noteq> [] \<and> hd w \<noteq> CHR ''@''"
proof -
  obtain c s where "fmt_u (u32_of_int port) = c # s" "is_digit c" using fmt_u_Cons by blast
  then show ?thesis by (auto simp: announce_tokens [OF assms] is_digit_def)
qed

section \<open>Properties\<close>



end
