(* ===== verification/Spec2Isabelle.thy ===== *)
theory Spec2Isabelle
  imports Delivery Negotiation Job_Race Strtok_Race
begin

text \<open>
  Verification of the C agent of the HPC resource manager (\<^verbatim>\<open>src/c_agent\<close>).

  \<^bold>\<open>The program.\<close> Every node of a cluster runs one agent. The agent keeps the inventory of its node
  (CPUs, memory, GPUs), grants parts of it to other agents, and negotiates the jobs of the local
  scheduler (an Erlang program under \<^verbatim>\<open>src/erlang\<close>) with
  the agents of other nodes: \<^verbatim>\<open>JOB_REQUEST\<close> names the petitions of a job, the agent sends them one at a
  time as \<^verbatim>\<open>RESERVE\<close>, is answered \<^verbatim>\<open>GRANTED\<close> or \<^verbatim>\<open>DENIED\<close>, gives granted resources back with \<^verbatim>\<open>RELEASE\<close>
  and tells the scheduler \<^verbatim>\<open>JOB_GRANTED\<close>, \<^verbatim>\<open>JOB_DENIED\<close> or \<^verbatim>\<open>JOB_TIMEOUT\<close>. Agents find each other with UDP
  announcements. Events come from epoll, are queued for a thread pool and end in
  \<^verbatim>\<open>resource_adapter_patch\<close>, which changes the node and fills an outbox of messages.

  \<^bold>\<open>The theories\<close>, from the bottom up:

  \<^item> \<open>Prelude\<close>: 32 bit words and their C conversions (\<open>u_inc\<close> and the like wrap at $2^{32}$), the type
    \<open>resource_t\<close> of \<^verbatim>\<open>common_types.h\<close> with its order, generic lemmas. A \<open>result\<close> is an option: \<open>None\<close>
    is undefined behaviour of the C code, so that a theorem that a function returns \<open>Some\<close> is memory
    safety. Where \<^verbatim>\<open>malloc\<close> may fail, an argument \<open>mem\<close> says whether it does.
  \<^item> \<open>C_Strings\<close>: the formatting and scanning functions of the C library the agent uses.
  \<^item> \<open>Queues\<close>: the list of \<^verbatim>\<open>queues.c\<close>; locale \<open>fifo\<close>, interpreted on it and on the ring buffer.
  \<^item> \<open>Tablahash\<close>: the open addressing hash table of \<^verbatim>\<open>tablahash.c\<close>, with probing, lazy deletion and
    resizing; locale \<open>tablahash\<close> (a comparison and a hash that agree with a key) and the contract
    \<open>dictionary\<close>, interpreted for the three tables of the agent. A table refines a finite map.
    Insertion and resizing are mutually recursive in C; the model unrolls them \<open>TH_DEPTH\<close> = 2 times,
    which is enough because a table of double capacity is at most half full, so that re-insertion
    never resizes again; the lemmas show that the bound is never reached. The probe loops carry
    the number of slots still to visit.
  \<^item> \<open>Local_Resource\<close> and \<open>Inventory\<close>: \<^verbatim>\<open>local_resource.c\<close>, its invariant, and an abstract inventory
    (capacity, granted amounts, waiting requests) that it refines; histories of operations.
  \<^item> \<open>Owned_Jobs\<close>: \<^verbatim>\<open>owned_jobs.c\<close>, with the protocol of a job as invariant \<open>oj_ok\<close> (petitions are sent
    one at a time) and its bounds alone as the weaker \<open>oj_bounded\<close>. Locale \<open>job_contract\<close> states what the
    handlers need of either; it is interpreted on both, for whole handlers and for interrupted ones.
  \<^item> \<open>Known_Nodes\<close>: \<^verbatim>\<open>known_nodes.c\<close>, the directory of announced nodes.
  \<^item> \<open>Node_Structures\<close>: \<^verbatim>\<open>node_structures.c\<close>, the state of a node.
  \<^item> \<open>Connections\<close>: the table of connections and its two queries, of \<^verbatim>\<open>event_handler.c\<close>.
  \<^item> \<open>Thread_Pool\<close>: the task queue of \<^verbatim>\<open>thread_pool.c\<close>.
  \<^item> \<open>Resource_Adapter\<close>: all handlers and the dispatcher of \<^verbatim>\<open>resource_adapter.c\<close>; \<open>Adapter_Safety\<close>: each
    of them, and every history of events, is free of undefined behaviour and keeps the invariants;
    \<open>Adapter_Protocol\<close>: what the messages do, from the bytes one node sends to the state of the other.
  \<^item> \<open>Sys_Calls\<close>: the system calls and \<^verbatim>\<open>sys_epoll.c\<close>. The kernel is an argument, a function from the calls
    made so far and the next one to its answer; programs are state transformers on the calls made.
  \<^item> \<open>Sys_Socket\<close>: \<^verbatim>\<open>sys_socket.c\<close>. The loop of \<^verbatim>\<open>send_tcp_message\<close> is a partial function; it ends when the
    kernel is patient (\<open>send_patient\<close>: it does not answer \<^verbatim>\<open>EAGAIN\<close> forever).
  \<^item> \<open>Event_Handler\<close>: the handlers of \<^verbatim>\<open>event_handler.c\<close>, on the context, the table of connections and the
    calls made. The loop of the garbage collector is a partial function.
  \<^item> \<open>Steps\<close>: locale \<open>step_system\<close>, the contract of a fallible step with a budget, and what it gives for
    sequences and reachable states; interpreted for the messages of an outbox, the lines of a buffer,
    the steps of the agent and the messages that arrive in a cluster.
  \<^item> \<open>Server_Safety\<close>: the invariant of the server, kept by every handler, and the end of the garbage
    collection; \<open>Delivery\<close>: how messages travel through the handlers.
  \<^item> \<open>Cluster\<close>: several agents, with the messages on their way between them, and the negotiation of a job as
    an abstract sequence of requests to inventories; \<open>Negotiation\<close>: the phases of a negotiation across the
    cluster, in every order in which messages arrive.
  \<^item> \<open>Agent\<close>: \<^verbatim>\<open>server_init.c\<close>, \<^verbatim>\<open>main.c\<close> and the workers of \<^verbatim>\<open>thread_pool.c\<close>; the agent as a step system
    in which a handler is one step.
  \<^item> \<open>Programs\<close>: the code of a thread as a sequence of critical sections, each with its lock; \<open>Sections\<close>:
    every handler, the worker and the body of \<^verbatim>\<open>main\<close> cut into their sections, each program with a lemma
    that without interruption it is the handler of the theories above.
  \<^item> \<open>Section_Safety\<close>: every section keeps the invariant, whatever state the other threads left;
    \<open>Lock_Discipline\<close>: every section touches only what its lock protects.
  \<^item> \<open>Concurrency\<close>: the main thread and the workers, in any interleaving; \<open>Job_Race\<close>: what the one access
    without a lock can do; \<open>Strtok_Race\<close>: what the static pointer of \<^verbatim>\<open>strtok\<close> can do.

  \<^bold>\<open>What is shown.\<close> The inventory never grants more than the node has and, as long as keys are not
  re-used, loses nothing (C2, C3); its operations implement the specification (C5 to C8); the tables
  are maps (C1) and the task queue is FIFO (C11); a job is registered, advanced and rolled
  back as its messages say (C16, C25 to C27); the directory is kept up to date (C17 to C19, C29); all
  histories of events are safe (C21); the messages of one node are read as meant by another (C22,
  C23, C29). Below the protocol, sending ends and delivers the whole message (C35), messages wait
  for their connection and are sent once (C36), buffers with several messages are handled in order
  (C37), sockets do not leak (C40) and the garbage collector ends (C34). Across the cluster, a job gets all
  its resources or none, whatever the order in which messages arrive (C13), and its release restores every
  inventory (C28). Put together, the agent is
  safe in every interleaving of its threads from its start on (C39): nothing is undefined, and the node
  never gives more than it has. The threads do whatever the agent does one event at a time (C15), never
  deadlock (C9), and respect their locks (C20), so that the only data race on the shared tables is the one
  access to the jobs without \<^verbatim>\<open>lock_owned\<close> (C24). C10, C14, C31, C33 and C38 state limits of the code, C12 and
  C32 what its races do.

  \<^bold>\<open>Modelling.\<close> Records and functions have the names of the code, loops of a function end in
  \<open>_bucle\<close>, the threads' version of a handler in \<open>_prog\<close>. Pointers into a table become an update of the
  element with the same key (\<open>th_asignar\<close>).
  Up to \<open>Agent\<close> a handler is one step and the locks have no value; from \<open>Programs\<close> on the threads
  interleave between critical sections. A section is atomic and takes effect when it is left, which is
  sound for sections under a lock by C20 and C24; the access without a lock is taken as atomic too. A
  system call, or one function of \<^verbatim>\<open>sys_socket.c\<close>, is one section without a lock. The theorems on single
  handlers and on the cluster (C13, C14, C22, C23, C25 to C30) hold for handlers that are not interrupted.
  In a cluster each agent handles one message at a time, on connections that are open, and a negotiation is
  followed while no other is under way; the number of messages it takes is bounded by three for each
  petition and the request. Threads are taken to be
  created successfully. \<^verbatim>\<open>strtok\<close> is a function of the line everywhere but in \<open>Strtok_Race\<close>.
  \<^verbatim>\<open>rand ()\<close>, \<^verbatim>\<open>time (NULL)\<close> and the outcome of allocations are arguments (one \<open>env\<close> for each call of the
  dispatcher), so that the theorems hold for all of them. The kernel is held to what is documented of
  it (\<open>kernel_ok\<close>): no descriptor is below -1, \<^verbatim>\<open>send\<close> and \<^verbatim>\<open>recv\<close> keep to the sizes given. Messages
  printed to the terminal are left out. The tables count their elements in 32 bits: the theorems on
  histories bound the number of events so that no counter wraps (a table doubles its capacity at a load
  of 0.7); a step of the agent counts as one event for each byte of its buffer, a step of the threads as one.

  \<^bold>\<open>Not modelled:\<close> the failure of \<^verbatim>\<open>pthread_create\<close>, what a data race does inside a section, the code
  of \<^verbatim>\<open>main\<close> after its endless loop, and the Erlang scheduler, a separate program.
\<close>

end
